(* ===== verification/Prelude.thy ===== *)
theory Prelude
  imports Main "HOL-Library.Word" "HOL-Library.Monad_Syntax"
begin

text \<open>
  Shared vocabulary of the development: the integer types of \<open>include/types.h\<close>, byte
  buffers, little-endian field access, checked buffer access, and the lemmas about them.

  Conventions.
  \<^item> \<open>u8\<close> \dots \<open>u64\<close> are machine words and wrap; C's \<open>int\<close> is \<open>int\<close>.
  \<^item> A C object is a list of bytes. A result of type \<open>'a option\<close> is \<open>None\<close> exactly where
    the C program has no defined behaviour (an access outside an object, a division by
    zero, a dereferenced null pointer, a signed overflow); an error that the code reports
    is an ordinary value, usually the C return code.
  \<^item> Stateful code takes the state and returns the new one next to its result.
\<close>

unbundle bit_operations_syntax

section \<open>Integer types (include/types.h)\<close>

type_synonym u8 = "8 word"
type_synonym u16 = "16 word"
type_synonym u32 = "32 word"
type_synonym u64 = "64 word"
type_synonym bytes = "u8 list"

named_theorems buf_simps "slices, splices and the fields in them"
named_theorems len_simps "lengths of buffers"
named_theorems bind_simps "taking apart a computation that returned"
named_theorems post_intros "postconditions of the option monad"

declare bind_eq_Some_conv [bind_simps] map_option_eq_Some [bind_simps]

lemma uint_0_iff_word [simp]: "uint w = 0 \<longleftrightarrow> w = 0" for w :: "'a::len word"
  by (simp add: unsigned_eq_0_iff)

lemma uint_gt_0_iff_word [simp]: "0 < uint w \<longleftrightarrow> w \<noteq> 0" for w :: "'a::len word"
  by (metis uint_0_iff_word uint_ge_0 less_le)

lemma uint_eq_iff_word [simp]: "uint v = uint w \<longleftrightarrow> v = w" for v w :: "'a::len word"
  by (simp add: word_uint_eq_iff)

lemma unat_eq_iff_word [simp]: "unat v = unat w \<longleftrightarrow> v = w" for v w :: "'a::len word"
  by (simp add: word_unat_eq_iff)

lemma unat_pow2 [simp]: "n < LENGTH('a) \<Longrightarrow> unat (2 ^ n :: 'a::len word) = 2 ^ n"
proof -
  assume n: "n < LENGTH('a)"
  have "unat (2 ^ n :: 'a word) = unat (of_nat (2 ^ n) :: 'a word)" by simp
  also have "\<dots> = 2 ^ n mod 2 ^ LENGTH('a)" by (rule unat_of_nat)
  also have "\<dots> = 2 ^ n" using n by simp
  finally show ?thesis .
qed

lemma unat_add_small: "unat x + unat y < 2 ^ LENGTH('a) \<Longrightarrow> unat (x + y) = unat x + unat y"
  for x y :: "'a::len word"
  by (simp add: unat_add_lem [symmetric])

lemma unat_mult_small: "unat x * unat y < 2 ^ LENGTH('a) \<Longrightarrow> unat (x * y) = unat x * unat y"
  for x y :: "'a::len word"
  by (simp add: unat_mult_lem [symmetric])

lemma unat_ucast_up:
  "LENGTH('a) \<le> LENGTH('b) \<Longrightarrow> unat (ucast x :: 'b::len word) = unat x" for x :: "'a::len word"
proof -
  assume le: "LENGTH('a) \<le> LENGTH('b)"
  have "unat x < 2 ^ LENGTH('a)" by (rule unsigned_less)
  also have "(2::nat) ^ LENGTH('a) \<le> 2 ^ LENGTH('b)" using le by simp
  finally show ?thesis by (simp add: unsigned_ucast_eq take_bit_nat_eq_self)
qed

lemma unat_ucast_down: "unat (ucast x :: 'b::len word) = unat x mod 2 ^ LENGTH('b)" for x :: "'a::len word"
  by (simp add: unsigned_ucast_eq take_bit_eq_mod)

lemma unat_ucast_simps [simp]:
  "unat (ucast (a :: u8) :: u16) = unat a" "unat (ucast (a :: u8) :: u32) = unat a"
  "unat (ucast (a :: u8) :: u64) = unat a" "unat (ucast (b :: u16) :: u32) = unat b"
  "unat (ucast (b :: u16) :: u64) = unat b" "unat (ucast (c :: u32) :: u64) = unat c"
  by (simp_all add: unat_ucast_up)

lemma and_0xFF: "x AND 0xFF = take_bit 8 x" for x :: "'a::len word"
proof -
  have "(0xFF :: 'a word) = mask 8" by (simp add: mask_eq_exp_minus_1)
  then show ?thesis by (simp only: take_bit_eq_mask)
qed

lemma and_0xFF_less: "unat (x AND 0xFF) < 256" for x :: "'a::len word"
proof -
  have "unat (take_bit 8 x) = take_bit 8 (unat x)" by (simp add: unsigned_take_bit_eq)
  then show ?thesis by (simp only: and_0xFF) (simp add: take_bit_eq_mod)
qed

section \<open>Checked operations\<close>

definition chk :: "bool \<Rightarrow> unit option" where
  "chk P = (if P then Some () else None)"

lemma chk_simps [simp]: "chk True = Some ()" "chk False = None"
  by (simp_all add: chk_def)

lemma chk_eq_Some [simp]: "chk P = Some u \<longleftrightarrow> P"
  by (simp add: chk_def)

lemma chk_bind_Some: "(do { chk P; f }) = Some x \<longleftrightarrow> P \<and> f = Some x"
  by (simp add: chk_def)

definition udiv :: "'a::len word \<Rightarrow> 'a word \<Rightarrow> 'a word option" where
  "udiv a b = (if b = 0 then None else Some (a div b))"

definition umod :: "'a::len word \<Rightarrow> 'a word \<Rightarrow> 'a word option" where
  "umod a b = (if b = 0 then None else Some (a mod b))"

lemma udiv_Some [simp]: "b \<noteq> 0 \<Longrightarrow> udiv a b = Some (a div b)"
  by (simp add: udiv_def)

lemma umod_Some [simp]: "b \<noteq> 0 \<Longrightarrow> umod a b = Some (a mod b)"
  by (simp add: umod_def)

lemma udiv_eq_Some [bind_simps]: "udiv a b = Some c \<longleftrightarrow> b \<noteq> 0 \<and> c = a div b"
  by (auto simp: udiv_def)

lemma umod_eq_Some [bind_simps]: "umod a b = Some c \<longleftrightarrow> b \<noteq> 0 \<and> c = a mod b"
  by (auto simp: umod_def)

lemma unat_and_not_mask: "unat (y AND NOT (mask k)) = unat y div 2 ^ k * 2 ^ k" for y :: "'a :: len word"
proof -
  have "y AND NOT (mask k) = push_bit k (drop_bit k y)"
    by (rule bit_word_eqI) (auto simp: bit_simps)
  moreover have "unat y div 2 ^ k * 2 ^ k < 2 ^ LENGTH('a)"
    by (rule le_less_trans [OF div_times_less_eq_dividend unsigned_less])
  moreover have "unat (drop_bit k y) = unat y div 2 ^ k"
    using unsigned_drop_bit_eq [of k y, where 'a = nat] drop_bit_eq_div [of k "unat y"] by (simp add: take_bit_nat_eq_self)
  ultimately show ?thesis
    using unsigned_push_bit_eq [of k "drop_bit k y", where 'a = nat] push_bit_eq_mult [of k "unat y div 2 ^ k"]
    by (simp add: take_bit_nat_eq_self)
qed

section \<open>Slices of a buffer\<close>

text \<open>\<open>sub b i n\<close> is the \<open>n\<close> bytes of \<open>b\<close> from offset \<open>i\<close>; \<open>upd b i xs\<close> overwrites
  \<open>b\<close> from offset \<open>i\<close> with \<open>xs\<close>. Both are meant for ranges inside the buffer; the checked
  forms \<open>slice\<close> and \<open>splice\<close> say what happens outside.\<close>

definition sub :: "'a list \<Rightarrow> nat \<Rightarrow> nat \<Rightarrow> 'a list" where
  "sub b i n = take n (drop i b)"

definition upd :: "'a list \<Rightarrow> nat \<Rightarrow> 'a list \<Rightarrow> 'a list" where
  "upd b i xs = take i b @ xs @ drop (i + length xs) b"

definition slice :: "'a list \<Rightarrow> nat \<Rightarrow> nat \<Rightarrow> 'a list option" where
  "slice b i n = (if i + n \<le> length b then Some (sub b i n) else None)"

definition splice :: "'a list \<Rightarrow> nat \<Rightarrow> 'a list \<Rightarrow> 'a list option" where
  "splice b i xs = (if i + length xs \<le> length b then Some (upd b i xs) else None)"

lemma length_sub [simp, len_simps]: "i + n \<le> length b \<Longrightarrow> length (sub b i n) = n"
  by (simp add: sub_def)

lemma length_upd [simp, len_simps]: "i + length xs \<le> length b \<Longrightarrow> length (upd b i xs) = length b"
  by (simp add: upd_def)

lemma length_sub_le: "length (sub b i n) \<le> n"
  by (simp add: sub_def)

lemma slice_Some [simp]: "i + n \<le> length b \<Longrightarrow> slice b i n = Some (sub b i n)"
  by (simp add: slice_def)

lemma splice_Some [simp]: "i + length xs \<le> length b \<Longrightarrow> splice b i xs = Some (upd b i xs)"
  by (simp add: splice_def)

lemma slice_eq_Some [bind_simps]: "slice b i n = Some x \<longleftrightarrow> i + n \<le> length b \<and> x = sub b i n"
  by (auto simp: slice_def)

lemma splice_eq_Some [bind_simps]: "splice b i xs = Some x \<longleftrightarrow> i + length xs \<le> length b \<and> x = upd b i xs"
  by (auto simp: splice_def)

lemma sub_upd_same [buf_simps]:
  "i + length xs \<le> length b \<Longrightarrow> n = length xs \<Longrightarrow> sub (upd b i xs) i n = xs"
  by (simp add: sub_def upd_def)

lemma sub_upd_before [buf_simps]:
  "i + length xs \<le> length b \<Longrightarrow> j + n \<le> i \<Longrightarrow> sub (upd b i xs) j n = sub b j n"
  by (simp add: sub_def upd_def take_drop min_def)

lemma sub_upd_after [buf_simps]:
  "i + length xs \<le> length b \<Longrightarrow> i + length xs \<le> j \<Longrightarrow> sub (upd b i xs) j n = sub b j n"
  by (simp add: sub_def upd_def)

lemma sub_full [simp]: "sub b 0 (length b) = b"
  by (simp add: sub_def)

lemma upd_sub_id: "i + n \<le> length b \<Longrightarrow> upd b i (sub b i n) = b"
  unfolding upd_def sub_def by (metis add.commute append_take_drop_id drop_drop length_sub sub_def)

lemma upd_upd_same: "i + length xs \<le> length b \<Longrightarrow> length ys = length xs \<Longrightarrow>
    upd (upd b i xs) i ys = upd b i ys"
  by (simp add: upd_def)

lemma nth_upd:
  "i + length xs \<le> length b \<Longrightarrow> k < length b \<Longrightarrow>
    upd b i xs ! k = (if i \<le> k \<and> k < i + length xs then xs ! (k - i) else b ! k)"
  by (auto simp: upd_def nth_append min_def)

lemma upd_single: "i < length b \<Longrightarrow> upd b i [x] = b[i := x]"
  by (simp add: upd_def upd_conv_take_nth_drop)

lemma nth_sub: "i + n \<le> length b \<Longrightarrow> k < n \<Longrightarrow> sub b i n ! k = b ! (i + k)"
  by (simp add: sub_def)

section \<open>Little-endian and big-endian fields\<close>

definition le16 :: "bytes \<Rightarrow> u16" where
  "le16 b = ucast (b ! 0) OR push_bit 8 (ucast (b ! 1))"

definition le32 :: "bytes \<Rightarrow> u32" where
  "le32 b = ucast (b ! 0) OR push_bit 8 (ucast (b ! 1)) OR
            push_bit 16 (ucast (b ! 2)) OR push_bit 24 (ucast (b ! 3))"

definition be32_of :: "bytes \<Rightarrow> u32" where
  "be32_of b = push_bit 24 (ucast (b ! 0)) OR push_bit 16 (ucast (b ! 1)) OR
            push_bit 8 (ucast (b ! 2)) OR ucast (b ! 3)"

definition bytes16 :: "u16 \<Rightarrow> bytes" where
  "bytes16 v = [ucast v, ucast (drop_bit 8 v)]"

definition bytes32 :: "u32 \<Rightarrow> bytes" where
  "bytes32 v = [ucast v, ucast (drop_bit 8 v), ucast (drop_bit 16 v), ucast (drop_bit 24 v)]"

lemma length_bytes16 [simp]: "length (bytes16 v) = 2"
  by (simp add: bytes16_def)

lemma length_bytes32 [simp]: "length (bytes32 v) = 4"
  by (simp add: bytes32_def)

lemma le16_bytes16 [simp]: "le16 (bytes16 v) = v"
  by (rule bit_word_eqI) (auto simp: le16_def bytes16_def bit_simps)

lemma le32_bytes32 [simp]: "le32 (bytes32 v) = v"
proof (rule bit_word_eqI)
  fix n assume n: "n < LENGTH(32)"
  then consider "n < 8" | "8 \<le> n" "n < 16" | "16 \<le> n" "n < 24" | "24 \<le> n" "n < 32"
    by fastforce
  then show "bit (le32 (bytes32 v)) n = bit v n"
    by cases (simp_all add: le32_def bytes32_def bit_simps less_diff_conv2)
qed

lemma bytes16_le16 [simp]: "length b = 2 \<Longrightarrow> bytes16 (le16 b) = b"
proof -
  have "bytes16 (le16 [x, y]) = [x, y]" for x y
    unfolding bytes16_def le16_def by (auto intro!: bit_word_eqI simp: bit_simps impossible_bit)
  moreover assume "length b = 2"
  then obtain x y where "b = [x, y]" by (auto simp: numeral_eq_Suc length_Suc_conv)
  ultimately show ?thesis by simp
qed

lemma bytes32_le32 [simp]: "length b = 4 \<Longrightarrow> bytes32 (le32 b) = b"
proof -
  have "bytes32 (le32 [w, x, y, z]) = [w, x, y, z]" for w x y z
    unfolding bytes32_def le32_def list.inject
    by (intro conjI; (intro bit_word_eqI)?) (simp_all add: bit_simps impossible_bit)
  moreover assume "length b = 4"
  then obtain w x y z where "b = [w, x, y, z]" by (auto simp: numeral_eq_Suc length_Suc_conv)
  ultimately show ?thesis by simp
qed

definition rd8 :: "bytes \<Rightarrow> nat \<Rightarrow> u8" where "rd8 b i = b ! i"
definition rd16 :: "bytes \<Rightarrow> nat \<Rightarrow> u16" where "rd16 b i = le16 (sub b i 2)"
definition rd32 :: "bytes \<Rightarrow> nat \<Rightarrow> u32" where "rd32 b i = le32 (sub b i 4)"
definition wr8 :: "bytes \<Rightarrow> nat \<Rightarrow> u8 \<Rightarrow> bytes" where "wr8 b i v = upd b i [v]"
definition wr16 :: "bytes \<Rightarrow> nat \<Rightarrow> u16 \<Rightarrow> bytes" where "wr16 b i v = upd b i (bytes16 v)"
definition wr32 :: "bytes \<Rightarrow> nat \<Rightarrow> u32 \<Rightarrow> bytes" where "wr32 b i v = upd b i (bytes32 v)"

lemma length_wr8 [simp, len_simps]: "i + 1 \<le> length b \<Longrightarrow> length (wr8 b i v) = length b"
  by (simp add: wr8_def)

lemma length_wr16 [simp, len_simps]: "i + 2 \<le> length b \<Longrightarrow> length (wr16 b i v) = length b"
  by (simp add: wr16_def)

lemma length_wr32 [simp, len_simps]: "i + 4 \<le> length b \<Longrightarrow> length (wr32 b i v) = length b"
  by (simp add: wr32_def)

lemma rd16_wr16 [simp, buf_simps]: "i + 2 \<le> length b \<Longrightarrow> rd16 (wr16 b i v) i = v"
  by (simp add: rd16_def wr16_def sub_upd_same)

lemma rd32_wr32 [simp, buf_simps]: "i + 4 \<le> length b \<Longrightarrow> rd32 (wr32 b i v) i = v"
  by (simp add: rd32_def wr32_def sub_upd_same)

lemma rd16_upd_other [buf_simps]:
  "i + length xs \<le> length b \<Longrightarrow> j + 2 \<le> i \<or> i + length xs \<le> j \<Longrightarrow> rd16 (upd b i xs) j = rd16 b j"
  by (auto simp: rd16_def sub_upd_before sub_upd_after)

lemma rd32_upd_other [buf_simps]:
  "i + length xs \<le> length b \<Longrightarrow> j + 4 \<le> i \<or> i + length xs \<le> j \<Longrightarrow> rd32 (upd b i xs) j = rd32 b j"
  by (auto simp: rd32_def sub_upd_before sub_upd_after)

lemma rd_wr_other [buf_simps]:
  "i + 2 \<le> length b \<Longrightarrow> j + 2 \<le> i \<or> i + 2 \<le> j \<Longrightarrow> rd16 (wr16 b i v) j = rd16 b j"
  "i + 4 \<le> length b \<Longrightarrow> j + 2 \<le> i \<or> i + 4 \<le> j \<Longrightarrow> rd16 (wr32 b i w) j = rd16 b j"
  "i + 2 \<le> length b \<Longrightarrow> j + 4 \<le> i \<or> i + 2 \<le> j \<Longrightarrow> rd32 (wr16 b i v) j = rd32 b j"
  "i + 4 \<le> length b \<Longrightarrow> j + 4 \<le> i \<or> i + 4 \<le> j \<Longrightarrow> rd32 (wr32 b i w) j = rd32 b j"
  by (simp_all add: wr16_def wr32_def rd16_upd_other rd32_upd_other)

text \<open>The checked accesses used where the range depends on data.\<close>

definition ld8 :: "bytes \<Rightarrow> nat \<Rightarrow> u8 option" where
  "ld8 b i = (if i < length b then Some (rd8 b i) else None)"
definition ld16 :: "bytes \<Rightarrow> nat \<Rightarrow> u16 option" where
  "ld16 b i = (if i + 2 \<le> length b then Some (rd16 b i) else None)"
definition ld32 :: "bytes \<Rightarrow> nat \<Rightarrow> u32 option" where
  "ld32 b i = (if i + 4 \<le> length b then Some (rd32 b i) else None)"
definition st8 :: "bytes \<Rightarrow> nat \<Rightarrow> u8 \<Rightarrow> bytes option" where
  "st8 b i v = (if i < length b then Some (wr8 b i v) else None)"
definition st16 :: "bytes \<Rightarrow> nat \<Rightarrow> u16 \<Rightarrow> bytes option" where
  "st16 b i v = (if i + 2 \<le> length b then Some (wr16 b i v) else None)"
definition st32 :: "bytes \<Rightarrow> nat \<Rightarrow> u32 \<Rightarrow> bytes option" where
  "st32 b i v = (if i + 4 \<le> length b then Some (wr32 b i v) else None)"

lemma ld_st_Some [simp]:
  "i < length b \<Longrightarrow> ld8 b i = Some (rd8 b i)" "i + 2 \<le> length b \<Longrightarrow> ld16 b i = Some (rd16 b i)"
  "i + 4 \<le> length b \<Longrightarrow> ld32 b i = Some (rd32 b i)" "i < length b \<Longrightarrow> st8 b i x = Some (wr8 b i x)"
  "i + 2 \<le> length b \<Longrightarrow> st16 b i y = Some (wr16 b i y)" "i + 4 \<le> length b \<Longrightarrow> st32 b i z = Some (wr32 b i z)"
  by (simp_all add: ld8_def ld16_def ld32_def st8_def st16_def st32_def)

lemma ld_st_eq_Some [bind_simps]:
  "ld8 b i = Some x \<longleftrightarrow> i < length b \<and> x = rd8 b i"
  "ld16 b i = Some y \<longleftrightarrow> i + 2 \<le> length b \<and> y = rd16 b i"
  "ld32 b i = Some z \<longleftrightarrow> i + 4 \<le> length b \<and> z = rd32 b i"
  "st8 b i x = Some c \<longleftrightarrow> i < length b \<and> c = wr8 b i x"
  "st16 b i y = Some c \<longleftrightarrow> i + 2 \<le> length b \<and> c = wr16 b i y"
  "st32 b i z = Some c \<longleftrightarrow> i + 4 \<le> length b \<and> c = wr32 b i z"
  by (auto simp: ld8_def ld16_def ld32_def st8_def st16_def st32_def)

section \<open>Postconditions\<close>

text \<open>\<open>post m Q\<close>: if the computation returns, its result satisfies \<open>Q\<close>. The rules take a
  \<open>do\<close>-block apart, one per construct.\<close>

definition post :: "'a option \<Rightarrow> ('a \<Rightarrow> bool) \<Rightarrow> bool" where
  "post m Q \<longleftrightarrow> (\<forall>x. m = Some x \<longrightarrow> Q x)"

lemma postI: "(\<And>x. m = Some x \<Longrightarrow> Q x) \<Longrightarrow> post m Q"
  by (simp add: post_def)

lemma postD: "post m Q \<Longrightarrow> m = Some x \<Longrightarrow> Q x"
  by (simp add: post_def)

lemma post_mono: "post m P \<Longrightarrow> (\<And>x. m = Some x \<Longrightarrow> P x \<Longrightarrow> Q x) \<Longrightarrow> post m Q"
  by (auto simp: post_def)

lemma post_Some [post_intros]: "Q x \<Longrightarrow> post (Some x) Q"
  by (simp add: post_def)

lemma post_None [post_intros]: "post None Q"
  by (simp add: post_def)

lemma post_bind [post_intros]: "(\<And>x. m = Some x \<Longrightarrow> post (f x) Q) \<Longrightarrow> post (m \<bind> f) Q"
  by (cases m) (auto simp: post_def)

lemma post_if [post_intros]:
  "(b \<Longrightarrow> post m Q) \<Longrightarrow> (\<not> b \<Longrightarrow> post n Q) \<Longrightarrow> post (if b then m else n) Q"
  by simp

lemma post_let [post_intros]: "(\<And>x. x = t \<Longrightarrow> post (f x) Q) \<Longrightarrow> post (Let t f) Q"
  by simp

lemma post_case_prod [post_intros]:
  "(\<And>a b. p = (a, b) \<Longrightarrow> post (f a b) Q) \<Longrightarrow> post (case p of (a, b) \<Rightarrow> f a b) Q"
  by (cases p) simp

lemma post_case_prod2 [post_intros]:
  "(\<And>a b. p = (a, b) \<Longrightarrow> post (f a b c) Q) \<Longrightarrow> post ((case p of (a, b) \<Rightarrow> f a b) c) Q"
  by (cases p) simp

lemma post_case_option [post_intros]:
  "(p = None \<Longrightarrow> post m Q) \<Longrightarrow> (\<And>a. p = Some a \<Longrightarrow> post (f a) Q) \<Longrightarrow>
    post (case p of None \<Rightarrow> m | Some a \<Rightarrow> f a) Q"
  by (cases p) simp_all

lemma post_store [post_intros]:
  "(i < length b \<Longrightarrow> Q (wr8 b i x)) \<Longrightarrow> post (st8 b i x) Q"
  "(i + 2 \<le> length b \<Longrightarrow> Q (wr16 b i y)) \<Longrightarrow> post (st16 b i y) Q"
  "(i + 4 \<le> length b \<Longrightarrow> Q (wr32 b i z)) \<Longrightarrow> post (st32 b i z) Q"
  "(i + length xs \<le> length b \<Longrightarrow> Q (upd b i xs)) \<Longrightarrow> post (splice b i xs) Q"
  by (simp_all add: post_def bind_simps)

section \<open>Loops over a list\<close>

text \<open>A \<open>for\<close> loop whose body changes the state and may be undefined.\<close>

fun ofold :: "('a \<Rightarrow> 's \<Rightarrow> 's option) \<Rightarrow> 'a list \<Rightarrow> 's \<Rightarrow> 's option" where
  "ofold f [] s = Some s"
| "ofold f (x # xs) s = do { s \<leftarrow> f x s; ofold f xs s }"

lemma ofold_append: "ofold f (xs @ ys) s = do { s \<leftarrow> ofold f xs s; ofold f ys s }"
proof (induction xs arbitrary: s)
  case (Cons x xs)
  then show ?case by (cases "f x s") auto
qed simp

lemma ofold_inv:
  "ofold f xs s = Some s' \<Longrightarrow> P s \<Longrightarrow> (\<And>x s s'. x \<in> set xs \<Longrightarrow> P s \<Longrightarrow> f x s = Some s' \<Longrightarrow> P s') \<Longrightarrow> P s'"
  by (induction xs arbitrary: s) (auto simp: bind_simps)

lemma ofold_total:
  "P s \<Longrightarrow> (\<And>x s. x \<in> set xs \<Longrightarrow> P s \<Longrightarrow> \<exists>s'. f x s = Some s' \<and> P s') \<Longrightarrow> \<exists>s'. ofold f xs s = Some s' \<and> P s'"
proof (induction xs arbitrary: s)
  case (Cons x xs)
  then obtain s1 where "f x s = Some s1" "P s1" by (meson list.set_intros(1))
  with Cons show ?case by simp
qed simp

end
