(* ===== verification/Udivmod.thy ===== *)
theory Udivmod
  imports Prelude
begin

text \<open>
  \<open>lib/udivmod64.c\<close>: the shift-subtract division \<open>__udivmoddi4\<close> that i686 builds link in
  place of libgcc's. The loop variable \<open>i\<close> counts down from 63; \<open>udivmod_loop k\<close> is the loop
  with \<open>k\<close> iterations left, so its body runs at \<open>i = k - 1\<close>.
\<close>

fun udivmod_loop :: "nat \<Rightarrow> u64 \<Rightarrow> u64 \<Rightarrow> u64 \<Rightarrow> u64 \<Rightarrow> u64 \<times> u64" where
  "udivmod_loop 0 num den quot rem = (quot, rem)"
| "udivmod_loop (Suc i) num den quot rem =
     (let rem = push_bit 1 rem OR (drop_bit i num AND 1) in
      if rem \<ge> den
      then udivmod_loop i num den (quot OR push_bit i 1) (rem - den)
      else udivmod_loop i num den quot rem)"

text \<open>The quotient and the value stored through \<open>rem_out\<close>.\<close>

definition udivmoddi4 :: "u64 \<Rightarrow> u64 \<Rightarrow> u64 \<times> u64" where
  "udivmoddi4 num den = (if den = 0 then (0, 0) else udivmod_loop 64 num den 0 0)"

lemma double_or_bit:
  fixes r n :: u64
  assumes "2 * unat r < 2 ^ 64"
  shows "unat (push_bit 1 r OR (drop_bit i n AND 1)) = 2 * unat r + unat n div 2 ^ i mod 2"
proof -
  have "push_bit 1 r OR (drop_bit i n AND 1) = push_bit 1 r + (drop_bit i n AND 1)"
    by (rule disjunctive_add [symmetric]) (auto simp: bit_simps simp del: push_bit_Suc)
  moreover have "unat (push_bit 1 r) = 2 * unat r"
    using assms by (simp add: push_bit_eq_mult unat_word_ariths)
  moreover have "unat (drop_bit i n AND 1) = unat n div 2 ^ i mod 2"
    by (simp add: and_one_eq unat_mod unat_drop_bit_eq) (simp add: drop_bit_eq_div)
  moreover have "2 * unat r + unat n div 2 ^ i mod 2 < 2 ^ 64"
  proof -
    have "unat r + 1 \<le> 2 ^ 63" using assms by simp
    moreover have "unat n div 2 ^ i mod 2 \<le> 1" by simp
    moreover have "(2::nat) ^ 64 = 2 * 2 ^ 63" by simp
    ultimately show ?thesis by linarith
  qed
  ultimately show ?thesis
    by (simp only: unat_word_ariths) (simp del: power_numeral)
qed

lemma quot_or_bit:
  fixes q :: u64
  assumes "unat q = m * 2 ^ Suc i" and "i < 64" and "(m * 2 + 1) * 2 ^ i < 2 ^ 64"
  shows "unat (q OR push_bit i 1) = (m * 2 + 1) * 2 ^ i"
proof -
  have "q = of_nat (m * 2 ^ Suc i)"
    unfolding assms(1) [symmetric] by simp
  then have q: "q = push_bit (Suc i) (of_nat m)"
    by (simp add: push_bit_eq_mult)
  have "q OR push_bit i 1 = q + push_bit i 1"
    unfolding q by (rule disjunctive_add [symmetric]) (auto simp: bit_simps simp del: push_bit_Suc)
  moreover have "unat (push_bit i 1 :: u64) = 2 ^ i"
    using assms(2) by (simp add: push_bit_of_1)
  moreover have "unat q + 2 ^ i = (m * 2 + 1) * 2 ^ i"
    using assms(1) by (simp add: algebra_simps)
  ultimately show ?thesis
    using assms(3) by (simp add: unat_add_small del: power_numeral)
qed

text \<open>With \<open>k\<close> iterations left the loop has divided the top bits \<open>num div 2 ^ k\<close>.\<close>

lemma udivmod_loop_correct:
  assumes "k \<le> 64" and "den \<noteq> 0"
    and "unat rem = (unat num div 2 ^ k) mod unat den"
    and "unat quot = (unat num div 2 ^ k) div unat den * 2 ^ k"
  shows "udivmod_loop k num den quot rem = (num div den, num mod den)"
  using assms
proof (induction k arbitrary: quot rem)
  case 0
  then show ?case by (auto simp: word_unat_eq_iff unat_div unat_mod simp del: unat_eq_iff_word)
next
  case (Suc i)
  define N where "N = unat num div 2 ^ Suc i"
  define b where "b = unat num div 2 ^ i mod 2"
  define d where "d = unat den"
  define q where "q = N div d"
  define r where "r = N mod d"
  have d: "0 < d" using Suc.prems(2) by (simp add: d_def unat_gt_0)
  have top: "unat num div 2 ^ i = 2 * N + b"
  proof -
    have "N = unat num div 2 ^ i div 2"
      by (simp add: N_def div_mult2_eq mult.commute [of 2])
    then show ?thesis by (simp add: b_def)
  qed
  have num: "unat num < 2 ^ 64" using unsigned_less [of num, where 'a = nat] by simp
  have big: "(2 * N + b) * 2 ^ i \<le> unat num"
    unfolding top [symmetric] by simp
  have "2 * N + b \<le> (2 * N + b) * 2 ^ i" by simp
  with big num have N2: "2 * N < 2 ^ 64" by linarith
  have rN: "r \<le> N" by (simp add: r_def)
  have rem: "unat rem = r" and quot: "unat quot = q * 2 ^ Suc i"
    using Suc.prems by (simp_all add: r_def q_def N_def d_def)
  have dm: "(k * d + x) div d = k" "(k * d + x) mod d = x" if "x < d" for k x
    using that by simp_all
  define rem' where "rem' = push_bit 1 rem OR (drop_bit i num AND 1)"
  have rem': "unat rem' = 2 * r + b"
    unfolding rem'_def b_def by (subst double_or_bit) (use rem rN N2 in auto)
  have b: "b < 2" by (simp add: b_def)
  have "q * d + r = N" by (simp add: q_def r_def)
  then have N: "2 * N + b = q * 2 * d + (2 * r + b)" by auto
  have r: "r < d" using d by (simp add: r_def)
  show ?case
  proof (cases "rem' \<ge> den")
    case True
    then have ge: "d \<le> 2 * r + b" by (simp add: word_le_nat_alt rem' d_def)
    have lt: "2 * r + b - d < d" using r b by linarith
    have split: "2 * N + b = (q * 2 + 1) * d + (2 * r + b - d)"
      using N ge by (simp add: algebra_simps)
    have div: "(2 * N + b) div d = q * 2 + 1" and mod: "(2 * N + b) mod d = 2 * r + b - d"
      unfolding split by (rule dm [OF lt])+
    have "(q * 2 + 1) * 2 ^ i \<le> unat num"
    proof -
      have "q * 2 + 1 \<le> 2 * N + b" unfolding div [symmetric] by (rule div_le_dividend)
      then show ?thesis using big by (meson le_trans mult_le_mono1)
    qed
    then have qlt: "(q * 2 + 1) * 2 ^ i < 2 ^ 64" using num by simp
    have "udivmod_loop i num den (quot OR push_bit i 1) (rem' - den) = (num div den, num mod den)"
    proof (rule Suc.IH)
      show "unat (rem' - den) = unat num div 2 ^ i mod unat den"
        using True by (simp add: unat_sub rem' top mod d_def [symmetric])
      show "unat (quot OR push_bit i 1) = unat num div 2 ^ i div unat den * 2 ^ i"
        using quot_or_bit [OF quot _ qlt] Suc.prems(1) by (simp add: top div d_def [symmetric])
    qed (use Suc.prems in simp_all)
    with True show ?thesis by (simp add: Let_def rem'_def)
  next
    case False
    then have lt: "2 * r + b < d" by (simp add: word_le_nat_alt rem' d_def not_le)
    have div: "(2 * N + b) div d = q * 2" and mod: "(2 * N + b) mod d = 2 * r + b"
      unfolding N by (rule dm [OF lt])+
    have "udivmod_loop i num den quot rem' = (num div den, num mod den)"
    proof (rule Suc.IH)
      show "unat rem' = unat num div 2 ^ i mod unat den"
        by (simp add: rem' top mod d_def [symmetric])
      show "unat quot = unat num div 2 ^ i div unat den * 2 ^ i"
        by (simp add: top div d_def [symmetric] quot)
    qed (use Suc.prems in simp_all)
    with False show ?thesis by (simp add: Let_def rem'_def)
  qed
qed

text \<open>C9: the shift-and-subtract loop computes the quotient and the remainder of 64-bit unsigned
  division for every numerator and every non-zero divisor.\<close>

theorem udivmoddi4_correct: "den \<noteq> 0 \<Longrightarrow> udivmoddi4 num den = (num div den, num mod den)"
  using udivmod_loop_correct [of 64 den 0 num 0] unsigned_less [of num, where 'a = nat]
  by (simp add: udivmoddi4_def)

theorem udivmoddi4_correct_witness:
  "(10 :: u64) \<noteq> 0 \<and> udivmoddi4 1709 10 = (170, 9)"
  using udivmoddi4_correct [of 10 1709] by simp

end
