(* ===== verification/Kstring.thy ===== *)
theory Kstring
  imports Prelude
begin

text \<open>
  \<open>lib/string.c\<close>: C strings and raw memory. A string argument is the list of bytes from
  the pointer to the end of the object it points into, so that running off the object is
  \<open>None\<close>; a returned pointer is an offset. The functions that may be called with
  overlapping or unaligned areas (\<open>memcpy\<close>, \<open>memmove\<close>, \<open>memset\<close>) work on a flat memory
  \<open>nat \<Rightarrow> u8\<close>, word by word as the code does.
\<close>

section \<open>Strings\<close>

fun k_strlen :: "bytes \<Rightarrow> nat option" where
  "k_strlen [] = None"
| "k_strlen (c # s) = (if c = 0 then Some 0 else map_option Suc (k_strlen s))"

fun k_strcmp :: "bytes \<Rightarrow> bytes \<Rightarrow> int option" where
  "k_strcmp (a # as) (b # bs) =
     (if a \<noteq> 0 \<and> a = b then k_strcmp as bs else Some (uint a - uint b))"
| "k_strcmp _ _ = None"

fun k_strncmp :: "bytes \<Rightarrow> bytes \<Rightarrow> nat \<Rightarrow> int option" where
  "k_strncmp _ _ 0 = Some 0"
| "k_strncmp (a # as) (b # bs) (Suc n) =
     (if a \<noteq> b then Some (uint a - uint b)
      else if a = 0 then Some 0
      else k_strncmp as bs n)"
| "k_strncmp _ _ (Suc n) = None"

fun k_strcpy :: "bytes \<Rightarrow> bytes \<Rightarrow> bytes option" where
  "k_strcpy (d # ds) (c # cs) =
     (if c = 0 then Some (0 # ds) else map_option (Cons c) (k_strcpy ds cs))"
| "k_strcpy _ _ = None"

text \<open>The pointer results of \<open>k_strchr\<close> and \<open>k_strstr\<close>: \<open>Some None\<close> is \<open>NULL\<close>.\<close>

fun k_strchr :: "bytes \<Rightarrow> int \<Rightarrow> nat option option" where
  "k_strchr [] c = None"
| "k_strchr (x # s) c =
     (if x = 0 then Some (if c = 0 then Some 0 else None)
      else if x = word_of_int c then Some (Some 0)
      else map_option (map_option Suc) (k_strchr s c))"

fun strstr_from :: "bytes \<Rightarrow> bytes \<Rightarrow> nat \<Rightarrow> nat option option" where
  "strstr_from [] needle nl = None"
| "strstr_from (x # hay) needle nl =
     (if x = 0 then Some None
      else do {
        r \<leftarrow> k_strncmp (x # hay) needle nl;
        if r = 0 then Some (Some 0)
        else map_option (map_option Suc) (strstr_from hay needle nl) })"

definition k_strstr :: "bytes \<Rightarrow> bytes \<Rightarrow> nat option option" where
  "k_strstr hay needle = do { nl \<leftarrow> k_strlen needle; strstr_from hay needle nl }"

fun mem_cmp :: "bytes \<Rightarrow> bytes \<Rightarrow> nat \<Rightarrow> int option" where
  "mem_cmp _ _ 0 = Some 0"
| "mem_cmp (a # as) (b # bs) (Suc n) =
     (if a \<noteq> b then Some (uint a - uint b) else mem_cmp as bs n)"
| "mem_cmp _ _ (Suc n) = None"

text \<open>\<open>k_strncpy\<close>: the \<open>n\<close> bytes it stores, then the store into the destination.\<close>

fun strncpy_bytes :: "bytes \<Rightarrow> nat \<Rightarrow> bytes option" where
  "strncpy_bytes _ 0 = Some []"
| "strncpy_bytes [] (Suc n) = None"
| "strncpy_bytes (c # s) (Suc n) =
     (if c = 0 then Some (replicate (Suc n) 0) else map_option (Cons c) (strncpy_bytes s n))"

definition k_strncpy :: "bytes \<Rightarrow> bytes \<Rightarrow> nat \<Rightarrow> bytes option" where
  "k_strncpy dst src n = do { xs \<leftarrow> strncpy_bytes src n; splice dst 0 xs }"

section \<open>Numbers\<close>

definition itoa_digit :: "u64 \<Rightarrow> u8" where
  "itoa_digit d = (if d < 10 then 48 + ucast d else 97 + ucast (d - 10))"

text \<open>The first loop of \<open>k_itoa64\<close> fills \<open>tmp[70]\<close> with the digits, lowest first; the base
  is at least 2 here.\<close>

function itoa_tmp :: "u64 \<Rightarrow> u64 \<Rightarrow> bytes \<Rightarrow> bytes option" where
  "itoa_tmp val base tmp =
     (if val = 0 \<or> base < 2 then Some tmp
      else if length tmp < 70
      then itoa_tmp (val div base) base (tmp @ [itoa_digit (val mod base)])
      else None)"
  by pat_completeness auto
termination
  by (relation "measure (\<lambda>(v, b, t). 70 - length t)") auto

declare itoa_tmp.simps [simp del]

definition k_itoa64 :: "u64 \<Rightarrow> bytes \<Rightarrow> int \<Rightarrow> bytes option" where
  "k_itoa64 val out base =
     (let base = (if base < 2 \<or> base > 36 then 10 else base) in
      if val = 0 then splice out 0 [48, 0]
      else do {
        tmp \<leftarrow> itoa_tmp val (word_of_int base) [];
        splice out 0 (rev tmp @ [0]) })"

text \<open>\<open>k_atoi\<close>; a value outside \<open>int\<close> is a signed overflow.\<close>

definition int_ok :: "int \<Rightarrow> bool" where
  "int_ok x \<longleftrightarrow> - 2147483648 \<le> x \<and> x \<le> 2147483647"

fun atoi_loop :: "bytes \<Rightarrow> int \<Rightarrow> int option" where
  "atoi_loop [] n = None"
| "atoi_loop (c # s) n =
     (if c = 0 \<or> c < 48 \<or> c > 57 then Some n
      else do {
        chk (int_ok (n * 10) \<and> int_ok (n * 10 + (uint c - 48)));
        atoi_loop s (n * 10 + (uint c - 48)) })"

definition k_atoi :: "bytes \<Rightarrow> int option" where
  "k_atoi s = (case s of
      [] \<Rightarrow> None
    | c # s' \<Rightarrow> if c = 45 then map_option uminus (atoi_loop s' 0) else atoi_loop s 0)"

section \<open>Raw memory\<close>

type_synonym memory = "nat \<Rightarrow> u8"

definition store_bytes :: "memory \<Rightarrow> nat \<Rightarrow> bytes \<Rightarrow> memory" where
  "store_bytes m d xs = (\<lambda>a. if d \<le> a \<and> a < d + length xs then xs ! (a - d) else m a)"

definition load_bytes :: "memory \<Rightarrow> nat \<Rightarrow> nat \<Rightarrow> bytes" where
  "load_bytes m s n = map (\<lambda>i. m (s + i)) [0..<n]"

text \<open>The three loops of \<open>memcpy\<close>: single bytes until the destination is aligned, then
  words, then the rest.\<close>

fun copy_fwd :: "memory \<Rightarrow> nat \<Rightarrow> nat \<Rightarrow> nat \<Rightarrow> memory" where
  "copy_fwd m d s 0 = m"
| "copy_fwd m d s (Suc n) = copy_fwd (m(d := m s)) (d + 1) (s + 1) n"

fun copy_words :: "memory \<Rightarrow> nat \<Rightarrow> nat \<Rightarrow> nat \<Rightarrow> memory" where
  "copy_words m d s n =
     (if n \<ge> 4 then copy_words (store_bytes m d (load_bytes m s 4)) (d + 4) (s + 4) (n - 4)
      else copy_fwd m d s n)"

declare copy_words.simps [simp del]

fun memcpy :: "memory \<Rightarrow> nat \<Rightarrow> nat \<Rightarrow> nat \<Rightarrow> memory" where
  "memcpy m d s n =
     (if d mod 4 \<noteq> 0 \<and> n \<noteq> 0 then memcpy (m(d := m s)) (d + 1) (s + 1) (n - 1)
      else copy_words m d s n)"

declare memcpy.simps [simp del]

fun copy_bwd :: "memory \<Rightarrow> nat \<Rightarrow> nat \<Rightarrow> nat \<Rightarrow> memory" where
  "copy_bwd m d s 0 = m"
| "copy_bwd m d s (Suc n) = copy_bwd (m(d + n := m (s + n))) d s n"

definition memmove :: "memory \<Rightarrow> nat \<Rightarrow> nat \<Rightarrow> nat \<Rightarrow> memory" where
  "memmove m d s n =
     (if d = s \<or> n = 0 then m
      else if d < s then copy_fwd m d s n
      else copy_bwd m d s n)"

fun fill_bytes :: "memory \<Rightarrow> nat \<Rightarrow> u8 \<Rightarrow> nat \<Rightarrow> memory" where
  "fill_bytes m d v 0 = m"
| "fill_bytes m d v (Suc n) = fill_bytes (m(d := v)) (d + 1) v n"

definition memset_word :: "u8 \<Rightarrow> u32" where
  "memset_word v = ucast v OR push_bit 8 (ucast v) OR push_bit 16 (ucast v) OR push_bit 24 (ucast v)"

fun fill_words :: "memory \<Rightarrow> nat \<Rightarrow> u8 \<Rightarrow> nat \<Rightarrow> memory" where
  "fill_words m d v n =
     (if n \<ge> 4 then fill_words (store_bytes m d (bytes32 (memset_word v))) (d + 4) v (n - 4)
      else fill_bytes m d v n)"

declare fill_words.simps [simp del]

fun memset_at :: "memory \<Rightarrow> nat \<Rightarrow> u8 \<Rightarrow> nat \<Rightarrow> memory" where
  "memset_at m d v n =
     (if d mod 4 \<noteq> 0 \<and> n \<noteq> 0 then memset_at (m(d := v)) (d + 1) v (n - 1)
      else fill_words m d v n)"

declare memset_at.simps [simp del]

definition memset :: "memory \<Rightarrow> nat \<Rightarrow> int \<Rightarrow> nat \<Rightarrow> memory" where
  "memset m d val n = memset_at m d (word_of_int val) n"

section \<open>Properties of the string functions\<close>

lemma k_strlen_cstr [simp]: "0 \<notin> set s \<Longrightarrow> k_strlen (s @ 0 # r) = Some (length s)"
  by (induction s) auto

lemma k_strlen_SomeD:
  "k_strlen b = Some n \<Longrightarrow> \<exists>s r. b = s @ 0 # r \<and> 0 \<notin> set s \<and> length s = n"
proof (induction b arbitrary: n)
  case (Cons c b)
  show ?case
  proof (cases "c = 0")
    case True
    with Cons.prems show ?thesis by (intro exI [of _ "[]"] exI [of _ b]) auto
  next
    case False
    with Cons.prems obtain k where k: "k_strlen b = Some k" "n = Suc k" by auto
    from Cons.IH [OF k(1)] obtain s r where "b = s @ 0 # r" "0 \<notin> set s" "length s = k" by auto
    with False k(2) show ?thesis by (intro exI [of _ "c # s"] exI [of _ r]) auto
  qed
qed simp

lemma uint_neq: "x \<noteq> y \<Longrightarrow> \<not> uint y < uint x \<Longrightarrow> uint x < uint y" for x y :: "'a::len word"
  by (metis linorder_neqE_linordered_idom uint_eq_iff_word)

lemma k_strcmp_cstr:
  assumes "0 \<notin> set a" and "0 \<notin> set b"
  shows "\<exists>x. k_strcmp (a @ 0 # r) (b @ 0 # q) = Some x \<and>
           (x = 0 \<longleftrightarrow> a = b) \<and> (x < 0 \<longleftrightarrow> ord_class.lexordp a b)"
  using assms
proof (induction a arbitrary: b)
  case Nil
  then show ?case by (cases b) auto
next
  case (Cons x a)
  then show ?case
    by (cases b) (auto simp: word_less_def dest: uint_neq)
qed

lemma k_strcmp_eq [simp]:
  "0 \<notin> set a \<Longrightarrow> 0 \<notin> set b \<Longrightarrow> k_strcmp (a @ 0 # r) (b @ 0 # q) = Some 0 \<longleftrightarrow> a = b"
  using k_strcmp_cstr [of a b r q] by auto

lemma k_strncmp_cstr:
  assumes "0 \<notin> set h" and "0 \<notin> set nd"
  shows "\<exists>x. k_strncmp (h @ 0 # r) (nd @ q) (length nd) = Some x \<and>
           (x = 0 \<longleftrightarrow> take (length nd) h = nd)"
  using assms
proof (induction nd arbitrary: h)
  case (Cons x nd)
  then show ?case by (cases h) auto
qed simp

lemma k_strstr_cstr:
  assumes h: "0 \<notin> set h" and nd: "0 \<notin> set nd"
  shows "k_strstr (h @ 0 # r) (nd @ 0 # q) =
           Some (find (\<lambda>i. take (length nd) (drop i h) = nd) [0..<length h])"
proof -
  have "strstr_from (h @ 0 # r) (nd @ 0 # q) (length nd) =
          Some (find (\<lambda>i. take (length nd) (drop i h) = nd) [0..<length h])"
    using h
  proof (induction h)
    case (Cons x h)
    obtain y where y: "k_strncmp ((x # h) @ 0 # r) (nd @ 0 # q) (length nd) = Some y"
      "y = 0 \<longleftrightarrow> take (length nd) (x # h) = nd"
      using k_strncmp_cstr [OF Cons.prems nd] by blast
    have up: "[0..<Suc (length h)] = 0 # map Suc [0..<length h]"
      by (simp add: map_Suc_upt upt_conv_Cons del: upt_Suc)
    have fm: "find P (map Suc xs) = map_option Suc (find (P \<circ> Suc) xs)" for P xs
      by (induction xs) auto
    show ?case
      using Cons y by (simp add: up fm comp_def del: upt_Suc)
  qed simp
  with nd show ?thesis by (simp add: k_strstr_def)
qed

lemma k_strcpy_cstr:
  "0 \<notin> set s \<Longrightarrow> length s < length d \<Longrightarrow>
    k_strcpy d (s @ 0 # r) = Some (s @ 0 # drop (Suc (length s)) d)"
proof (induction s arbitrary: d)
  case Nil
  then show ?case by (cases d) auto
next
  case (Cons c s)
  then show ?case by (cases d) auto
qed

lemma strncpy_bytes_fits:
  "0 \<notin> set s \<Longrightarrow> length s < n \<Longrightarrow>
    strncpy_bytes (s @ 0 # r) n = Some (s @ replicate (n - length s) 0)"
proof (induction s arbitrary: n)
  case Nil
  then show ?case by (cases n) auto
next
  case (Cons c s)
  then show ?case by (cases n) auto
qed

lemma strncpy_bytes_long:
  "0 \<notin> set s \<Longrightarrow> n \<le> length s \<Longrightarrow> strncpy_bytes (s @ r) n = Some (take n s)"
proof (induction s arbitrary: n)
  case Nil
  then show ?case by simp
next
  case (Cons c s)
  then show ?case by (cases n) auto
qed

lemma strncpy_bytes_total: "n \<le> length s \<Longrightarrow> \<exists>xs. strncpy_bytes s n = Some xs \<and> length xs = n"
  by (induction s n rule: strncpy_bytes.induct) auto

lemma k_strncpy_total:
  assumes "n \<le> length s" and "n \<le> length d"
  shows "\<exists>d'. k_strncpy d s n = Some d' \<and> length d' = length d"
proof -
  obtain xs where "strncpy_bytes s n = Some xs" "length xs = n"
    using strncpy_bytes_total [OF assms(1)] by blast
  then show ?thesis using assms(2) by (simp add: k_strncpy_def)
qed

lemma k_strncpy_cstr:
  assumes "0 \<notin> set s" and "n \<le> length d"
  shows "k_strncpy d (s @ 0 # r) n =
    Some (take n s @ replicate (n - length s) 0 @ drop n d)"
proof (cases "length s < n")
  case True
  with assms show ?thesis
    by (simp add: k_strncpy_def strncpy_bytes_fits splice_def upd_def)
next
  case False
  with assms show ?thesis
    using strncpy_bytes_long [of s n "0 # r"]
    by (simp add: k_strncpy_def splice_def upd_def)
qed

lemma mem_cmp_eq:
  "length a \<ge> n \<Longrightarrow> length b \<ge> n \<Longrightarrow>
    \<exists>x. mem_cmp a b n = Some x \<and> (x = 0 \<longleftrightarrow> take n a = take n b)"
proof (induction a b n rule: mem_cmp.induct)
  case (2 a as b bs n)
  then show ?case by auto
qed auto

section \<open>Properties of the number conversions\<close>

fun digits_value :: "nat \<Rightarrow> nat list \<Rightarrow> nat" where
  "digits_value base [] = 0"
| "digits_value base (d # ds) = d + base * digits_value base ds"

lemma itoa_tmp_ok:
  assumes "2 \<le> base" and "unat val < 2 ^ (70 - length tmp)" and "length tmp \<le> 70"
  shows "\<exists>ds. itoa_tmp val base tmp = Some (tmp @ map (itoa_digit \<circ> of_nat) ds) \<and>
      digits_value (unat base) ds = unat val \<and> (\<forall>d \<in> set ds. d < unat base) \<and> (val = 0 \<longleftrightarrow> ds = []) \<and>
      (ds \<noteq> [] \<longrightarrow> last ds \<noteq> 0)"
  using assms
proof (induction val base tmp rule: itoa_tmp.induct)
  case (1 val base tmp)
  show ?case
  proof (cases "val = 0")
    case True
    then show ?thesis by (intro exI [of _ "[]"]) (simp add: itoa_tmp.simps)
  next
    case False
    have base: "2 \<le> unat base"
      using "1.prems"(1) by (simp add: word_le_nat_alt)
    have len: "length tmp < 70"
      using "1.prems"(2,3) False by (cases "length tmp = 70") (auto simp: unat_eq_0)
    then obtain k where k: "70 - length tmp = Suc k" by (cases "70 - length tmp") auto
    have "unat (val div base) < 2 ^ k"
    proof -
      have "unat val div unat base \<le> unat val div 2"
        using base by (simp add: div_le_mono2)
      also have "\<dots> < 2 ^ k"
        using "1.prems"(2) k by (simp add: less_mult_imp_div_less)
      finally show ?thesis by (simp add: unat_div)
    qed
    then have lt: "unat (val div base) < 2 ^ (70 - length (tmp @ [itoa_digit (val mod base)]))"
      using k by (simp only: length_append_singleton diff_Suc nat.case)
    have c: "\<not> (val = 0 \<or> base < 2)" using False "1.prems"(1) by (simp add: not_less)
    have l': "length (tmp @ [itoa_digit (val mod base)]) \<le> 70" using len by simp
    from "1.IH" [OF c len "1.prems"(1) lt l'] obtain ds where ds:
      "itoa_tmp (val div base) base (tmp @ [itoa_digit (val mod base)]) =
         Some ((tmp @ [itoa_digit (val mod base)]) @ map (itoa_digit \<circ> of_nat) ds)"
      "digits_value (unat base) ds = unat (val div base)" "\<forall>d \<in> set ds. d < unat base"
      "val div base = 0 \<longleftrightarrow> ds = []" "ds \<noteq> [] \<longrightarrow> last ds \<noteq> 0"
      by blast
    have v: "digits_value (unat base) (unat (val mod base) # ds) = unat val"
      by (simp add: ds(2) unat_div unat_mod)
    have "last (unat (val mod base) # ds) \<noteq> 0"
    proof (cases "ds = []")
      case True
      then have "unat (val mod base) = unat val" using v by simp
      with True False show ?thesis by (simp add: unat_eq_0)
    next
      case False
      then show ?thesis using ds(5) by simp
    qed
    moreover have m: "unat (val mod base) < unat base"
      using base by (simp add: unat_mod)
    moreover have "itoa_tmp val base tmp = Some (tmp @ map (itoa_digit \<circ> of_nat) (unat (val mod base) # ds))"
      using ds(1) c len by (subst itoa_tmp.simps) (simp del: de_Morgan_disj)
    ultimately show ?thesis
      using v ds(3) False
      by (intro exI [of _ "unat (val mod base) # ds"]) simp
  qed
qed

lemma digits_value_snoc:
  "digits_value b (ds @ [d]) = digits_value b ds + b ^ length ds * d"
  by (induction ds) (auto simp: algebra_simps)

lemma digits_value_less:
  "\<forall>d \<in> set ds. d < b \<Longrightarrow> digits_value b ds < b ^ length ds"
proof (induction ds rule: rev_induct)
  case (snoc d ds)
  have "b ^ length ds * d + b ^ length ds \<le> b ^ length ds * b"
    using snoc.prems by (metis (no_types, lifting) Suc_leI add.commute in_set_conv_decomp
        mult_Suc_right mult_le_mono2)
  moreover have "digits_value b ds < b ^ length ds"
    using snoc by simp
  ultimately show ?case by (simp add: digits_value_snoc algebra_simps)
qed simp

lemma uint_itoa_digit: "d < 10 \<Longrightarrow> uint (itoa_digit (of_nat d)) = 48 + int d"
proof -
  assume "d < 10"
  then have "d \<in> {0, 1, 2, 3, 4, 5, 6, 7, 8, 9}" by auto
  then show ?thesis by (auto simp: itoa_digit_def)
qed

lemma atoi_loop_digits:
  assumes "\<forall>d \<in> set ds. d < 10" and "0 \<le> n"
    and "int_ok (n * 10 ^ length ds + int (digits_value 10 ds))"
  shows "atoi_loop (map (itoa_digit \<circ> of_nat) (rev ds) @ 0 # r) n =
           Some (n * 10 ^ length ds + int (digits_value 10 ds))"
  using assms
proof (induction ds arbitrary: n rule: rev_induct)
  case (snoc d ds)
  define c where "c = itoa_digit (of_nat d)"
  have c: "uint c = 48 + int d" "d < 10"
    using snoc.prems(1) by (simp_all add: c_def uint_itoa_digit)
  then have guard: "\<not> (c = 0 \<or> c < 48 \<or> c > 57)"
    by (auto simp: word_less_def simp del: uint_eq_iff_word)
  have tot: "(n * 10 + int d) * 10 ^ length ds + int (digits_value 10 ds) =
             n * 10 ^ length (ds @ [d]) + int (digits_value 10 (ds @ [d]))"
    by (simp add: digits_value_snoc algebra_simps)
  have "n * 10 + int d \<le> (n * 10 + int d) * 10 ^ length ds"
    using snoc.prems(2) by (simp add: mult_le_cancel_left1)
  then have ok: "int_ok (n * 10)" "int_ok (n * 10 + int d)"
    using snoc.prems(2,3) unfolding tot [symmetric] by (auto simp: int_ok_def)
  have "atoi_loop (map (itoa_digit \<circ> of_nat) (rev ds) @ 0 # r) (n * 10 + int d) =
      Some ((n * 10 + int d) * 10 ^ length ds + int (digits_value 10 ds))"
    using snoc.prems by (intro snoc.IH) (simp_all add: tot)
  then show ?case
    unfolding tot using guard ok c by (simp add: comp_def flip: c_def)
qed simp

lemma digits_value_ge:
  "ds \<noteq> [] \<Longrightarrow> last ds \<noteq> 0 \<Longrightarrow> b ^ (length ds - 1) \<le> digits_value b ds"
  by (induction ds rule: rev_induct) (auto simp: digits_value_snoc intro: trans_le_add2)

text \<open>C8: a number below \<open>2^31\<close> printed by \<open>k_itoa64\<close> in base 10 is read back by \<open>k_atoi\<close>.\<close>

theorem k_itoa64_k_atoi:
  assumes "v < 2147483648" and "10 < length out"
  shows "\<exists>out'. k_itoa64 v out 10 = Some out' \<and> k_atoi out' = Some (uint v)"
proof (cases "v = 0")
  case True
  then show ?thesis using assms(2)
    by (auto simp: k_itoa64_def k_atoi_def splice_def upd_def int_ok_def)
next
  case False
  have "unat v < 2 ^ 64"
    using unsigned_less [of v, where 'a = nat] by simp
  then have "unat v < 2 ^ (70 - length ([] :: bytes))" by simp
  from itoa_tmp_ok [of 10 v "[]", OF _ this] False
  obtain ds where ds: "itoa_tmp v 10 [] = Some (map (itoa_digit \<circ> of_nat) ds)"
    "digits_value 10 ds = unat v" "\<forall>d \<in> set ds. d < 10" "ds \<noteq> []" "last ds \<noteq> 0"
    by auto
  have v: "unat v < 2147483648" using assms(1) by (simp add: word_less_nat_alt)
  have "uint v < 2147483648" using assms(1) by (simp add: word_less_def)
  then have vi: "int_ok (uint v)"
    unfolding int_ok_def using uint_ge_0 [of v] by linarith
  have "10 ^ (length ds - 1) \<le> unat v"
    using digits_value_ge [OF ds(4,5), of 10] ds(2) by simp
  then have "(10::nat) ^ (length ds - 1) < 10 ^ 10" using v by simp
  then have len: "length ds \<le> 10"
    by (subst (asm) power_strict_increasing_iff) auto
  define w where "w = map (itoa_digit \<circ> of_nat) (rev ds) @ 0 # drop (Suc (length ds)) out"
  have out: "k_itoa64 v out 10 = Some w"
    using False len assms(2) by (simp add: k_itoa64_def ds(1) splice_def upd_def w_def rev_map)
  have "atoi_loop w 0 = Some (0 * 10 ^ length ds + int (digits_value 10 ds))"
    unfolding w_def using ds vi by (intro atoi_loop_digits) auto
  moreover have "uint (hd w) = 48 + int (last ds)"
    using ds(3,4) by (auto simp: w_def hd_append hd_map hd_rev uint_itoa_digit)
  then have "hd w \<noteq> 45" by auto
  moreover obtain c w' where "w = c # w'" by (cases w) (auto simp: w_def)
  ultimately have "k_atoi w = Some (uint v)"
    by (auto simp: k_atoi_def ds(2))
  with out show ?thesis by blast
qed

section \<open>Properties of the memory functions\<close>

lemma store_bytes_Nil [simp]: "store_bytes m d [] = m"
  by (rule ext) (auto simp: store_bytes_def)

lemma load_bytes_Suc: "load_bytes m s (Suc n) = m s # load_bytes m (s + 1) n"
  by (simp add: load_bytes_def upt_conv_Cons map_Suc_upt [symmetric] del: upt_Suc)

lemma length_load_bytes [simp]: "length (load_bytes m s n) = n"
  by (simp add: load_bytes_def)

text \<open>A forward copy is exact unless the destination starts inside the source.\<close>

lemma copy_fwd_eq:
  "d \<le> s \<or> s + n \<le> d \<Longrightarrow> copy_fwd m d s n = store_bytes m d (load_bytes m s n)"
proof (induction m d s n rule: copy_fwd.induct)
  case (2 m d s n)
  then have "copy_fwd (m(d := m s)) (d + 1) (s + 1) n =
      store_bytes (m(d := m s)) (d + 1) (load_bytes (m(d := m s)) (s + 1) n)"
    by (auto simp: fun_upd_def)
  also have "load_bytes (m(d := m s)) (s + 1) n = load_bytes m (s + 1) n"
    using 2(2) by (auto simp: load_bytes_def)
  also have "store_bytes (m(d := m s)) (d + 1) (load_bytes m (s + 1) n) =
      store_bytes m d (load_bytes m s (Suc n))"
    by (rule ext) (auto simp: store_bytes_def load_bytes_def simp del: upt_Suc intro!: arg_cong [of _ _ m])
  finally show ?case by (simp add: fun_upd_def)
qed (simp add: load_bytes_def)

lemma copy_bwd_eq:
  "s \<le> d \<or> d + n \<le> s \<Longrightarrow> copy_bwd m d s n = store_bytes m d (load_bytes m s n)"
proof (induction m d s n rule: copy_bwd.induct)
  case (2 m d s n)
  then have "copy_bwd (m(d + n := m (s + n))) d s n =
      store_bytes (m(d + n := m (s + n))) d (load_bytes (m(d + n := m (s + n))) s n)"
    by (auto simp: fun_upd_def)
  also have "load_bytes (m(d + n := m (s + n))) s n = load_bytes m s n"
    using 2(2) by (auto simp: load_bytes_def)
  also have "store_bytes (m(d + n := m (s + n))) d (load_bytes m s n) =
      store_bytes m d (load_bytes m s (Suc n))"
    by (rule ext) (auto simp: store_bytes_def load_bytes_def nth_append)
  finally show ?case by (simp add: fun_upd_def)
qed (simp add: load_bytes_def)

text \<open>C7: \<open>memmove\<close> copies the source bytes as they were before the call, for every overlap of the
  two ranges.\<close>

theorem memmove_eq: "memmove m d s n = store_bytes m d (load_bytes m s n)"
proof (cases "d = s \<or> n = 0")
  case True
  then show ?thesis by (intro ext) (auto simp: memmove_def store_bytes_def load_bytes_def)
next
  case False
  then show ?thesis by (auto simp: memmove_def copy_fwd_eq copy_bwd_eq)
qed

lemma store_load_split:
  assumes "d \<le> s \<or> s + n \<le> d" and "k \<le> n"
  shows "store_bytes (store_bytes m d (load_bytes m s k)) (d + k)
           (load_bytes (store_bytes m d (load_bytes m s k)) (s + k) (n - k)) =
         store_bytes m d (load_bytes m s n)"
  using assms by (intro ext) (auto simp: store_bytes_def load_bytes_def)

lemma copy_words_eq:
  "d \<le> s \<or> s + n \<le> d \<Longrightarrow> copy_words m d s n = store_bytes m d (load_bytes m s n)"
proof (induction m d s n rule: copy_words.induct)
  case (1 m d s n)
  show ?case
  proof (cases "n \<ge> 4")
    case True
    then have "copy_words m d s n =
        copy_words (store_bytes m d (load_bytes m s 4)) (d + 4) (s + 4) (n - 4)"
      by (subst copy_words.simps) simp
    also have "\<dots> = store_bytes (store_bytes m d (load_bytes m s 4)) (d + 4)
        (load_bytes (store_bytes m d (load_bytes m s 4)) (s + 4) (n - 4))"
      using True 1 by auto
    finally show ?thesis using store_load_split [OF "1.prems" True] by simp
  next
    case False
    then show ?thesis using "1.prems" by (subst copy_words.simps) (simp add: copy_fwd_eq)
  qed
qed

lemma memcpy_eq:
  "d \<le> s \<or> s + n \<le> d \<Longrightarrow> memcpy m d s n = store_bytes m d (load_bytes m s n)"
proof (induction m d s n rule: memcpy.induct)
  case (1 m d s n)
  show ?case
  proof (cases "d mod 4 \<noteq> 0 \<and> n \<noteq> 0")
    case True
    have one: "m(d := m s) = store_bytes m d (load_bytes m s 1)"
      by (auto simp: store_bytes_def load_bytes_def)
    have n: "1 \<le> n" using True by simp
    have "memcpy m d s n = memcpy (m(d := m s)) (d + 1) (s + 1) (n - 1)"
      using True by (subst memcpy.simps) simp
    also have "\<dots> = store_bytes (m(d := m s)) (d + 1) (load_bytes (m(d := m s)) (s + 1) (n - 1))"
      using True 1 by (auto simp: fun_upd_def)
    finally show ?thesis using store_load_split [OF "1.prems" n] by (simp only: one)
  next
    case False
    then show ?thesis using "1.prems" by (subst memcpy.simps) (auto simp: copy_words_eq)
  qed
qed

lemma fill_bytes_eq: "fill_bytes m d v n = store_bytes m d (replicate n v)"
proof (induction m d v n rule: fill_bytes.induct)
  case (2 m d v n)
  have "store_bytes (m(d := v)) (d + 1) (replicate n v) = store_bytes m d (replicate (Suc n) v)"
    by (rule ext) (auto simp: store_bytes_def nth_Cons' simp del: replicate_Suc)
  with 2 show ?case by (simp add: fun_upd_def)
qed simp

lemma bytes32_memset_word: "bytes32 (memset_word v) = replicate 4 v"
proof -
  have "memset_word v = le32 (replicate 4 v)"
    by (simp add: memset_word_def le32_def numeral_eq_Suc)
  then show ?thesis by simp
qed

lemma store_replicate_split:
  "k \<le> n \<Longrightarrow> store_bytes (store_bytes m d (replicate k v)) (d + k) (replicate (n - k) v) =
    store_bytes m d (replicate n v)"
  by (rule ext) (auto simp: store_bytes_def)

lemma fill_words_eq: "fill_words m d v n = store_bytes m d (replicate n v)"
proof (induction m d v n rule: fill_words.induct)
  case (1 m d v n)
  show ?case
  proof (cases "n \<ge> 4")
    case True
    then show ?thesis using 1 store_replicate_split [OF True]
      by (subst fill_words.simps) (simp only: bytes32_memset_word simp_thms if_True)
  next
    case False
    then show ?thesis by (subst fill_words.simps) (simp add: fill_bytes_eq)
  qed
qed

lemma memset_at_eq: "memset_at m d v n = store_bytes m d (replicate n v)"
proof (induction m d v n rule: memset_at.induct)
  case (1 m d v n)
  show ?case
  proof (cases "d mod 4 \<noteq> 0 \<and> n \<noteq> 0")
    case True
    have one: "m(d := v) = store_bytes m d (replicate 1 v)"
      by (rule ext) (auto simp: store_bytes_def)
    have n: "1 \<le> n" using True by simp
    have "memset_at (m(d := v)) (d + 1) v (n - 1) = store_bytes (m(d := v)) (d + 1) (replicate (n - 1) v)"
      using 1 True by (auto simp: fun_upd_def)
    then show ?thesis using True store_replicate_split [OF n]
      by (subst memset_at.simps) (simp only: one simp_thms if_True)
  next
    case False
    then show ?thesis by (subst memset_at.simps) (auto simp: fill_words_eq)
  qed
qed

text \<open>The round trip at a concrete number.\<close>

theorem k_itoa64_k_atoi_witness:
  "\<exists>out'. k_itoa64 1709 (replicate 12 0) 10 = Some out' \<and> k_atoi out' = Some 1709"
  using k_itoa64_k_atoi [of 1709 "replicate 12 0"] by simp

text \<open>The sign of \<open>k_strcmp\<close> on two C strings is their lexicographic order as unsigned bytes,
  and zero means equal.\<close>

theorem k_strcmp_orders:
  assumes "0 \<notin> set a" and "0 \<notin> set b"
  shows "\<exists>x. k_strcmp (a @ 0 # r) (b @ 0 # q) = Some x \<and> (x = 0 \<longleftrightarrow> a = b) \<and>
    (x < 0 \<longleftrightarrow> ord_class.lexordp a b)"
  using k_strcmp_cstr [OF assms] by auto

theorem k_strcmp_orders_witness:
  "\<exists>x. k_strcmp ([97, 98] @ 0 # []) ([97, 99] @ 0 # []) = Some x \<and> x < 0"
  using k_strcmp_orders [of "[97, 98]" "[97, 99]" "[]" "[]"] by auto

end
