(* ===== verification/Cmdline.thy ===== *)
theory Cmdline
  imports Kstring
begin

text \<open>
  \<open>init/cmdline.c\<close>: the kernel command line, a 512-byte copy of what the boot loader
  passed, and the two lookups over its space-separated tokens. A pointer into the copy is
  the rest of the buffer from there.
\<close>

datatype cmdline_action = CMDLINE_ACTION_NONE | CMDLINE_ACTION_VERSION

record cmdline =
  stored :: bytes
  action :: cmdline_action

definition CMDLINE_MAX :: nat where "CMDLINE_MAX = 512"

definition cmdline_boot :: cmdline where
  "cmdline_boot = \<lparr>stored = replicate CMDLINE_MAX 0, action = CMDLINE_ACTION_NONE\<rparr>"

text \<open>The copy loop: stops at the terminator or after \<open>CMDLINE_MAX - 1\<close> bytes.\<close>

fun copy_cmdline :: "bytes \<Rightarrow> nat \<Rightarrow> bytes option" where
  "copy_cmdline [] i = None"
| "copy_cmdline (c # s) i =
     (if c \<noteq> 0 \<and> i < CMDLINE_MAX - 1 then map_option (Cons c) (copy_cmdline s (Suc i))
      else Some [])"

definition version_word :: bytes where
  "version_word = [118, 101, 114, 115, 105, 111, 110, 0]"

definition cmdline_parse :: "bytes option \<Rightarrow> cmdline \<Rightarrow> cmdline option" where
  "cmdline_parse cmdline c =
     (let c = c\<lparr>action := CMDLINE_ACTION_NONE, stored := (stored c)[0 := 0]\<rparr> in
      case cmdline of
        None \<Rightarrow> Some c
      | Some line \<Rightarrow> do {
          xs \<leftarrow> copy_cmdline line 0;
          buf \<leftarrow> splice (stored c) 0 (xs @ [0]);
          hit \<leftarrow> k_strstr buf version_word;
          Some (c\<lparr>stored := buf,
                  action := if hit \<noteq> None then CMDLINE_ACTION_VERSION else CMDLINE_ACTION_NONE\<rparr>) })"

text \<open>\<open>while (P *p) p++\<close>\<close>

fun skip_while :: "(u8 \<Rightarrow> bool) \<Rightarrow> bytes \<Rightarrow> bytes option" where
  "skip_while P [] = None"
| "skip_while P (c # s) = (if P c then skip_while P s else Some (c # s))"

definition deref :: "bytes \<Rightarrow> u8 option" where
  "deref p = (case p of [] \<Rightarrow> None | c # _ \<Rightarrow> Some c)"

definition tok_matches :: "bytes \<Rightarrow> bytes \<Rightarrow> bytes \<Rightarrow> nat \<Rightarrow> bool option" where
  "tok_matches tok p name nlen =
     (if length tok - length p = nlen
      then map_option (\<lambda>r. r = 0) (k_strncmp tok name nlen) else Some False)"

lemma skip_while_length: "skip_while P p = Some q \<Longrightarrow> length q \<le> length p"
  by (induction p) (auto split: if_splits)

lemma skip_while_Cons: "skip_while P (c # s) = Some q \<Longrightarrow> P c \<Longrightarrow> length q < Suc (length s)"
  using skip_while_length [of P s q] by auto

lemma skip_while_SomeD:
  "skip_while P p = Some q \<Longrightarrow> \<exists>c s. q = c # s \<and> \<not> P c"
  by (induction p) (auto split: if_splits)

function flag_loop :: "bytes \<Rightarrow> bytes \<Rightarrow> nat \<Rightarrow> bool option" where
  "flag_loop p name nlen = do {
     c \<leftarrow> deref p;
     if c = 0 then Some False else do {
       tok \<leftarrow> skip_while (\<lambda>c. c = 32) p;
       c \<leftarrow> deref tok;
       if c = 0 then Some False else do {
         p' \<leftarrow> skip_while (\<lambda>c. c \<noteq> 0 \<and> c \<noteq> 32 \<and> c \<noteq> 61) tok;
         m \<leftarrow> tok_matches tok p' name nlen;
         if m then Some True else do {
           p'' \<leftarrow> skip_while (\<lambda>c. c \<noteq> 0 \<and> c \<noteq> 32) p';
           flag_loop p'' name nlen }}}}"
  by pat_completeness auto
termination
proof (relation "measure (\<lambda>(p, _, _). length p)", goal_cases)
  case (2 p name nlen c tok c' p' m p'')
  then obtain s where tok: "tok = c' # s" "c' \<noteq> 0"
    by (cases tok) (auto simp: deref_def)
  have "c' \<noteq> 32" using skip_while_SomeD [OF 2(3)] tok by auto
  have "length p'' < length tok"
  proof (cases "c' = 61")
    case True
    then have "p' = tok" using 2(6) tok by simp
    then show ?thesis using 2(9) tok \<open>c' \<noteq> 32\<close> by (auto dest: skip_while_length)
  next
    case False
    then have "length p' < length tok"
      using 2(6) tok \<open>c' \<noteq> 32\<close> by (auto dest: skip_while_length)
    then show ?thesis using skip_while_length [OF 2(9)] by simp
  qed
  then show ?case using skip_while_length [OF 2(3)] by simp
qed auto

definition cmdline_flag :: "bytes \<Rightarrow> cmdline \<Rightarrow> bool option" where
  "cmdline_flag name c = do { nlen \<leftarrow> k_strlen name; flag_loop (stored c) name nlen }"

text \<open>\<open>cmdline_value\<close>: \<open>Some None\<close> is \<open>NULL\<close>, \<open>Some (Some v)\<close> a pointer, either into the
  copy behind the \<open>=\<close> or to the empty string.\<close>

function value_loop :: "bytes \<Rightarrow> bytes \<Rightarrow> nat \<Rightarrow> bytes option option" where
  "value_loop p key klen = do {
     c \<leftarrow> deref p;
     if c = 0 then Some None else do {
       tok \<leftarrow> skip_while (\<lambda>c. c = 32) p;
       c \<leftarrow> deref tok;
       if c = 0 then Some None else do {
         p' \<leftarrow> skip_while (\<lambda>c. c \<noteq> 0 \<and> c \<noteq> 32 \<and> c \<noteq> 61) tok;
         m \<leftarrow> tok_matches tok p' key klen;
         c \<leftarrow> deref p';
         if c = 61 then do {
           let val = tl p';
           p'' \<leftarrow> skip_while (\<lambda>c. c \<noteq> 0 \<and> c \<noteq> 32) val;
           if m then Some (Some val) else value_loop p'' key klen }
         else if m then Some (Some [0])
         else value_loop p' key klen }}}"
  by pat_completeness auto
termination
proof (relation "measure (\<lambda>(p, _, _). length p)", goal_cases)
  case (2 p key klen c tok c' p' m c'' val p'')
  then have "length val < length p'" by (cases p') (auto simp: deref_def)
  moreover have "length p' \<le> length p"
    using skip_while_length [OF 2(3)] skip_while_length [OF 2(6)] by simp
  ultimately show ?case using skip_while_length [OF 2(11)] by simp
next
  case (3 p key klen c tok c' p' m c'')
  then obtain s where tok: "tok = c' # s" "c' \<noteq> 0"
    by (cases tok) (auto simp: deref_def)
  have "c' \<noteq> 32" using skip_while_SomeD [OF 3(3)] tok by auto
  moreover have "c' \<noteq> 61"
  proof
    assume "c' = 61"
    then have "p' = tok" using 3(6) tok by simp
    with tok 3 \<open>c' = 61\<close> show False by (simp add: deref_def)
  qed
  ultimately have "length p' < length tok"
    using 3(6) tok by (auto dest: skip_while_length)
  then show ?case using skip_while_length [OF 3(3)] by simp
qed auto

definition cmdline_value :: "bytes \<Rightarrow> cmdline \<Rightarrow> bytes option option" where
  "cmdline_value key c = do { klen \<leftarrow> k_strlen key; value_loop (stored c) key klen }"

declare flag_loop.simps [simp del] value_loop.simps [simp del]

section \<open>The tokens of a command line\<close>

text \<open>The reference the two lookups are proved against: split at spaces, drop the empty
  pieces; the key of a token ends at its first \<open>=\<close>, its value starts behind it.\<close>

function tokens :: "bytes \<Rightarrow> bytes list" where
  "tokens s = (let t = dropWhile (\<lambda>c. c = 32) s in
     if t = [] then []
     else takeWhile (\<lambda>c. c \<noteq> 32) t # tokens (dropWhile (\<lambda>c. c \<noteq> 32) t))"
  by pat_completeness auto
termination
proof (relation "measure length", goal_cases)
  case (2 s t)
  then have "hd t \<noteq> 32" using hd_dropWhile by blast
  with 2(2) obtain c u where t: "t = c # u" "c \<noteq> 32" by (metis list.exhaust_sel)
  then have "length (dropWhile (\<lambda>c. c \<noteq> 32) t) < length t"
    using length_dropWhile_le [of "\<lambda>c. c \<noteq> 32" u] by simp
  also have "length t \<le> length s"
    unfolding 2(1) by (rule length_dropWhile_le)
  finally show ?case by simp
qed simp

declare tokens.simps [simp del]

definition tok_key :: "bytes \<Rightarrow> bytes" where
  "tok_key t = takeWhile (\<lambda>c. c \<noteq> 61) t"

definition tok_value :: "bytes \<Rightarrow> bytes" where
  "tok_value t = drop 1 (dropWhile (\<lambda>c. c \<noteq> 61) t)"

lemma skip_while_cstr:
  "\<not> P 0 \<Longrightarrow> skip_while P (s @ 0 # r) = Some (dropWhile P s @ 0 # r)"
  by (induction s) auto

lemma deref_Cons [simp]: "deref (c # s) = Some c"
  by (simp add: deref_def)

lemma deref_cstr: "deref (s @ 0 # r) = Some (if s = [] then 0 else hd s)"
  by (cases s) (auto simp: deref_def)

lemma takeWhile_conj:
  "takeWhile P (takeWhile Q xs) = takeWhile (\<lambda>x. P x \<and> Q x) xs"
  by (induction xs) auto

lemma dropWhile_weaker:
  "(\<And>x. x \<in> set xs \<Longrightarrow> P x \<Longrightarrow> Q x) \<Longrightarrow> dropWhile Q (dropWhile P xs) = dropWhile Q xs"
  by (induction xs) auto

lemma tok_matches_cstr:
  assumes "0 \<notin> set t" and "0 \<notin> set name"
  shows "tok_matches (t @ 0 # r) (dropWhile P t @ 0 # r) (name @ 0 # q) (length name) =
           Some (takeWhile P t = name)"
proof -
  have len: "length (t @ 0 # r) - length (dropWhile P t @ 0 # r) = length (takeWhile P t)"
    using arg_cong [OF takeWhile_dropWhile_id [of P t], of length]
    by (simp only: length_append list.size)
  obtain x where x: "k_strncmp (t @ 0 # r) (name @ 0 # q) (length name) = Some x"
    "x = 0 \<longleftrightarrow> take (length name) t = name"
    using k_strncmp_cstr [OF assms] by blast
  have "take (length name) t = takeWhile P t" if "length (takeWhile P t) = length name"
    using that by (metis takeWhile_eq_take take_all_iff order_refl length_take min.cobounded2 takeWhile_eq_take)
  then show ?thesis unfolding tok_matches_def len using x by auto
qed

text \<open>The three scans of one token agree with cutting it out of the line.\<close>

lemma tokens_step:
  assumes "0 \<notin> set s" and t: "t = dropWhile (\<lambda>c. c = 32) s" and "t \<noteq> []"
  shows "0 \<notin> set t" and "hd t \<noteq> 32" and "hd t \<noteq> 0"
    and "tokens s = takeWhile (\<lambda>c. c \<noteq> 32) t # tokens (dropWhile (\<lambda>c. c \<noteq> 32) t)"
    and "takeWhile (\<lambda>c. c \<noteq> 0 \<and> c \<noteq> 32 \<and> c \<noteq> 61) t = tok_key (takeWhile (\<lambda>c. c \<noteq> 32) t)"
    and "dropWhile (\<lambda>c. c \<noteq> 0 \<and> c \<noteq> 32) (dropWhile (\<lambda>c. c \<noteq> 0 \<and> c \<noteq> 32 \<and> c \<noteq> 61) t) =
         dropWhile (\<lambda>c. c \<noteq> 32) t"
proof -
  show t0: "0 \<notin> set t" using assms(1) t by (auto dest: set_dropWhileD)
  show "hd t \<noteq> 32" using assms(3) t hd_dropWhile by blast
  show "hd t \<noteq> 0" using t0 assms(3) by (metis hd_in_set)
  show "tokens s = takeWhile (\<lambda>c. c \<noteq> 32) t # tokens (dropWhile (\<lambda>c. c \<noteq> 32) t)"
    using assms(3) unfolding t by (subst tokens.simps) (simp add: Let_def)
  show "takeWhile (\<lambda>c. c \<noteq> 0 \<and> c \<noteq> 32 \<and> c \<noteq> 61) t = tok_key (takeWhile (\<lambda>c. c \<noteq> 32) t)"
    unfolding tok_key_def takeWhile_conj using t0 by (intro takeWhile_cong) auto
  have "dropWhile (\<lambda>c. c \<noteq> 0 \<and> c \<noteq> 32) (dropWhile (\<lambda>c. c \<noteq> 0 \<and> c \<noteq> 32 \<and> c \<noteq> 61) t) =
        dropWhile (\<lambda>c. c \<noteq> 0 \<and> c \<noteq> 32) t"
    by (rule dropWhile_weaker) simp
  also have "\<dots> = dropWhile (\<lambda>c. c \<noteq> 32) t"
    using t0 by (intro dropWhile_cong) auto
  finally show "dropWhile (\<lambda>c. c \<noteq> 0 \<and> c \<noteq> 32)
      (dropWhile (\<lambda>c. c \<noteq> 0 \<and> c \<noteq> 32 \<and> c \<noteq> 61) t) = dropWhile (\<lambda>c. c \<noteq> 32) t" .
qed

lemma tokens_empty: "dropWhile (\<lambda>c. c = 32) s = [] \<Longrightarrow> tokens s = []"
  by (subst tokens.simps) (simp add: Let_def)

lemma flag_loop_cstr:
  assumes "0 \<notin> set s" and "0 \<notin> set name"
  shows "flag_loop (s @ 0 # r) (name @ 0 # q) (length name) =
           Some (\<exists>t \<in> set (tokens s). tok_key t = name)"
  using assms(1)
proof (induction s rule: tokens.induct)
  case (1 s)
  define t where "t = dropWhile (\<lambda>c. c = 32) s"
  show ?case
  proof (cases "t = []")
    case True
    then show ?thesis
      by (subst flag_loop.simps)
        (auto simp: deref_cstr skip_while_cstr tokens_empty simp flip: t_def)
  next
    case False
    note st = tokens_step [OF "1.prems" t_def False]
    have "s \<noteq> []" using False by (auto simp: t_def)
    then have s0: "hd s \<noteq> 0" using "1.prems" by (metis hd_in_set)
    have "0 \<notin> set (dropWhile (\<lambda>c. c \<noteq> 32) t)" using st(1) by (auto dest: set_dropWhileD)
    then have IH: "flag_loop (dropWhile (\<lambda>c. c \<noteq> 32) t @ 0 # r) (name @ 0 # q) (length name) =
        Some (\<exists>t \<in> set (tokens (dropWhile (\<lambda>c. c \<noteq> 32) t)). tok_key t = name)"
      using "1.IH" [OF t_def False] by simp
    show ?thesis
      using \<open>s \<noteq> []\<close> s0 False
      by (subst flag_loop.simps)
        (simp add: deref_cstr skip_while_cstr tok_matches_cstr [OF st(1) assms(2)] st(2-6) IH
          flip: t_def)
  qed
qed

lemma value_token:
  assumes "0 \<notin> set t"
  shows "dropWhile (\<lambda>c. c \<noteq> 0 \<and> c \<noteq> 32 \<and> c \<noteq> 61) t = 61 # v \<Longrightarrow>
           tok_value (takeWhile (\<lambda>c. c \<noteq> 32) t) = takeWhile (\<lambda>c. c \<noteq> 0 \<and> c \<noteq> 32) (v @ 0 # r) \<and>
           dropWhile (\<lambda>c. c \<noteq> 0 \<and> c \<noteq> 32) v = dropWhile (\<lambda>c. c \<noteq> 32) t"
    and "dropWhile (\<lambda>c. c \<noteq> 0 \<and> c \<noteq> 32 \<and> c \<noteq> 61) t = p \<Longrightarrow> p = [] \<or> hd p \<noteq> 61 \<Longrightarrow>
           tok_value (takeWhile (\<lambda>c. c \<noteq> 32) t) = [] \<and> p = dropWhile (\<lambda>c. c \<noteq> 32) t"
  using assms
proof (induction t arbitrary: p)
  case (Cons c t)
  {
    case 1
    show ?case
    proof (cases "c = 61")
      case True
      have "takeWhile (\<lambda>c. c \<noteq> 32) v = takeWhile (\<lambda>c. c \<noteq> 0 \<and> c \<noteq> 32) (v @ 0 # r)"
        "dropWhile (\<lambda>c. c \<noteq> 0 \<and> c \<noteq> 32) v = dropWhile (\<lambda>c. c \<noteq> 32) v" if "0 \<notin> set v" for v
        using that by (induction v) auto
      with True 1 show ?thesis by (auto simp: tok_value_def)
    next
      case False
      with 1 Cons.IH(1) show ?thesis by (auto simp: tok_value_def split: if_splits)
    qed
  next
    case 2
    then show ?case using Cons.IH(2) [of p] by (auto simp: tok_value_def split: if_splits)
  }
qed (auto simp: tok_value_def)

lemma value_loop_cstr:
  assumes "0 \<notin> set s" and "0 \<notin> set key"
  shows "\<exists>v. value_loop (s @ 0 # r) (key @ 0 # q) (length key) = Some v \<and>
           map_option (takeWhile (\<lambda>c. c \<noteq> 0 \<and> c \<noteq> 32)) v =
           map_option tok_value (find (\<lambda>t. tok_key t = key) (tokens s))"
  using assms(1)
proof (induction s rule: tokens.induct)
  case (1 s)
  define t where "t = dropWhile (\<lambda>c. c = 32) s"
  show ?case
  proof (cases "t = []")
    case True
    then show ?thesis
      by (subst value_loop.simps)
        (auto simp: deref_cstr skip_while_cstr tokens_empty simp flip: t_def)
  next
    case False
    note st = tokens_step [OF "1.prems" t_def False]
    define p where "p = dropWhile (\<lambda>c. c \<noteq> 0 \<and> c \<noteq> 32 \<and> c \<noteq> 61) t"
    have "s \<noteq> []" using False by (auto simp: t_def)
    then have s0: "hd s \<noteq> 0" using "1.prems" by (metis hd_in_set)
    have "0 \<notin> set (dropWhile (\<lambda>c. c \<noteq> 32) t)" using st(1) by (auto dest: set_dropWhileD)
    note IH = "1.IH" [OF t_def False this]
    have tm: "tok_matches (t @ 0 # r) (p @ 0 # r) (key @ 0 # q) (length key) =
        Some (tok_key (takeWhile (\<lambda>c. c \<noteq> 32) t) = key)"
      unfolding p_def by (simp add: tok_matches_cstr [OF st(1) assms(2)] st(5))
    note step = deref_cstr skip_while_cstr st(2-4)
    show ?thesis
    proof (cases "p \<noteq> [] \<and> hd p = 61")
      case True
      then obtain v where v: "p = 61 # v" by (cases p) auto
      from value_token(1) [OF st(1), of v r] v
      have tv: "tok_value (takeWhile (\<lambda>c. c \<noteq> 32) t) = takeWhile (\<lambda>c. c \<noteq> 0 \<and> c \<noteq> 32) (v @ 0 # r)"
        "dropWhile (\<lambda>c. c \<noteq> 0 \<and> c \<noteq> 32) v = dropWhile (\<lambda>c. c \<noteq> 32) t"
        by (simp_all flip: p_def)
      show ?thesis
        using \<open>s \<noteq> []\<close> s0 False IH
        by (subst value_loop.simps) (auto simp: step v tv tm [unfolded v, simplified] simp flip: t_def p_def)
    next
      case no_eq: False
      with value_token(2) [OF st(1), of p]
      have tv: "tok_value (takeWhile (\<lambda>c. c \<noteq> 32) t) = []" "p = dropWhile (\<lambda>c. c \<noteq> 32) t"
        by (auto simp flip: p_def)
      show ?thesis
        using \<open>s \<noteq> []\<close> s0 False IH no_eq tv(1)
        by (subst value_loop.simps) (auto simp: step tm simp flip: t_def p_def tv(2))
    qed
  qed
qed

section \<open>Parsing, then looking up\<close>

lemma copy_cmdline_cstr:
  "0 \<notin> set l \<Longrightarrow> i \<le> 511 \<Longrightarrow> copy_cmdline (l @ 0 # r) i = Some (take (511 - i) l)"
proof (induction l arbitrary: i)
  case (Cons c l)
  show ?case
  proof (cases "i < 511")
    case True
    then have "511 - i = Suc (511 - Suc i)" by simp
    then show ?thesis using True Cons by (simp add: CMDLINE_MAX_def)
  qed (use Cons in \<open>simp add: CMDLINE_MAX_def\<close>)
qed (simp add: CMDLINE_MAX_def)

lemma version_word_cstr: "version_word = butlast version_word @ 0 # []" "0 \<notin> set (butlast version_word)"
  "length (butlast version_word) = 7"
  by (simp_all add: version_word_def)

lemma cmdline_parse_cstr:
  assumes "0 \<notin> set l" and "length (stored c) = CMDLINE_MAX"
  shows "\<exists>c' r'. cmdline_parse (Some (l @ 0 # r)) c = Some c' \<and>
           stored c' = take 511 l @ 0 # r' \<and> length (stored c') = CMDLINE_MAX \<and>
           (action c' = CMDLINE_ACTION_VERSION \<longleftrightarrow>
             (\<exists>i < length (take 511 l). take 7 (drop i (take 511 l)) = butlast version_word))"
proof -
  define xs where "xs = take 511 l"
  define r' where "r' = drop (Suc (length xs)) ((stored c)[0 := 0])"
  have xs: "0 \<notin> set xs" "length xs < 512"
    using assms(1) by (auto simp: xs_def dest: in_set_takeD)
  have sp: "splice ((stored c)[0 := 0]) 0 (xs @ [0]) = Some (xs @ 0 # r')"
    using xs(2) assms(2) by (simp add: splice_def upd_def r'_def CMDLINE_MAX_def)
  have len: "length (xs @ 0 # r') = CMDLINE_MAX"
    using xs(2) assms(2) by (simp add: r'_def CMDLINE_MAX_def)
  have hit: "k_strstr (xs @ 0 # r') version_word =
      Some (find (\<lambda>i. take 7 (drop i xs) = butlast version_word) [0..<length xs])"
    using k_strstr_cstr [OF xs(1) version_word_cstr(2), of r' "[]"]
    unfolding version_word_cstr(1) [symmetric] version_word_cstr(3) .
  have f: "find P xs \<noteq> None \<longleftrightarrow> (\<exists>x \<in> set xs. P x)" for P and xs :: "nat list"
    by (auto simp: find_None_iff)
  show ?thesis
    using assms(1) sp hit len f [of "\<lambda>i. take 7 (drop i xs) = butlast version_word" "[0..<length xs]"]
    by (auto simp: cmdline_parse_def Let_def copy_cmdline_cstr simp flip: xs_def)
qed

text \<open>C11: a boot flag is found exactly when a token of the (truncated) command line has that
  key, whatever the line, and the value lookup returns the first such token's value.\<close>

theorem cmdline_flag_after_parse:
  assumes "0 \<notin> set l" and "0 \<notin> set name" and "length (stored c) = CMDLINE_MAX"
  shows "\<exists>c'. cmdline_parse (Some (l @ 0 # r)) c = Some c' \<and>
           cmdline_flag (name @ 0 # q) c' = Some (\<exists>t \<in> set (tokens (take 511 l)). tok_key t = name) \<and>
           (\<exists>v. cmdline_value (name @ 0 # q) c' = Some v \<and>
             map_option (takeWhile (\<lambda>c. c \<noteq> 0 \<and> c \<noteq> 32)) v =
             map_option tok_value (find (\<lambda>t. tok_key t = name) (tokens (take 511 l))))"
proof -
  obtain c' r' where c': "cmdline_parse (Some (l @ 0 # r)) c = Some c'"
    "stored c' = take 511 l @ 0 # r'"
    using cmdline_parse_cstr [OF assms(1,3)] by blast
  have l0: "0 \<notin> set (take 511 l)" using assms(1) by (auto dest: in_set_takeD)
  from c' flag_loop_cstr [OF l0 assms(2), of r' q] value_loop_cstr [OF l0 assms(2), of r' q] assms(2)
  show ?thesis by (simp add: cmdline_flag_def cmdline_value_def)
qed

theorem cmdline_flag_after_parse_witness:
  "\<exists>c'. cmdline_parse (Some ([113, 32, 100, 61, 49] @ 0 # [])) cmdline_boot = Some c' \<and>
    cmdline_flag ([100] @ 0 # []) c' = Some (\<exists>t \<in> set (tokens (take 511 [113, 32, 100, 61, 49])). tok_key t = [100])"
  using cmdline_flag_after_parse [of "[113, 32, 100, 61, 49]" "[100]" cmdline_boot "[]" "[]"]
  by (auto simp: cmdline_boot_def CMDLINE_MAX_def)

end
