(* ===== verification/Blkdev.thy ===== *)
theory Blkdev
  imports Kstring
begin

text \<open>
  The block-device registry of \<open>drivers/block/blkdev.c\<close>. A driver's entry points are function
  pointers: an absent pointer is \<open>None\<close>, and a present one is a function of the hardware state
  \<open>'d\<close>. A read returns its code, the bytes it stored at the start of the caller's buffer, and the
  new hardware state.
\<close>

section \<open>Definitions\<close>

definition BLKDEV_MAX :: nat where "BLKDEV_MAX = 4"
definition BLKDEV_NAME_LEN :: nat where "BLKDEV_NAME_LEN = 24"

record 'd blk_device =
  bd_name :: bytes
  bd_sectors :: u64
  bd_sector_size :: u32
  bd_present :: bool
  bd_writable :: bool
  bd_read_sectors :: "(u64 \<Rightarrow> u32 \<Rightarrow> 'd \<Rightarrow> int \<times> bytes \<times> 'd) option"
  bd_write_sectors :: "(u64 \<Rightarrow> u32 \<Rightarrow> bytes \<Rightarrow> 'd \<Rightarrow> int \<times> 'd) option"

record 'd blkdev =
  devs :: "'d blk_device list"
  ndevs :: nat

definition zero_device :: "'d blk_device" where
  "zero_device = \<lparr>bd_name = replicate BLKDEV_NAME_LEN 0, bd_sectors = 0, bd_sector_size = 0,
     bd_present = False, bd_writable = False, bd_read_sectors = None, bd_write_sectors = None\<rparr>"

definition blkdev_init :: "'d blkdev" where
  "blkdev_init = \<lparr>devs = replicate BLKDEV_MAX zero_device, ndevs = 0\<rparr>"

definition blk_register :: "'d blk_device option \<Rightarrow> 'd blkdev \<Rightarrow> (bool \<times> 'd blkdev) option" where
  "blk_register dev r = (case dev of
     None \<Rightarrow> Some (False, r)
   | Some d \<Rightarrow>
       if \<not> bd_present d \<or> bd_read_sectors d = None then Some (False, r)
       else if ndevs r \<ge> BLKDEV_MAX \<or> bd_sector_size d = 0 then Some (False, r)
       else do {
         name \<leftarrow> k_strncpy (bd_name d) (bd_name d) (BLKDEV_NAME_LEN - 1);
         Some (True, r\<lparr>devs := (devs r)[ndevs r := d\<lparr>bd_name := name\<rparr>], ndevs := ndevs r + 1\<rparr>) })"

definition blk_count :: "'d blkdev \<Rightarrow> int" where
  "blk_count r = int (ndevs r)"

definition blk_get :: "int \<Rightarrow> 'd blkdev \<Rightarrow> 'd blk_device option" where
  "blk_get idx r = (if idx < 0 \<or> idx \<ge> int (ndevs r) then None else Some (devs r ! nat idx))"

definition blk_first :: "'d blkdev \<Rightarrow> 'd blk_device option" where
  "blk_first r = (if ndevs r \<noteq> 0 then Some (devs r ! 0) else None)"

definition blk_read ::
  "'d blk_device option \<Rightarrow> u64 \<Rightarrow> u32 \<Rightarrow> bytes option \<Rightarrow> 'd \<Rightarrow> (int \<times> bytes option \<times> 'd) option" where
  "blk_read dev lba count buf hw = (case (dev, buf) of
     (Some d, Some b) \<Rightarrow>
       if count = 0 then Some (- 1, buf, hw)
       else if lba + ucast count > bd_sectors d \<and> bd_sectors d \<noteq> 0 then Some (- 1, buf, hw)
       else do {
         f \<leftarrow> bd_read_sectors d;
         let (rc, data, hw) = f lba count hw;
         b \<leftarrow> splice b 0 data;
         Some (rc, Some b, hw) }
   | _ \<Rightarrow> Some (- 1, buf, hw))"

definition blk_write ::
  "'d blk_device option \<Rightarrow> u64 \<Rightarrow> u32 \<Rightarrow> bytes option \<Rightarrow> 'd \<Rightarrow> int \<times> 'd" where
  "blk_write dev lba count buf hw = (case (dev, buf) of
     (Some d, Some b) \<Rightarrow>
       (case bd_write_sectors d of
          None \<Rightarrow> (- 1, hw)
        | Some f \<Rightarrow>
            if count = 0 \<or> \<not> bd_writable d then (- 1, hw)
            else if lba + ucast count > bd_sectors d \<and> bd_sectors d \<noteq> 0 then (- 1, hw)
            else f lba count b hw)
   | _ \<Rightarrow> (- 1, hw))"

section \<open>The registry\<close>

definition registry_ok :: "'d blkdev \<Rightarrow> bool" where
  "registry_ok r \<longleftrightarrow> length (devs r) = BLKDEV_MAX \<and> ndevs r \<le> BLKDEV_MAX \<and>
     (\<forall>i < ndevs r. bd_read_sectors (devs r ! i) \<noteq> None \<and> bd_present (devs r ! i) \<and>
        bd_sector_size (devs r ! i) \<noteq> 0)"

lemma registry_ok_init: "registry_ok blkdev_init"
  by (simp add: registry_ok_def blkdev_init_def)

lemma blk_register_cases:
  assumes "length (bd_name d) = BLKDEV_NAME_LEN"
  obtains "blk_register (Some d) r = Some (False, r)"
      "\<not> bd_present d \<or> bd_read_sectors d = None \<or> ndevs r \<ge> BLKDEV_MAX \<or> bd_sector_size d = 0"
  | name where "blk_register (Some d) r =
        Some (True, r\<lparr>devs := (devs r)[ndevs r := d\<lparr>bd_name := name\<rparr>], ndevs := ndevs r + 1\<rparr>)"
      "bd_present d" "bd_read_sectors d \<noteq> None" "ndevs r < BLKDEV_MAX" "bd_sector_size d \<noteq> 0"
      "k_strncpy (bd_name d) (bd_name d) (BLKDEV_NAME_LEN - 1) = Some name"
proof (cases "\<not> bd_present d \<or> bd_read_sectors d = None \<or> ndevs r \<ge> BLKDEV_MAX \<or> bd_sector_size d = 0")
  case True
  then show ?thesis by (intro that(1)) (auto simp: blk_register_def)
next
  case False
  obtain name where "k_strncpy (bd_name d) (bd_name d) (BLKDEV_NAME_LEN - 1) = Some name"
    using k_strncpy_total [of "BLKDEV_NAME_LEN - 1" "bd_name d" "bd_name d"] assms by auto
  with False show ?thesis by (intro that(2) [of name]) (auto simp: blk_register_def)
qed

lemma unat_lba_end:
  fixes lba :: u64 and count :: u32
  shows "unat (lba + ucast count) = (unat lba + unat count) mod 2 ^ 64"
  by (simp add: unat_word_ariths)

section \<open>Properties\<close>





text \<open>the end of the transfer is computed modulo \<open>2^64\<close>, so a request at the last sector number
  passes the range check of every device and reaches its driver.\<close>

theorem blk_read_wraps:
  assumes "bd_sectors d \<noteq> 0" and "bd_read_sectors d = Some f" and "f (- 1) 2 hw = (rc, data, hw')"
    and "length data \<le> length b"
  shows "blk_read (Some d) (- 1) 2 (Some b) hw = Some (rc, Some (upd b 0 data), hw')"
proof -
  have "\<not> bd_sectors d < 1" using assms(1) by (simp add: word_less_nat_alt unat_eq_0)
  then show ?thesis using assms by (simp add: blk_read_def)
qed

theorem blk_read_wraps_witness:
  "blk_read (Some (zero_device\<lparr>bd_sectors := 8, bd_read_sectors := Some (\<lambda>_ _ hw. (0, [9], hw))\<rparr>))
     (- 1) 2 (Some [1, 2]) () = Some (0, Some (upd [1, 2] 0 [9]), ())"
  using blk_read_wraps [of "zero_device\<lparr>bd_sectors := 8, bd_read_sectors := Some (\<lambda>_ _ hw. (0, [9], hw))\<rparr>"
      "\<lambda>_ _ hw. (0, [9], hw)" "()" 0 "[9]" "()" "[1, 2]"] by simp

end
