(* ===== verification/Allocator.thy ===== *)
theory Allocator
  imports Kstring
begin

text \<open>
  The interface of a memory allocator, as its clients use it: what they own is a set of blocks,
  each with the size it was asked for. The contents of a block change only by a store into it.
\<close>

locale allocator =
  fixes alloc :: "u32 \<Rightarrow> 'h \<Rightarrow> (nat \<times> 'h) option"
    and release :: "nat \<Rightarrow> 'h \<Rightarrow> 'h option"
    and put :: "nat \<Rightarrow> bytes \<Rightarrow> 'h \<Rightarrow> 'h"
    and get :: "nat \<Rightarrow> nat \<Rightarrow> 'h \<Rightarrow> bytes"
    and owns :: "'h \<Rightarrow> (nat \<times> u32) set \<Rightarrow> bool"
  assumes alloc_law: "owns h L \<Longrightarrow> n \<noteq> 0 \<Longrightarrow> unat n \<le> 2 ^ 32 - 16 \<Longrightarrow>
      \<exists>p h'. alloc n h = Some (p, h') \<and> owns h' (if p = 0 then L else insert (p, n) L) \<and>
        (p \<noteq> 0 \<longrightarrow> p \<notin> fst ` L) \<and> (\<forall>(q, s) \<in> L. get q (unat s) h' = get q (unat s) h)"
    and release_law: "owns h L \<Longrightarrow> (p, n) \<in> L \<Longrightarrow>
      \<exists>h'. release p h = Some h' \<and> owns h' (L - {(p, n)}) \<and>
        (\<forall>(q, s) \<in> L - {(p, n)}. get q (unat s) h' = get q (unat s) h)"
    and put_law: "owns h L \<Longrightarrow> (p, n) \<in> L \<Longrightarrow> length xs \<le> unat n \<Longrightarrow>
      owns (put p xs h) L \<and> get p (length xs) (put p xs h) = xs \<and>
        (\<forall>(q, s) \<in> L - {(p, n)}. get q (unat s) (put p xs h) = get q (unat s) h)"
begin

text \<open>A client that moves to a new block: allocate, fill, give the old block back.\<close>

lemma alloc_put:
  assumes "owns h L" and "n \<noteq> 0" and "unat n \<le> 2 ^ 32 - 16" and "length xs \<le> unat n"
    and "alloc n h = Some (p, h1)" and "p \<noteq> 0"
  shows "owns (put p xs h1) (insert (p, n) L) \<and> p \<notin> fst ` L \<and> get p (length xs) (put p xs h1) = xs \<and>
    (\<forall>(q, s) \<in> L. get q (unat s) (put p xs h1) = get q (unat s) h)"
proof -
  have own: "owns h1 (insert (p, n) L)" and fresh: "p \<notin> fst ` L"
    and keep: "\<forall>(q, s) \<in> L. get q (unat s) h1 = get q (unat s) h"
    using alloc_law [OF assms(1-3)] assms(5,6) by auto
  note put = put_law [OF own _ assms(4), of p, simplified]
  have "get q (unat s) (put p xs h1) = get q (unat s) h" if "(q, s) \<in> L" for q s
  proof -
    have "(q, s) \<in> L - {(p, n)}" using that fresh by force
    then have "get q (unat s) (put p xs h1) = get q (unat s) h1" using put by blast
    then show ?thesis using keep that by auto
  qed
  then show ?thesis using put fresh by auto
qed

lemma alloc_put_release:
  assumes "owns h L" and "n \<noteq> 0" and "unat n \<le> 2 ^ 32 - 16" and "length xs \<le> unat n"
    and "alloc n h = Some (p, h1)" and "p \<noteq> 0" and "(q0, s0) \<in> L"
  shows "\<exists>h2. release q0 (put p xs h1) = Some h2 \<and> owns h2 (insert (p, n) (L - {(q0, s0)})) \<and>
    get p (unat n) h2 = get p (unat n) (put p xs h1) \<and>
    (\<forall>(q, s) \<in> L - {(q0, s0)}. get q (unat s) h2 = get q (unat s) h)"
proof -
  note ap = alloc_put [OF assms(1-6)]
  have ne: "p \<noteq> q0" using ap assms(7) by force
  have own: "owns (put p xs h1) (insert (p, n) L)" and keep: "\<forall>(q, s) \<in> L. get q (unat s) (put p xs h1) = get q (unat s) h"
    using ap by auto
  have "(q0, s0) \<in> insert (p, n) L" using assms(7) by simp
  from release_law [OF own this] obtain h2 where h2: "release q0 (put p xs h1) = Some h2"
    "owns h2 (insert (p, n) L - {(q0, s0)})"
    "\<forall>(q, s) \<in> insert (p, n) L - {(q0, s0)}. get q (unat s) h2 = get q (unat s) (put p xs h1)"
    by blast
  have "insert (p, n) L - {(q0, s0)} = insert (p, n) (L - {(q0, s0)})" using ne by auto
  moreover have "get q (unat s) h2 = get q (unat s) h" if "(q, s) \<in> L - {(q0, s0)}" for q s
    using bspec [OF h2(3), of "(q, s)"] bspec [OF keep, of "(q, s)"] that by auto
  moreover have "get p (unat n) h2 = get p (unat n) (put p xs h1)"
    using bspec [OF h2(3), of "(p, n)"] ne by auto
  ultimately show ?thesis using h2(1,2) by auto
qed

end

end
