(* ===== verification/Heap.thy ===== *)
theory Heap
  imports Allocator
begin

text \<open>
  \<open>mm/heap_c.c\<close>, the C allocator, with the hooks of \<open>security/memguard.c\<close> it calls. The
  heap lives in the flat memory of \<open>Kstring\<close>: a block is a 16-byte header followed by its
  payload, and headers are read from and written to the bytes. Pointers are \<open>nat\<close>
  addresses with 0 for \<open>NULL\<close>; \<open>size_t\<close> has 64 bits, so \<open>need + HDR_SIZE\<close> does not wrap.
  The two walks along the free list are \<open>partial_function\<close>s: on a corrupted, cyclic list
  they would not return.
\<close>

section \<open>State and operations\<close>

record heap_stats =
  total_bytes :: u32
  used_bytes :: u32
  free_bytes :: u32
  high_water :: u32
  alloc_count :: u32
  free_count :: u32
  errors :: u32

record heap =
  hmem :: memory
  hbase :: u32
  hsize :: u32
  free_head :: u32
  st :: heap_stats
  poison_count :: u32
  violation_count :: u32

record block_hdr =
  magic :: u32
  bsize :: u32
  next_off :: u32
  used :: u32

definition HDR_SIZE :: nat where "HDR_SIZE = 16"
definition ALIGN :: u32 where "ALIGN = 16"
definition MAGIC_USED :: u32 where "MAGIC_USED = 0x0B51D1A0"
definition MAGIC_FREE :: u32 where "MAGIC_FREE = 0xF4EEB10C"
definition END_OF_LIST :: u32 where "END_OF_LIST = 0xFFFFFFFF"
definition POISON_BYTE :: u8 where "POISON_BYTE = 0xA5"

definition heap_boot :: heap where
  "heap_boot = \<lparr>hmem = (\<lambda>_. 0), hbase = 0, hsize = 0, free_head = END_OF_LIST,
     st = \<lparr>total_bytes = 0, used_bytes = 0, free_bytes = 0, high_water = 0,
           alloc_count = 0, free_count = 0, errors = 0\<rparr>,
     poison_count = 0, violation_count = 0\<rparr>"

definition align_up :: "u32 \<Rightarrow> u32" where
  "align_up v = (v + ALIGN - 1) AND NOT (ALIGN - 1)"

definition hdr_addr :: "heap \<Rightarrow> u32 \<Rightarrow> nat" where
  "hdr_addr h off = unat (hbase h) + unat off"

definition hdr_at :: "heap \<Rightarrow> u32 \<Rightarrow> block_hdr" where
  "hdr_at h off = (let b = load_bytes (hmem h) (hdr_addr h off) 16 in
     \<lparr>magic = rd32 b 0, bsize = rd32 b 4, next_off = rd32 b 8, used = rd32 b 12\<rparr>)"

definition hdr_bytes :: "block_hdr \<Rightarrow> bytes" where
  "hdr_bytes x = bytes32 (magic x) @ bytes32 (bsize x) @ bytes32 (next_off x) @ bytes32 (used x)"

definition put_hdr :: "heap \<Rightarrow> u32 \<Rightarrow> block_hdr \<Rightarrow> heap" where
  "put_hdr h off x = h\<lparr>hmem := store_bytes (hmem h) (hdr_addr h off) (hdr_bytes x)\<rparr>"

definition heap_init :: "u32 \<Rightarrow> u32 \<Rightarrow> heap \<Rightarrow> bool \<times> heap" where
  "heap_init base size0 h =
     (let h = h\<lparr>hbase := align_up base, hsize := align_up size0, free_head := 0\<rparr>;
          first = \<lparr>magic = MAGIC_FREE, bsize = hsize h - 16, next_off = END_OF_LIST, used = 0\<rparr>;
          h = put_hdr h 0 first
      in (True, h\<lparr>st := (st h)\<lparr>total_bytes := bsize first, free_bytes := bsize first\<rparr>\<rparr>))"

definition memguard_poison_free :: "nat \<Rightarrow> u32 \<Rightarrow> heap \<Rightarrow> heap" where
  "memguard_poison_free ptr n h =
     h\<lparr>hmem := memset_at (hmem h) ptr POISON_BYTE (unat n), poison_count := poison_count h + 1\<rparr>"

definition memguard_check_allocation :: "nat \<Rightarrow> u32 \<Rightarrow> heap \<Rightarrow> bool \<times> heap" where
  "memguard_check_allocation ptr align h =
     (if ptr = 0 then (False, h)
      else if (of_nat ptr :: u64) AND ucast (align - 1) \<noteq> 0
      then (False, h\<lparr>violation_count := violation_count h + 1\<rparr>)
      else if (of_nat ptr :: u32) < 0x100000
      then (False, h\<lparr>violation_count := violation_count h + 1\<rparr>)
      else (True, h))"

text \<open>The first-fit walk: \<open>Some None\<close> at the end of the list, otherwise the previous and the
  chosen block.\<close>

partial_function (option) find_fit ::
  "heap \<Rightarrow> u32 \<Rightarrow> u32 \<Rightarrow> u32 \<Rightarrow> (u32 \<times> u32) option option" where
  "find_fit h need prev cur =
     (if cur = END_OF_LIST then Some None
      else if unat (bsize (hdr_at h cur)) \<ge> unat need + HDR_SIZE then Some (Some (prev, cur))
      else find_fit h need cur (next_off (hdr_at h cur)))"

definition split_block :: "heap \<Rightarrow> u32 \<Rightarrow> u32 \<Rightarrow> heap" where
  "split_block h cur need =
     (let c = hdr_at h cur; new_off = cur + 16 + need;
          h = put_hdr h new_off
                \<lparr>magic = MAGIC_FREE, bsize = bsize c - need - 16, next_off = next_off c, used = 0\<rparr>
      in put_hdr h cur ((hdr_at h cur)\<lparr>bsize := need, next_off := new_off\<rparr>))"

definition link_from :: "heap \<Rightarrow> u32 \<Rightarrow> u32 \<Rightarrow> heap" where
  "link_from h prev off =
     (if prev = END_OF_LIST then h\<lparr>free_head := off\<rparr>
      else put_hdr h prev ((hdr_at h prev)\<lparr>next_off := off\<rparr>))"

definition claim_block :: "heap \<Rightarrow> u32 \<Rightarrow> u32 \<Rightarrow> u32 \<Rightarrow> nat \<times> heap" where
  "claim_block h prev cur need =
     (let h = (if unat (bsize (hdr_at h cur)) \<ge> unat need + HDR_SIZE + 16
               then split_block h cur need else h);
          h = link_from h prev (next_off (hdr_at h cur));
          h = put_hdr h cur ((hdr_at h cur)\<lparr>used := 1, magic := MAGIC_USED\<rparr>);
          ptr = hdr_addr h cur + HDR_SIZE;
          n = bsize (hdr_at h cur);
          s = (st h)\<lparr>used_bytes := used_bytes (st h) + n,
                     free_bytes := free_bytes (st h) - n,
                     alloc_count := alloc_count (st h) + 1\<rparr>;
          s = (if used_bytes s > high_water s then s\<lparr>high_water := used_bytes s\<rparr> else s)
      in (ptr, snd (memguard_check_allocation ptr ALIGN (h\<lparr>st := s\<rparr>))))"

definition kmalloc :: "u32 \<Rightarrow> heap \<Rightarrow> (nat \<times> heap) option" where
  "kmalloc size0 h =
     (if size0 = 0 \<or> hbase h = 0 then Some (0, h)
      else do {
        let need = align_up size0;
        fit \<leftarrow> find_fit h need END_OF_LIST (free_head h);
        case fit of
          None \<Rightarrow> Some (0, h\<lparr>st := (st h)\<lparr>errors := errors (st h) + 1\<rparr>\<rparr>)
        | Some (prev, cur) \<Rightarrow> Some (claim_block h prev cur need) })"

definition kzalloc :: "u32 \<Rightarrow> heap \<Rightarrow> (nat \<times> heap) option" where
  "kzalloc size0 h = do {
     (p, h) \<leftarrow> kmalloc size0 h;
     Some (p, if p \<noteq> 0 then h\<lparr>hmem := memset (hmem h) p 0 (unat size0)\<rparr> else h) }"

text \<open>The insertion walk of \<open>kfree\<close>: the last free block below \<open>off\<close> and the first above.\<close>

partial_function (option) find_slot :: "heap \<Rightarrow> u32 \<Rightarrow> u32 \<Rightarrow> u32 \<Rightarrow> (u32 \<times> u32) option" where
  "find_slot h off prev walk =
     (if walk \<noteq> END_OF_LIST \<and> walk < off then find_slot h off walk (next_off (hdr_at h walk))
      else Some (prev, walk))"

definition merge_prev :: "heap \<Rightarrow> u32 \<Rightarrow> u32 \<Rightarrow> heap \<times> u32" where
  "merge_prev h prev off =
     (let p = hdr_at h prev; c = hdr_at h off in
      if unat prev + HDR_SIZE + unat (bsize p) = unat off
      then (put_hdr h prev (p\<lparr>bsize := bsize p + (16 + bsize c), next_off := next_off c\<rparr>), prev)
      else (h, off))"

definition merge_next :: "heap \<Rightarrow> u32 \<Rightarrow> heap" where
  "merge_next h off =
     (let c = hdr_at h off in
      if unat off + HDR_SIZE + unat (bsize c) = unat (next_off c) \<and> next_off c \<noteq> END_OF_LIST
      then let n = hdr_at h (next_off c) in
        if magic n = MAGIC_FREE \<and> used n = 0
        then put_hdr h off (c\<lparr>bsize := bsize c + (16 + bsize n), next_off := next_off n\<rparr>)
        else h
      else h)"

definition release_payload :: "nat \<Rightarrow> u32 \<Rightarrow> heap \<Rightarrow> heap" where
  "release_payload ptr n h =
     (let h = memguard_poison_free ptr n h
      in h\<lparr>st := (st h)\<lparr>used_bytes := used_bytes (st h) - n, free_bytes := free_bytes (st h) + n,
                       free_count := free_count (st h) + 1\<rparr>\<rparr>)"

definition insert_free :: "heap \<Rightarrow> u32 \<Rightarrow> u32 \<Rightarrow> u32 \<Rightarrow> heap" where
  "insert_free h off prev walk =
     (let h = put_hdr h off ((hdr_at h off)\<lparr>next_off := walk\<rparr>);
          h = link_from h prev off;
          (h, off) = (if prev = END_OF_LIST then (h, off) else merge_prev h prev off)
      in merge_next h off)"

definition kfree :: "nat \<Rightarrow> heap \<Rightarrow> heap option" where
  "kfree ptr h =
     (if ptr = 0 then Some h
      else
        let off = (of_nat ptr - ucast (hbase h) - 16 :: u64);
            off = (ucast off :: u32);
            bad = h\<lparr>st := (st h)\<lparr>errors := errors (st h) + 1\<rparr>\<rparr> in
        if sint off < 0 \<or> off \<ge> hsize h then Some bad
        else let c = hdr_at h off in
        if magic c \<noteq> MAGIC_USED \<or> used c = 0 then Some bad
        else do {
          let h = release_payload ptr (bsize c) h;
          let h = put_hdr h off ((hdr_at h off)\<lparr>magic := MAGIC_FREE, used := 0\<rparr>);
          (prev, walk) \<leftarrow> find_slot h off END_OF_LIST (free_head h);
          Some (insert_free h off prev walk) })"

definition krealloc :: "nat \<Rightarrow> u32 \<Rightarrow> heap \<Rightarrow> (nat \<times> heap) option" where
  "krealloc ptr size0 h =
     (if ptr = 0 then kmalloc size0 h
      else if size0 = 0 then do { h \<leftarrow> kfree ptr h; Some (0, h) }
      else do {
        (fresh, h) \<leftarrow> kmalloc size0 h;
        if fresh = 0 then Some (0, h)
        else do {
          let cur = rd32 (load_bytes (hmem h) (ptr - HDR_SIZE) 16) 4;
          let h = h\<lparr>hmem := memcpy (hmem h) fresh ptr (unat (if cur < size0 then cur else size0))\<rparr>;
          h \<leftarrow> kfree ptr h;
          Some (fresh, h) } })"

section \<open>Headers in memory\<close>

lemma load_store_same: "length xs = n \<Longrightarrow> load_bytes (store_bytes m a xs) a n = xs"
  by (auto simp: load_bytes_def store_bytes_def intro: nth_equalityI)

lemma load_store_other:
  "b + n \<le> a \<or> a + length xs \<le> b \<Longrightarrow> load_bytes (store_bytes m a xs) b n = load_bytes m b n"
  by (auto simp: load_bytes_def store_bytes_def)

lemma length_hdr_bytes [simp]: "length (hdr_bytes x) = 16"
  by (simp add: hdr_bytes_def)

lemma hdr_of_bytes:
  "\<lparr>magic = rd32 (hdr_bytes x) 0, bsize = rd32 (hdr_bytes x) 4,
    next_off = rd32 (hdr_bytes x) 8, used = rd32 (hdr_bytes x) 12\<rparr> = x"
  by (cases x) (simp add: hdr_bytes_def rd32_def sub_def)

lemma dvd_16_cases:
  "16 dvd a \<Longrightarrow> 16 dvd b \<Longrightarrow> a \<noteq> b \<Longrightarrow> a + 16 \<le> b \<or> b + 16 \<le> (a::nat)"
  by (auto simp: dvd_def)

lemma hdr_at_put [simp]:
  assumes "16 dvd unat o1" and "16 dvd unat o2"
  shows "hdr_at (put_hdr h o1 x) o2 = (if o1 = o2 then x else hdr_at h o2)"
proof (cases "o1 = o2")
  case True
  then show ?thesis
    by (simp add: hdr_at_def put_hdr_def hdr_addr_def load_store_same hdr_of_bytes Let_def)
next
  case False
  then have "unat o1 + 16 \<le> unat o2 \<or> unat o2 + 16 \<le> unat o1"
    using assms dvd_16_cases by (metis unat_eq_iff_word)
  then show ?thesis
    using False by (auto simp: hdr_at_def put_hdr_def hdr_addr_def load_store_other)
qed

lemma put_hdr_fields [simp]:
  "hbase (put_hdr h off x) = hbase h" "hsize (put_hdr h off x) = hsize h"
  "free_head (put_hdr h off x) = free_head h" "st (put_hdr h off x) = st h"
  by (simp_all add: put_hdr_def)

lemma hdr_at_fields [simp]:
  "hdr_at (h\<lparr>free_head := f\<rparr>) off = hdr_at h off" "hdr_at (h\<lparr>st := s\<rparr>) off = hdr_at h off"
  "hdr_at (h\<lparr>violation_count := v\<rparr>) off = hdr_at h off"
  "hdr_at (h\<lparr>poison_count := v\<rparr>) off = hdr_at h off"
  by (simp_all add: hdr_at_def hdr_addr_def)

section \<open>The free list as a path\<close>

fun path :: "heap \<Rightarrow> u32 \<Rightarrow> u32 list \<Rightarrow> u32 \<Rightarrow> bool" where
  "path h x [] y \<longleftrightarrow> x = y"
| "path h x (o1 # os) y \<longleftrightarrow> x = o1 \<and> path h (next_off (hdr_at h o1)) os y"

lemma path_append: "path h x (xs @ ys) z \<longleftrightarrow> (\<exists>y. path h x xs y \<and> path h y ys z)"
  by (induction xs arbitrary: x) auto

lemma path_cong:
  "(\<And>o1. o1 \<in> set os \<Longrightarrow> next_off (hdr_at h' o1) = next_off (hdr_at h o1)) \<Longrightarrow>
    path h' x os y = path h x os y"
  by (induction os arbitrary: x) auto

text \<open>Redirecting the last link of a path.\<close>

lemma path_relink:
  assumes "path h x os y" and "os \<noteq> []" and "distinct os"
    and "\<And>o1. o1 \<in> set (butlast os) \<Longrightarrow> next_off (hdr_at h' o1) = next_off (hdr_at h o1)"
    and "next_off (hdr_at h' (last os)) = z"
  shows "path h' x os z"
  using assms
proof (induction os arbitrary: x)
  case (Cons o1 os)
  then show ?case by (cases "os = []") auto
qed simp

lemma find_fit_path:
  fixes need :: u32
  assumes "path h cur os END_OF_LIST" and "END_OF_LIST \<notin> set os"
  defines "small \<equiv> \<lambda>o1. unat (bsize (hdr_at h o1)) < unat need + HDR_SIZE"
  shows "find_fit h need prev cur = Some (case dropWhile small os of [] \<Rightarrow> None
           | o1 # _ \<Rightarrow> Some (last (prev # takeWhile small os), o1))"
  using assms(1,2)
proof (induction os arbitrary: cur prev)
  case Nil
  then show ?case by (subst find_fit.simps) simp
next
  case (Cons o1 os)
  have "find_fit h need prev o1 =
      (if small o1 then find_fit h need o1 (next_off (hdr_at h o1)) else Some (Some (prev, o1)))"
    using Cons.prems by (subst find_fit.simps) (auto simp: small_def)
  with Cons show ?case by (cases "small o1"; cases "dropWhile small os") (simp_all del: dropWhile_eq_Nil_conv)
qed

lemma find_slot_path:
  assumes "path h walk os END_OF_LIST" and "END_OF_LIST \<notin> set os"
  shows "find_slot h off prev walk = Some (last (prev # takeWhile (\<lambda>o1. o1 < off) os),
           hd (dropWhile (\<lambda>o1. o1 < off) os @ [END_OF_LIST]))"
  using assms
proof (induction os arbitrary: walk prev)
  case Nil
  then show ?case by (subst find_slot.simps) simp
next
  case (Cons o1 os)
  then show ?case by (subst find_slot.simps) auto
qed

section \<open>The block structure\<close>

text \<open>The heap region is tiled by blocks \<open>(offset, payload size, in use?)\<close>.\<close>

type_synonym blk = "u32 \<times> u32 \<times> bool"

fun tiles :: "nat \<Rightarrow> blk list \<Rightarrow> nat \<Rightarrow> bool" where
  "tiles a [] e \<longleftrightarrow> a = e"
| "tiles a ((o1, n, u) # bs) e \<longleftrightarrow> unat o1 = a \<and> 16 dvd unat n \<and> tiles (a + 16 + unat n) bs e"

definition free_offs :: "blk list \<Rightarrow> u32 list" where
  "free_offs bs = map fst (filter (\<lambda>(_, _, u). \<not> u) bs)"

definition used_sum :: "blk list \<Rightarrow> nat" where
  "used_sum bs = (\<Sum>(_, n, u) \<leftarrow> bs. if u then unat n else 0)"

definition hdr_ok :: "heap \<Rightarrow> blk \<Rightarrow> bool" where
  "hdr_ok h b = (case b of (o1, n, u) \<Rightarrow>
     bsize (hdr_at h o1) = n \<and>
     magic (hdr_at h o1) = (if u then MAGIC_USED else MAGIC_FREE) \<and>
     used (hdr_at h o1) = (if u then 1 else 0))"

definition heap_inv :: "heap \<Rightarrow> blk list \<Rightarrow> bool" where
  "heap_inv h bs \<longleftrightarrow>
     hbase h \<noteq> 0 \<and> 16 dvd unat (hbase h) \<and> unat (hsize h) < 2 ^ 31 \<and>
     tiles 0 bs (unat (hsize h)) \<and> (\<forall>b \<in> set bs. hdr_ok h b) \<and>
     path h (free_head h) (free_offs bs) END_OF_LIST \<and>
     unat (used_bytes (st h)) = used_sum bs \<and>
     used_bytes (st h) + free_bytes (st h) = total_bytes (st h) \<and>
     total_bytes (st h) = hsize h - 16"

lemma tiles_le: "tiles a bs e \<Longrightarrow> a \<le> e"
  by (induction a bs e rule: tiles.induct) auto

lemma tiles_append: "tiles a (xs @ ys) e \<longleftrightarrow> (\<exists>m. tiles a xs m \<and> tiles m ys e)"
  by (induction a xs e rule: tiles.induct) auto

lemma tiles_bounds:
  "tiles a bs e \<Longrightarrow> (o1, n, u) \<in> set bs \<Longrightarrow> a \<le> unat o1 \<and> unat o1 + 16 + unat n \<le> e"
proof (induction a bs e rule: tiles.induct)
  case (2 a o1 n u bs e)
  then show ?case using tiles_le by fastforce
qed simp

lemma tiles_aligned: "tiles a bs e \<Longrightarrow> 16 dvd a \<Longrightarrow> (o1, n, u) \<in> set bs \<Longrightarrow> 16 dvd unat o1 \<and> 16 dvd unat n"
  by (induction a bs e rule: tiles.induct) auto

lemma tiles_end_aligned: "tiles a bs e \<Longrightarrow> 16 dvd a \<Longrightarrow> 16 dvd e"
  by (induction a bs e rule: tiles.induct) auto

lemma tiles_offsets: "tiles a bs e \<Longrightarrow> sorted_wrt (<) (map (unat \<circ> fst) bs)"
proof (induction a bs e rule: tiles.induct)
  case (2 a o1 n u bs e)
  then show ?case by (force dest: tiles_bounds)
qed simp

lemma tiles_distinct: "tiles a bs e \<Longrightarrow> distinct (map fst bs)"
proof -
  assume "tiles a bs e"
  then have "distinct (map (unat \<circ> fst) bs)"
    using tiles_offsets strict_sorted_imp_sorted strict_sorted_iff by blast
  then show ?thesis by (simp add: distinct_map comp_inj_on_iff inj_on_def)
qed

lemma tiles_other:
  assumes "tiles a (xs @ (cur, n, u) # ys) e" and "(o1, k, v) \<in> set (xs @ ys)"
  shows "o1 \<noteq> cur"
proof -
  have "cur \<notin> fst ` set (xs @ ys)" using tiles_distinct [OF assms(1)] by auto
  then show ?thesis using assms(2) by (metis fst_conv image_eqI)
qed

lemma used_sum_simps [simp]:
  "used_sum [] = 0" "used_sum ((o1, n, u) # bs) = (if u then unat n else 0) + used_sum bs"
  "used_sum (xs @ ys) = used_sum xs + used_sum ys"
  by (simp_all add: used_sum_def)

lemma free_offs_simps [simp]:
  "free_offs [] = []" "free_offs ((o1, n, u) # bs) = (if u then free_offs bs else o1 # free_offs bs)"
  "free_offs (xs @ ys) = free_offs xs @ free_offs ys"
  by (simp_all add: free_offs_def)

lemma tiles_used_sum: "tiles a bs e \<Longrightarrow> a + used_sum bs \<le> e"
  by (induction a bs e rule: tiles.induct) auto

lemma free_offs_split:
  "free_offs bs = fs @ o1 # gs \<Longrightarrow>
    \<exists>xs n ys. bs = xs @ (o1, n, False) # ys \<and> free_offs xs = fs \<and> free_offs ys = gs"
proof (induction bs arbitrary: fs)
  case (Cons b bs)
  obtain o2 n u where b: "b = (o2, n, u)" by (cases b)
  show ?case
  proof (cases "\<not> u \<and> fs = []")
    case True
    then show ?thesis using Cons.prems b by (intro exI [of _ "[]"]) auto
  next
    case False
    then obtain fs' where "free_offs bs = fs' @ o1 # gs" "fs = (if u then fs' else o2 # fs')"
      using Cons.prems b by (cases u; cases fs) auto
    with Cons.IH obtain xs m ys where
      "bs = xs @ (o1, m, False) # ys" "free_offs xs = fs'" "free_offs ys = gs" by blast
    with b \<open>fs = _\<close> show ?thesis by (intro exI [of _ "b # xs"]) auto
  qed
qed simp

lemma free_offs_subset: "set (free_offs bs) \<subseteq> fst ` set bs"
  by (auto simp: free_offs_def)

lemma path_cong_free:
  "(\<And>o1 n. (o1, n, False) \<in> set bs \<Longrightarrow> hdr_at h' o1 = hdr_at h o1) \<Longrightarrow>
    path h' x (free_offs bs) y = path h x (free_offs bs) y"
  by (rule path_cong) (auto simp: free_offs_def)

lemma heap_invD:
  assumes "heap_inv h bs" and "(o1, n, u) \<in> set bs"
  shows "16 dvd unat o1" and "16 dvd unat n" and "unat o1 + 16 + unat n \<le> unat (hsize h)"
    and "o1 \<noteq> END_OF_LIST" and "hdr_ok h (o1, n, u)"
proof -
  have t: "tiles 0 bs (unat (hsize h))" and lt: "unat (hsize h) < 2 ^ 31"
    using assms(1) by (auto simp: heap_inv_def)
  show "16 dvd unat o1" "16 dvd unat n" using tiles_aligned [OF t _ assms(2)] by auto
  show b: "unat o1 + 16 + unat n \<le> unat (hsize h)" using tiles_bounds [OF t assms(2)] by auto
  show "o1 \<noteq> END_OF_LIST" using b lt by (auto simp: END_OF_LIST_def)
  show "hdr_ok h (o1, n, u)" using assms by (auto simp: heap_inv_def)
qed

lemma heap_inv_free_offs:
  assumes "heap_inv h bs"
  shows "distinct (free_offs bs)" and "END_OF_LIST \<notin> set (free_offs bs)"
    and "o1 \<in> set (free_offs bs) \<Longrightarrow> 16 dvd unat o1"
proof -
  have t: "tiles 0 bs (unat (hsize h))" using assms by (simp add: heap_inv_def)
  show "distinct (free_offs bs)"
    using tiles_distinct [OF t] by (auto simp: free_offs_def distinct_map_filter)
  show "END_OF_LIST \<notin> set (free_offs bs)"
    using heap_invD(4) [OF assms] by (fastforce simp: free_offs_def)
  show "o1 \<in> set (free_offs bs) \<Longrightarrow> 16 dvd unat o1"
    using heap_invD(1) [OF assms] by (auto simp: free_offs_def)
qed

lemma link_from_fields [simp]:
  "hbase (link_from h prev off) = hbase h" "hsize (link_from h prev off) = hsize h"
  "st (link_from h prev off) = st h"
  "free_head (link_from h prev off) = (if prev = END_OF_LIST then off else free_head h)"
  by (simp_all add: link_from_def)

lemma hdr_at_link_from [simp]:
  "prev = END_OF_LIST \<or> 16 dvd unat prev \<Longrightarrow> 16 dvd unat o1 \<Longrightarrow>
    hdr_at (link_from h prev off) o1 =
      (if prev \<noteq> END_OF_LIST \<and> o1 = prev then (hdr_at h o1)\<lparr>next_off := off\<rparr> else hdr_at h o1)"
  by (auto simp: link_from_def)

text \<open>Linking a sublist \<open>gs\<close> behind the free blocks \<open>fs\<close>.\<close>

lemma path_link_from:
  assumes "path h (free_head h) fs y" and "path h nx gs END_OF_LIST" and "distinct (fs @ gs)"
    and "END_OF_LIST \<notin> set fs" and al: "\<And>o1. o1 \<in> set (fs @ gs) \<Longrightarrow> 16 dvd unat o1"
    and prev: "prev = last (END_OF_LIST # fs)"
  shows "path (link_from h prev nx) (free_head (link_from h prev nx)) (fs @ gs) END_OF_LIST"
proof (cases "fs = []")
  case True
  then have pe: "prev = END_OF_LIST" using prev by simp
  then have "path (link_from h prev nx) nx gs END_OF_LIST = path h nx gs END_OF_LIST"
    using al by (intro path_cong) auto
  then show ?thesis using True assms(2) pe by simp
next
  case False
  then have pl: "prev = last fs" "prev \<in> set fs" using prev by auto
  then have pe: "prev \<noteq> END_OF_LIST" using assms(4) by auto
  have pal: "16 dvd unat prev" using al pl(2) by simp
  have nb: "prev \<notin> set (butlast fs)"
    using assms(3) False pl(1) by (metis append_butlast_last_id distinct_append distinct_butlast
        not_distinct_conv_prefix)
  have ng: "prev \<notin> set gs" using assms(3) pl(2) by auto
  have "path (link_from h prev nx) (free_head h) fs nx"
  proof (rule path_relink [OF assms(1) False])
    show "distinct fs" using assms(3) by simp
    show "next_off (hdr_at (link_from h prev nx) o1) = next_off (hdr_at h o1)"
      if "o1 \<in> set (butlast fs)" for o1
      using that nb pal al [of o1] in_set_butlastD [OF that] by auto
    show "next_off (hdr_at (link_from h prev nx) (last fs)) = nx"
      using pl pe pal by simp
  qed
  moreover have "path (link_from h prev nx) nx gs END_OF_LIST = path h nx gs END_OF_LIST"
    by (rule path_cong) (use ng pal al in auto)
  ultimately show ?thesis using pe assms(2) by (auto simp: path_append)
qed

section \<open>The abstract allocator\<close>

text \<open>What \<open>kmalloc\<close> promises on the list of blocks: the first free block with room for the
  request and one more header is taken, and its rest, when it holds another header and 16 bytes,
  becomes a free block of its own.\<close>

definition carve :: "u32 \<Rightarrow> u32 \<Rightarrow> u32 \<Rightarrow> blk list" where
  "carve need o1 n =
     (if unat n \<ge> unat need + 32 then [(o1, need, True), (o1 + 16 + need, n - need - 16, False)]
      else [(o1, n, True)])"

fun first_fit :: "u32 \<Rightarrow> blk list \<Rightarrow> (u32 \<times> blk list) option" where
  "first_fit need [] = None"
| "first_fit need ((o1, n, u) # bs) =
     (if \<not> u \<and> unat n \<ge> unat need + 16 then Some (o1, carve need o1 n @ bs)
      else map_option (\<lambda>(r, bs). (r, (o1, n, u) # bs)) (first_fit need bs))"

definition all_small :: "u32 \<Rightarrow> blk list \<Rightarrow> bool" where
  "all_small need bs \<longleftrightarrow> (\<forall>(o1, n, u) \<in> set bs. u \<or> unat n < unat need + 16)"

lemma first_fit_None: "first_fit need bs = None \<longleftrightarrow> all_small need bs"
  by (induction need bs rule: first_fit.induct) (auto simp: all_small_def)

lemma first_fit_Some:
  "first_fit need bs = Some (cur, bs') \<Longrightarrow> \<exists>xs m ys. bs = xs @ (cur, m, False) # ys \<and>
     all_small need xs \<and> unat m \<ge> unat need + 16 \<and> bs' = xs @ carve need cur m @ ys"
proof (induction need bs arbitrary: bs' rule: first_fit.induct)
  case (2 need o1 n u bs)
  show ?case
  proof (cases "\<not> u \<and> unat n \<ge> unat need + 16")
    case True
    then show ?thesis
      using "2.prems" by (intro exI [of _ "[]"] exI [of _ n] exI [of _ bs]) (auto simp: all_small_def)
  next
    case False
    then obtain bs1 where "first_fit need bs = Some (cur, bs1)" "bs' = (o1, n, u) # bs1"
      using "2.prems" by (auto split: if_splits)
    with "2.IH" [OF False] obtain xs m ys where "bs = xs @ (cur, m, False) # ys" "all_small need xs"
      "unat m \<ge> unat need + 16" "bs1 = xs @ carve need cur m @ ys" by blast
    with False \<open>bs' = _\<close> show ?thesis
      by (intro exI [of _ "(o1, n, u) # xs"] exI [of _ m] exI [of _ ys]) (auto simp: all_small_def)
  qed
qed simp

lemma find_fit_all_small:
  assumes inv: "heap_inv h bs" and "all_small need bs"
  shows "find_fit h need END_OF_LIST (free_head h) = Some None"
proof -
  have "\<forall>o1 \<in> set (free_offs bs). unat (bsize (hdr_at h o1)) < unat need + HDR_SIZE"
    using assms heap_invD(5) [OF inv]
    by (force simp: all_small_def free_offs_def hdr_ok_def HDR_SIZE_def)
  then show ?thesis
    using inv heap_inv_free_offs(2) [OF inv] find_fit_path [of h "free_head h" "free_offs bs" need]
    by (simp add: heap_inv_def dropWhile_eq_Nil_conv [THEN iffD2])
qed

lemma find_fit_first:
  assumes inv: "heap_inv h (xs @ (cur, m, False) # ys)" and "all_small need xs"
    and "unat m \<ge> unat need + 16"
  shows "find_fit h need END_OF_LIST (free_head h)
           = Some (Some (last (END_OF_LIST # free_offs xs), cur))"
proof -
  let ?small = "\<lambda>o1. unat (bsize (hdr_at h o1)) < unat need + HDR_SIZE"
  have "\<forall>o1 \<in> set (free_offs xs). ?small o1"
    using assms(2) heap_invD(5) [OF inv]
    by (force simp: all_small_def free_offs_def hdr_ok_def HDR_SIZE_def)
  moreover have "\<not> ?small cur"
    using assms(3) heap_invD(5) [OF inv, of cur m False] by (simp add: hdr_ok_def HDR_SIZE_def)
  ultimately show ?thesis
    using inv heap_inv_free_offs(2) [OF inv]
      find_fit_path [of h "free_head h" "free_offs xs @ cur # free_offs ys" need]
    by (simp add: heap_inv_def takeWhile_append dropWhile_append)
qed

subsection \<open>Splitting a block\<close>

lemma split_block_fields [simp]:
  "hbase (split_block h cur need) = hbase h" "hsize (split_block h cur need) = hsize h"
  "st (split_block h cur need) = st h" "free_head (split_block h cur need) = free_head h"
  by (simp_all add: split_block_def Let_def)

lemma split_block_hdr:
  assumes "16 dvd unat cur" and "16 dvd unat (cur + 16 + need)" and "cur \<noteq> cur + 16 + need"
    and "16 dvd unat o1"
  shows "hdr_at (split_block h cur need) o1 =
    (if o1 = cur then (hdr_at h cur)\<lparr>bsize := need, next_off := cur + 16 + need\<rparr>
     else if o1 = cur + 16 + need
     then \<lparr>magic = MAGIC_FREE, bsize = bsize (hdr_at h cur) - need - 16,
           next_off = next_off (hdr_at h cur), used = 0\<rparr>
     else hdr_at h o1)"
  using assms by (auto simp: split_block_def Let_def)

lemma split_block_inv:
  assumes inv: "heap_inv h (xs @ (cur, m, False) # ys)" and room: "unat m \<ge> unat need + 32"
    and need: "16 dvd unat need"
  defines "new \<equiv> cur + 16 + need" and "n \<equiv> m - need - 16"
  shows "heap_inv (split_block h cur need) (xs @ (cur, need, False) # (new, n, False) # ys)"
proof -
  let ?h = "split_block h cur need"
  note D = heap_invD [OF inv, of cur m False, simplified]
  have lt: "unat cur + 16 + unat m < 2 ^ 31" using D(3) inv by (auto simp: heap_inv_def)
  have unew: "unat new = unat cur + 16 + unat need"
    using lt room unfolding new_def by (simp add: unat_add_small)
  have un: "unat n = unat m - unat need - 16"
    using room unfolding n_def by (simp add: unat_sub word_le_nat_alt)
  have al: "16 dvd unat new" using D(1) need unew by simp
  have ne: "cur \<noteq> new" using unew by auto
  have e: "unat cur + 16 + unat need + 16 + unat n = unat cur + 16 + unat m" using un room by simp
  have "tiles 0 xs (unat cur)" "tiles (unat cur + 16 + unat need + 16 + unat n) ys (unat (hsize h))"
    using inv unfolding e by (auto simp: heap_inv_def tiles_append)
  moreover have "16 dvd unat n" using un need D(2) by (simp add: dvd_diff_nat)
  ultimately have t: "tiles 0 (xs @ (cur, need, False) # (new, n, False) # ys) (unat (hsize h))"
    using need unew by (simp add: tiles_append)
  have other: "o1 \<noteq> cur \<and> o1 \<noteq> new \<and> 16 dvd unat o1 \<and> hdr_at ?h o1 = hdr_at h o1"
    if "(o1, k, u) \<in> set (xs @ ys)" for o1 k u
  proof -
    have "o1 \<noteq> cur" "o1 \<noteq> new"
      using tiles_other [OF t, of o1 k u] tiles_other [of 0 "xs @ [(cur, need, False)]" new n False ys]
        t that by auto
    moreover have "16 dvd unat o1" using heap_invD(1) [OF inv, of o1 k u] that by auto
    ultimately show ?thesis
      using split_block_hdr [of cur need o1 h] D(1) al ne by (simp add: new_def)
  qed
  have hcur: "hdr_at ?h cur = (hdr_at h cur)\<lparr>bsize := need, next_off := new\<rparr>"
    and hnew: "hdr_at ?h new = \<lparr>magic = MAGIC_FREE, bsize = bsize (hdr_at h cur) - need - 16,
           next_off = next_off (hdr_at h cur), used = 0\<rparr>"
    using split_block_hdr [of cur need _ h] D(1) al ne by (auto simp: new_def)
  have "hdr_ok ?h b" if b: "b \<in> set (xs @ (cur, need, False) # (new, n, False) # ys)" for b
  proof -
    consider "b = (cur, need, False)" | "b = (new, n, False)" | "b \<in> set (xs @ ys)"
      using b by auto
    then show ?thesis
    proof cases
      case 3
      then have "hdr_ok h b" using inv by (auto simp: heap_inv_def)
      moreover obtain o1 k u where "b = (o1, k, u)" by (cases b)
      ultimately show ?thesis using other [of o1 k u] 3 by (simp add: hdr_ok_def)
    qed (use D(5) hcur hnew in \<open>auto simp: hdr_ok_def n_def\<close>)
  qed
  moreover have "path ?h (free_head h) (free_offs xs @ cur # new # free_offs ys) END_OF_LIST"
  proof -
    have p: "path h (free_head h) (free_offs xs) cur"
      "path h (next_off (hdr_at h cur)) (free_offs ys) END_OF_LIST"
      using inv by (auto simp: heap_inv_def path_append)
    have "path ?h x (free_offs zs) y = path h x (free_offs zs) y" if "zs = xs \<or> zs = ys" for x y zs
      by (rule path_cong_free) (use other that in \<open>simp, blast\<close>)
    then show ?thesis using p hcur hnew by (auto simp: path_append)
  qed
  ultimately show ?thesis using inv t by (auto simp: heap_inv_def)
qed

subsection \<open>Taking a block off the free list\<close>

lemma path_fields [simp]:
  "path (h\<lparr>st := s\<rparr>) x os y = path h x os y"
  "path (h\<lparr>violation_count := v\<rparr>) x os y = path h x os y"
  "path (h\<lparr>poison_count := v\<rparr>) x os y = path h x os y"
  by (rule path_cong, simp)+

lemma hdr_ok_fields [simp]:
  "hdr_ok (h\<lparr>st := s\<rparr>) b = hdr_ok h b" "hdr_ok (h\<lparr>violation_count := v\<rparr>) b = hdr_ok h b"
  "hdr_ok (h\<lparr>poison_count := v\<rparr>) b = hdr_ok h b"
  by (simp_all add: hdr_ok_def)

lemma heap_inv_counts [simp]:
  "heap_inv (h\<lparr>violation_count := v\<rparr>) bs = heap_inv h bs"
  "heap_inv (h\<lparr>poison_count := v\<rparr>) bs = heap_inv h bs"
  "heap_inv (h\<lparr>st := (st h)\<lparr>errors := e\<rparr>\<rparr>) bs = heap_inv h bs"
  by (simp_all add: heap_inv_def)

lemma heap_inv_check_allocation [simp]:
  "heap_inv (snd (memguard_check_allocation p al h)) bs = heap_inv h bs"
  by (simp add: memguard_check_allocation_def)

definition same_block :: "block_hdr \<Rightarrow> block_hdr \<Rightarrow> bool" where
  "same_block x y \<longleftrightarrow> magic x = magic y \<and> bsize x = bsize y \<and> used x = used y"

lemma take_block_inv:
  assumes inv: "heap_inv h (xs @ (cur, n, False) # ys)"
    and h2: "h2 = link_from h (last (END_OF_LIST # free_offs xs)) (next_off (hdr_at h cur))"
    and h3: "h3 = put_hdr h2 cur ((hdr_at h2 cur)\<lparr>used := 1, magic := MAGIC_USED\<rparr>)"
    and s: "used_bytes s = used_bytes (st h) + n" "free_bytes s = free_bytes (st h) - n"
      "total_bytes s = total_bytes (st h)"
  shows "heap_inv (h3\<lparr>st := s\<rparr>) (xs @ (cur, n, True) # ys)"
    and "bsize (hdr_at h2 cur) = n"
proof -
  let ?prev = "last (END_OF_LIST # free_offs xs)"
  note D = heap_invD [OF inv, of cur n False, simplified]
  note F = heap_inv_free_offs [OF inv, simplified]
  have t: "tiles 0 (xs @ (cur, n, True) # ys) (unat (hsize h))"
    using inv by (simp add: heap_inv_def tiles_append)
  have prev: "?prev = END_OF_LIST \<or> ?prev \<in> set (free_offs xs)" by simp
  then have pal: "?prev = END_OF_LIST \<or> 16 dvd unat ?prev" using F(3) by blast
  have pne: "?prev \<noteq> cur" using prev D(4) F(1) by auto
  have hcur2: "hdr_at h2 cur = hdr_at h cur" using h2 pal D(1) pne by simp
  then show "bsize (hdr_at h2 cur) = n" using D(5) by (simp add: hdr_ok_def)
  have other: "o1 \<noteq> cur \<and> 16 dvd unat o1 \<and> hdr_at h3 o1 = hdr_at h2 o1 \<and>
      same_block (hdr_at h3 o1) (hdr_at h o1)"
    if "(o1, k, u) \<in> set (xs @ ys)" for o1 k u
  proof -
    have "o1 \<noteq> cur" using tiles_other [OF t that] .
    moreover have "16 dvd unat o1" using heap_invD(1) [OF inv, of o1 k u] that by auto
    ultimately show ?thesis using D(1) h2 h3 pal by (auto simp: same_block_def)
  qed
  have "hdr_ok h3 b" if "b \<in> set (xs @ (cur, n, True) # ys)" for b
  proof (cases "b = (cur, n, True)")
    case True
    then show ?thesis using D(1,5) hcur2 h3 by (simp add: hdr_ok_def)
  next
    case False
    then have b: "b \<in> set (xs @ ys)" using that by auto
    then have "hdr_ok h b" using inv by (auto simp: heap_inv_def)
    moreover obtain o1 k u where "b = (o1, k, u)" by (cases b)
    ultimately show ?thesis using other [of o1 k u] b
      by (auto simp: hdr_ok_def same_block_def)
  qed
  moreover have "path h3 (free_head h3) (free_offs xs @ free_offs ys) END_OF_LIST"
  proof -
    have p: "path h (free_head h) (free_offs xs) cur"
      "path h (next_off (hdr_at h cur)) (free_offs ys) END_OF_LIST"
      using inv by (auto simp: heap_inv_def path_append)
    have "path h2 (free_head h2) (free_offs xs @ free_offs ys) END_OF_LIST"
      unfolding h2 by (rule path_link_from [OF p]) (use F in auto)
    moreover have "path h3 x (free_offs (xs @ ys)) y = path h2 x (free_offs (xs @ ys)) y" for x y
      by (rule path_cong_free) (use other in blast)
    ultimately show ?thesis using h3 by simp
  qed
  moreover have "unat (used_bytes s) = used_sum (xs @ (cur, n, True) # ys)"
  proof -
    have "unat (used_bytes (st h)) = used_sum xs + used_sum ys" using inv by (simp add: heap_inv_def)
    moreover have "used_sum xs + unat n + used_sum ys < 2 ^ 31"
      using tiles_used_sum [OF t] inv by (simp add: heap_inv_def)
    ultimately show ?thesis using s(1) by (simp add: unat_add_small)
  qed
  moreover have "hbase h3 = hbase h" "hsize h3 = hsize h" using h2 h3 by auto
  moreover have "used_bytes s + free_bytes s = total_bytes s" "total_bytes s = hsize h - 16"
    using inv unfolding s heap_inv_def by auto
  ultimately show "heap_inv (h3\<lparr>st := s\<rparr>) (xs @ (cur, n, True) # ys)"
    using inv t by (simp add: heap_inv_def)
qed

subsection \<open>The allocator refines first fit\<close>

lemma unat_and_not_15: "unat (y AND NOT 15 :: 'a :: len word) = unat y div 16 * 16"
  using unat_and_not_mask [of y 4] by (simp add: mask_eq_exp_minus_1)

lemma align_up_unat: "unat (align_up x) = unat (x + 15) div 16 * 16"
proof -
  have "align_up x = x + 15 AND NOT 15" by (simp add: align_up_def ALIGN_def add.commute)
  then show ?thesis by (simp only: unat_and_not_15)
qed

lemma align_up_dvd [simp]: "16 dvd unat (align_up x)"
  by (simp add: align_up_unat)

lemma unat_align_up:
  assumes "unat x \<le> 2 ^ 32 - 16"
  shows "unat (align_up x) = (unat x + 15) div 16 * 16"
proof -
  have "unat (x + 15) = unat x + 15" using assms by (simp add: unat_add_small)
  then show ?thesis by (simp add: align_up_unat)
qed

text \<open>Sizes above \<open>0xFFFFFFF0\<close> wrap: the rounded request is zero bytes.\<close>

lemma align_up_wraps:
  assumes "2 ^ 32 - 16 < unat x"
  shows "align_up x = 0"
proof -
  have "unat (x + 15) = unat x + 15 - 2 ^ 32"
    using assms unsigned_less [of x, where 'a = nat] by (simp add: unat_word_ariths mod_if)
  then have "unat (align_up x) = 0"
    using unsigned_less [of x, where 'a = nat] by (simp add: align_up_unat)
  then show ?thesis by (simp add: unat_eq_0)
qed

text \<open>The memory writes of the allocator stay within the free blocks: they keep the payload of
  every block in use.\<close>

definition payload :: "heap \<Rightarrow> u32 \<Rightarrow> u32 \<Rightarrow> bytes" where
  "payload h o1 n = load_bytes (hmem h) (hdr_addr h o1 + HDR_SIZE) (unat n)"

definition keeps_used :: "heap \<Rightarrow> heap \<Rightarrow> blk list \<Rightarrow> bool" where
  "keeps_used h h' bs \<longleftrightarrow> hbase h' = hbase h \<and>
     (\<forall>(o1, n, u) \<in> set bs. u \<longrightarrow> payload h' o1 n = payload h o1 n)"

lemma keeps_used_refl [simp]: "keeps_used h h bs"
  by (simp add: keeps_used_def split_beta)

lemma keeps_used_trans: "keeps_used h h' bs \<Longrightarrow> keeps_used h' h'' bs \<Longrightarrow> keeps_used h h'' bs"
  by (auto simp: keeps_used_def split_beta)

lemma keeps_used_subset: "keeps_used h h' bs \<Longrightarrow> set bs' \<subseteq> set bs \<Longrightarrow> keeps_used h h' bs'"
  by (auto simp: keeps_used_def)

lemma keeps_usedD:
  "keeps_used h h' bs \<Longrightarrow> (o1, n, True) \<in> set bs \<Longrightarrow> payload h' o1 n = payload h o1 n"
  by (auto simp: keeps_used_def)

lemma keeps_used_fields [simp]:
  "keeps_used h (h'\<lparr>st := s\<rparr>) bs = keeps_used h h' bs"
  "keeps_used h (h'\<lparr>free_head := f\<rparr>) bs = keeps_used h h' bs"
  "keeps_used h (h'\<lparr>violation_count := v\<rparr>) bs = keeps_used h h' bs"
  "keeps_used h (h'\<lparr>poison_count := v\<rparr>) bs = keeps_used h h' bs"
  by (simp_all add: keeps_used_def payload_def hdr_addr_def)

lemma keeps_used_put_hdr:
  assumes "\<And>o1 n. (o1, n, True) \<in> set bs \<Longrightarrow>
      unat off + 16 \<le> unat o1 + 16 \<or> unat o1 + 16 + unat n \<le> unat off"
  shows "keeps_used h (put_hdr h off x) bs"
  using assms
  by (force simp: keeps_used_def payload_def put_hdr_def hdr_addr_def HDR_SIZE_def
      intro!: load_store_other)

lemma tiles_apart:
  "tiles a bs e \<Longrightarrow> (o1, n, u) \<in> set bs \<Longrightarrow> (o2, m, v) \<in> set bs \<Longrightarrow>
    o1 = o2 \<and> n = m \<and> u = v \<or> unat o1 + 16 + unat n \<le> unat o2 \<or> unat o2 + 16 + unat m \<le> unat o1"
proof (induction a bs e rule: tiles.induct)
  case (2 a o3 k w bs e)
  then show ?case by (auto dest: tiles_bounds)
qed simp

lemma heap_inv_tiles: "heap_inv h bs \<Longrightarrow> tiles 0 bs (unat (hsize h))"
  by (simp add: heap_inv_def)

text \<open>A header written anywhere inside a free block, at its start or further on.\<close>

lemma keeps_used_free_block:
  assumes "tiles 0 bs e" and "(o1, n, False) \<in> set bs"
    and "unat o1 \<le> unat off" and "unat off \<le> unat o1 + unat n"
  shows "keeps_used h (put_hdr h off x) bs"
proof (rule keeps_used_put_hdr)
  fix o2 m assume "(o2, m, True) \<in> set bs"
  then show "unat off + 16 \<le> unat o2 + 16 \<or> unat o2 + 16 + unat m \<le> unat off"
    using tiles_apart [OF assms(1,2)] assms(3,4) by fastforce
qed

lemma keeps_used_link_from:
  assumes "tiles 0 bs e" and "prev = END_OF_LIST \<or> prev \<in> set (free_offs bs)"
  shows "keeps_used h (link_from h prev off) bs"
proof (cases "prev = END_OF_LIST")
  case False
  then obtain n where "(prev, n, False) \<in> set bs"
    using assms(2) by (auto simp: free_offs_def)
  then show ?thesis
    using False keeps_used_free_block [OF assms(1)] by (simp add: link_from_def)
qed (simp add: link_from_def)

lemma keeps_used_split_block:
  assumes t: "tiles 0 bs e" and c: "(cur, m, False) \<in> set bs" and "unat m \<ge> unat need + 32"
    and "e < 2 ^ 31"
  shows "keeps_used h (split_block h cur need) bs"
proof -
  have "unat cur + 16 + unat m < 2 ^ 31" using tiles_bounds [OF t c] assms(4) by simp
  then have "unat (cur + 16 + need) = unat cur + 16 + unat need"
    using assms(3) by (simp add: unat_add_small)
  then show ?thesis
    unfolding split_block_def Let_def using assms(3)
    by (intro keeps_used_trans [OF keeps_used_free_block [OF t c] keeps_used_free_block [OF t c]]) simp_all
qed

lemma claim_block_inv:
  assumes inv: "heap_inv h (xs @ (cur, m, False) # ys)" (is "heap_inv h ?bs")
    and room: "unat m \<ge> unat need + 16" and need: "16 dvd unat need"
    and claim: "claim_block h (last (END_OF_LIST # free_offs xs)) cur need = (p, h')"
  shows "p = hdr_addr h cur + HDR_SIZE" and "heap_inv h' (xs @ carve need cur m @ ys)"
    and "keeps_used h h' ?bs" and "errors (st h') = errors (st h)" and "hsize h' = hsize h"
proof -
  let ?prev = "last (END_OF_LIST # free_offs xs)"
  define h1 where "h1 = (if unat (bsize (hdr_at h cur)) \<ge> unat need + HDR_SIZE + 16
    then split_block h cur need else h)"
  define h2 where "h2 = link_from h1 ?prev (next_off (hdr_at h1 cur))"
  define h3 where "h3 = put_hdr h2 cur ((hdr_at h2 cur)\<lparr>used := 1, magic := MAGIC_USED\<rparr>)"
  define s where "s = (st h3)\<lparr>used_bytes := used_bytes (st h3) + bsize (hdr_at h3 cur),
    free_bytes := free_bytes (st h3) - bsize (hdr_at h3 cur), alloc_count := alloc_count (st h3) + 1\<rparr>"
  define s' where "s' = (if used_bytes s > high_water s then s\<lparr>high_water := used_bytes s\<rparr> else s)"
  have "claim_block h ?prev cur need = (hdr_addr h3 cur + HDR_SIZE,
      snd (memguard_check_allocation (hdr_addr h3 cur + HDR_SIZE) ALIGN (h3\<lparr>st := s'\<rparr>)))"
    by (simp only: claim_block_def Let_def h1_def h2_def h3_def s_def s'_def)
  with claim have p: "p = hdr_addr h3 cur + HDR_SIZE"
    and h': "h' = snd (memguard_check_allocation p ALIGN (h3\<lparr>st := s'\<rparr>))" by auto
  have bm: "bsize (hdr_at h cur) = m"
    using heap_invD(5) [OF inv, of cur m False] by (simp add: hdr_ok_def)
  define n where "n = (if unat m \<ge> unat need + 32 then need else m)"
  obtain rest where inv1: "heap_inv h1 (xs @ (cur, n, False) # rest)"
    and rest: "xs @ carve need cur m @ ys = xs @ (cur, n, True) # rest"
    using split_block_inv [OF inv _ need] inv unfolding h1_def n_def carve_def bm HDR_SIZE_def
    by (cases "unat m \<ge> unat need + 32") auto
  have "16 dvd unat cur" using heap_invD(1) [OF inv, of cur m False] by simp
  then have b3: "bsize (hdr_at h3 cur) = bsize (hdr_at h2 cur)" by (simp add: h3_def)
  have st: "st h3 = st h" "hbase h3 = hbase h" "hsize h3 = hsize h" "st h1 = st h"
    by (simp_all add: h1_def h2_def h3_def)
  have n: "bsize (hdr_at h2 cur) = n"
    by (rule take_block_inv(2) [OF inv1 h2_def h3_def, of "(st h)\<lparr>used_bytes := used_bytes (st h) + n,
      free_bytes := free_bytes (st h) - n\<rparr>"]) (simp_all add: st)
  show "p = hdr_addr h cur + HDR_SIZE" using p by (simp add: hdr_addr_def st)
  have "heap_inv (h3\<lparr>st := s'\<rparr>) (xs @ (cur, n, True) # rest)"
    by (rule take_block_inv(1) [OF inv1 h2_def h3_def]) (simp_all add: s'_def s_def st b3 n)
  then show "heap_inv h' (xs @ carve need cur m @ ys)" unfolding rest h' by simp
  have t: "tiles 0 ?bs (unat (hsize h))" using heap_inv_tiles [OF inv] .
  have c: "(cur, m, False) \<in> set ?bs" by simp
  have "keeps_used h h1 ?bs"
    using keeps_used_split_block [OF t c] inv by (simp add: h1_def heap_inv_def bm HDR_SIZE_def)
  moreover have "keeps_used h1 h2 ?bs"
    unfolding h2_def by (rule keeps_used_link_from [OF t]) auto
  moreover have "keeps_used h2 h3 ?bs"
    unfolding h3_def by (rule keeps_used_free_block [OF t c]) auto
  ultimately show "keeps_used h h' ?bs"
    unfolding h' by (auto simp: memguard_check_allocation_def intro: keeps_used_trans)
  show "errors (st h') = errors (st h)" "hsize h' = hsize h"
    unfolding h' by (auto simp: memguard_check_allocation_def s'_def s_def st)
qed

lemma kmalloc_simulates:
  assumes inv: "heap_inv h bs" and "size0 \<noteq> 0"
  shows "case first_fit (align_up size0) bs of
      None \<Rightarrow> kmalloc size0 h = Some (0, h\<lparr>st := (st h)\<lparr>errors := errors (st h) + 1\<rparr>\<rparr>)
    | Some (cur, bs') \<Rightarrow> \<exists>h'. kmalloc size0 h = Some (hdr_addr h cur + HDR_SIZE, h') \<and>
        heap_inv h' bs' \<and> keeps_used h h' bs \<and> errors (st h') = errors (st h) \<and> hsize h' = hsize h"
proof (cases "first_fit (align_up size0) bs")
  case None
  then show ?thesis
    using inv assms(2) find_fit_all_small [OF inv] first_fit_None [of "align_up size0" bs]
    by (simp add: kmalloc_def heap_inv_def)
next
  case (Some r)
  obtain cur bs' where r: "r = (cur, bs')" by (cases r)
  obtain xs m ys where bs: "bs = xs @ (cur, m, False) # ys" and small: "all_small (align_up size0) xs"
    and room: "unat m \<ge> unat (align_up size0) + 16" and bs': "bs' = xs @ carve (align_up size0) cur m @ ys"
    using first_fit_Some Some r by blast
  let ?c = "claim_block h (last (END_OF_LIST # free_offs xs)) cur (align_up size0)"
  have "kmalloc size0 h = Some ?c"
    using find_fit_first [OF inv [unfolded bs] small room] inv assms(2)
    by (simp add: kmalloc_def heap_inv_def)
  moreover obtain p h' where c: "?c = (p, h')" by (cases ?c)
  note claim_block_inv [OF inv [unfolded bs] room align_up_dvd c]
  ultimately show ?thesis using Some r c bs bs' by auto
qed

lemma kmalloc_keeps_used:
  assumes "heap_inv h bs"
  shows "\<exists>r h'. kmalloc n h = Some (r, h') \<and> keeps_used h h' bs"
proof (cases "n = 0")
  case False
  show ?thesis
  proof (cases "first_fit (align_up n) bs")
    case None
    then show ?thesis using kmalloc_simulates [OF assms False] by simp
  next
    case (Some r)
    then show ?thesis using kmalloc_simulates [OF assms False] by (cases r) auto
  qed
qed (simp add: kmalloc_def)

section \<open>Freeing\<close>

text \<open>What \<open>kfree\<close> promises: the block becomes free and is joined with the free blocks directly
  before and after it.\<close>

definition join_next :: "u32 \<Rightarrow> u32 \<Rightarrow> blk list \<Rightarrow> blk list" where
  "join_next o1 n bs = (case bs of
     (o2, m, u) # bs' \<Rightarrow> if u then (o1, n, False) # bs else (o1, n + (16 + m), False) # bs'
   | [] \<Rightarrow> [(o1, n, False)])"

definition coalesce :: "blk list \<Rightarrow> u32 \<Rightarrow> u32 \<Rightarrow> blk list \<Rightarrow> blk list" where
  "coalesce xs o1 n ys = (case rev xs of
     (p, m, u) # xs' \<Rightarrow> if u then xs @ join_next o1 n ys else rev xs' @ join_next p (m + (16 + n)) ys
   | [] \<Rightarrow> join_next o1 n ys)"

lemma path_hd: "path h x os END_OF_LIST \<Longrightarrow> x = hd (os @ [END_OF_LIST])"
  by (cases os) auto

lemma insert_block_inv:
  assumes inv: "heap_inv h (xs @ (off, n, True) # ys)" 
    and same: "hbase h1 = hbase h" "hsize h1 = hsize h" "free_head h1 = free_head h"
      "\<And>o1 k u. (o1, k, u) \<in> set (xs @ (off, n, True) # ys) \<Longrightarrow> hdr_at h1 o1 = hdr_at h o1"
    and s: "used_bytes (st h1) = used_bytes (st h) - n" "free_bytes (st h1) = free_bytes (st h) + n"
      "total_bytes (st h1) = total_bytes (st h)"
    and h2: "h2 = put_hdr h1 off ((hdr_at h1 off)\<lparr>magic := MAGIC_FREE, used := 0\<rparr>)"
    and h3: "h3 = put_hdr h2 off ((hdr_at h2 off)\<lparr>next_off := hd (free_offs ys @ [END_OF_LIST])\<rparr>)"
    and h4: "h4 = link_from h3 (last (END_OF_LIST # free_offs xs)) off"
  shows "heap_inv h4 (xs @ (off, n, False) # ys)"
proof -
  let ?prev = "last (END_OF_LIST # free_offs xs)"
  note D = heap_invD [OF inv, of off n True, simplified]
  note F = heap_inv_free_offs [OF inv, simplified]
  note t = heap_inv_tiles [OF inv]
  have offn: "off \<notin> set (free_offs xs)" "off \<notin> set (free_offs ys)"
    using tiles_other [OF t] by (fastforce simp: free_offs_def)+
  have prev: "?prev = END_OF_LIST \<or> ?prev \<in> set (free_offs xs)" by simp
  then have pal: "?prev = END_OF_LIST \<or> 16 dvd unat ?prev" using F(3) by blast
  have pne: "?prev \<noteq> off" using prev D(4) offn by auto
  have hoff: "hdr_at h4 off = (hdr_at h off)\<lparr>magic := MAGIC_FREE, used := 0,
      next_off := hd (free_offs ys @ [END_OF_LIST])\<rparr>" "hdr_at h3 off = hdr_at h4 off"
    using D(1) pal pne same(4) [of off n True] by (auto simp: h2 h3 h4)
  have other: "o1 \<noteq> off \<and> hdr_at h3 o1 = hdr_at h o1 \<and> same_block (hdr_at h4 o1) (hdr_at h o1)"
    if "(o1, k, u) \<in> set (xs @ ys)" for o1 k u
  proof -
    have "o1 \<noteq> off" using tiles_other [OF t that] .
    moreover have "16 dvd unat o1" using heap_invD(1) [OF inv, of o1 k u] that by auto
    moreover have "hdr_at h1 o1 = hdr_at h o1" using same(4) [of o1 k u] that by auto
    ultimately show ?thesis using D(1) pal by (auto simp: h2 h3 h4 same_block_def)
  qed
  have "hdr_ok h4 b" if b: "b \<in> set (xs @ (off, n, False) # ys)" for b
  proof (cases "b = (off, n, False)")
    case True
    then show ?thesis using D(5) hoff by (simp add: hdr_ok_def)
  next
    case False
    obtain o1 k u where o1: "b = (o1, k, u)" by (cases b)
    then have i: "(o1, k, u) \<in> set (xs @ ys)" using False b by auto
    then have "hdr_ok h b" using inv o1 by (auto simp: heap_inv_def)
    then show ?thesis using other [OF i] o1 by (simp add: hdr_ok_def same_block_def)
  qed
  moreover have "path h4 (free_head h4) (free_offs xs @ off # free_offs ys) END_OF_LIST"
  proof -
    have eq: "path h3 x (free_offs zs) z = path h x (free_offs zs) z" if "zs = xs \<or> zs = ys" for x z zs
      by (rule path_cong_free) (use other that in \<open>simp, blast\<close>)
    obtain y where p: "path h3 (free_head h) (free_offs xs) y" "path h3 y (free_offs ys) END_OF_LIST"
      using inv eq by (auto simp: heap_inv_def path_append)
    have "free_head h3 = free_head h" using same by (simp add: h2 h3)
    moreover have "path h3 off (off # free_offs ys) END_OF_LIST"
      using hoff path_hd [OF p(2)] p(2) by simp
    ultimately show ?thesis
      unfolding h4 using p(1) F D(1) offn by (intro path_link_from) auto
  qed
  moreover have "unat (used_bytes (st h4)) = used_sum (xs @ (off, n, False) # ys)"
  proof -
    have "unat (used_bytes (st h)) = used_sum xs + unat n + used_sum ys"
      using inv by (simp add: heap_inv_def)
    then show ?thesis
      using s(1) by (simp add: h2 h3 h4 unat_sub word_le_nat_alt)
  qed
  moreover have "used_bytes (st h4) + free_bytes (st h4) = total_bytes (st h4)"
      "total_bytes (st h4) = hsize h - 16"
    using inv by (auto simp: h2 h3 h4 s heap_inv_def)
  moreover have "hbase h4 = hbase h" "hsize h4 = hsize h" using same by (auto simp: h2 h3 h4)
  moreover have "tiles 0 (xs @ (off, n, False) # ys) (unat (hsize h))" using t by (simp add: tiles_append)
  ultimately show ?thesis using inv by (simp add: heap_inv_def)
qed

lemma merge_blocks_inv:
  assumes inv: "heap_inv h (xs @ (p, a, False) # (q, b, False) # ys)" (is "heap_inv h ?bs")
    and h': "h' = put_hdr h p ((hdr_at h p)\<lparr>bsize := a + (16 + b), next_off := next_off (hdr_at h q)\<rparr>)"
  shows "heap_inv h' (xs @ (p, a + (16 + b), False) # ys)"
proof -
  note t = heap_inv_tiles [OF inv]
  note D = heap_invD [OF inv, of p a False, simplified]
  have q: "unat p + 16 + unat a = unat q" "16 dvd unat b"
    "unat q + 16 + unat b \<le> unat (hsize h)" "unat (hsize h) < 2 ^ 31"
    using inv heap_invD [OF inv, of q b False] by (auto simp: heap_inv_def tiles_append)
  then have n: "unat (a + (16 + b)) = unat a + 16 + unat b"
    by (simp add: unat_add_small)
  have ts: "tiles 0 xs (unat p)" "tiles (unat p + 16 + (unat a + 16 + unat b)) ys (unat (hsize h))"
    using t by (auto simp: tiles_append algebra_simps)
  then have t': "tiles 0 (xs @ (p, a + (16 + b), False) # ys) (unat (hsize h))"
    using n q(2) D(2) by (simp add: tiles_append)
  have other: "hdr_at h' o1 = hdr_at h o1" if "(o1, k, u) \<in> set (xs @ ys)" for o1 k u
    using tiles_other [OF t' that] heap_invD(1) [OF inv, of o1 k u] that D(1) by (auto simp: h')
  have hp: "hdr_at h' p = (hdr_at h p)\<lparr>bsize := a + (16 + b), next_off := next_off (hdr_at h q)\<rparr>"
    using D(1) by (simp add: h')
  have "hdr_ok h' c" if c: "c \<in> set (xs @ (p, a + (16 + b), False) # ys)" for c
  proof (cases "c = (p, a + (16 + b), False)")
    case True
    then show ?thesis using D(5) hp by (simp add: hdr_ok_def)
  next
    case False
    obtain o1 k u where o1: "c = (o1, k, u)" by (cases c)
    then have i: "(o1, k, u) \<in> set (xs @ ys)" using False c by auto
    then have "hdr_ok h c" using inv o1 by (auto simp: heap_inv_def)
    then show ?thesis using other [OF i] o1 by (simp add: hdr_ok_def)
  qed
  moreover have "path h' (free_head h) (free_offs xs @ p # free_offs ys) END_OF_LIST"
  proof -
    have eq: "path h' x (free_offs zs) z = path h x (free_offs zs) z" if "zs = xs \<or> zs = ys" for x z zs
      by (rule path_cong_free) (use other that in \<open>simp, blast\<close>)
    show ?thesis using inv eq hp by (auto simp: heap_inv_def path_append)
  qed
  ultimately show ?thesis using inv t' by (simp add: heap_inv_def h')
qed

lemma merge_next_inv:
  assumes inv: "heap_inv h (xs @ (off, n, False) # ys)"
  shows "heap_inv (merge_next h off) (xs @ join_next off n ys)"
proof -
  have D: "hdr_ok h (off, n, False)" "unat off + 16 + unat n \<le> unat (hsize h)"
    using heap_invD [OF inv, of off n False] by auto
  have nx: "next_off (hdr_at h off) = hd (free_offs ys @ [END_OF_LIST])"
    using inv path_hd by (auto simp: heap_inv_def path_append)
  show ?thesis
  proof (cases ys)
    case Nil
    then show ?thesis using inv nx by (simp add: merge_next_def join_next_def)
  next
    case (Cons y ys')
    obtain o2 m u where y: "y = (o2, m, u)" by (cases y)
    have o2: "unat o2 = unat off + 16 + unat n" and t: "tiles (unat o2 + 16 + unat m) ys' (unat (hsize h))"
      using inv Cons y by (auto simp: heap_inv_def tiles_append)
    show ?thesis
    proof (cases u)
      case False
      have "o2 \<noteq> END_OF_LIST" "hdr_ok h (o2, m, False)"
        using heap_invD [OF inv, of o2 m False] Cons y False by auto
      then have "merge_next h off = put_hdr h off
          ((hdr_at h off)\<lparr>bsize := n + (16 + m), next_off := next_off (hdr_at h o2)\<rparr>)"
        using nx D(1) Cons y False o2
        by (simp add: merge_next_def hdr_ok_def HDR_SIZE_def Let_def)
      then show ?thesis
        using merge_blocks_inv [of h xs off n o2 m ys'] inv Cons y False
        by (simp add: join_next_def)
    next
      case True
      have "next_off (hdr_at h off) = END_OF_LIST \<or> unat (next_off (hdr_at h off)) \<noteq> unat o2"
      proof (cases "free_offs ys'")
        case (Cons o3 os)
        then obtain k where "(o3, k, False) \<in> set ys'" using free_offs_split [of ys' "[]"] by fastforce
        then show ?thesis using tiles_bounds [OF t] nx \<open>ys = _\<close> y True Cons by fastforce
      qed (use nx Cons y True in simp)
      then have "merge_next h off = h"
        using D(1) o2 by (auto simp: merge_next_def Let_def hdr_ok_def HDR_SIZE_def)
      then show ?thesis using inv Cons y True by (simp add: join_next_def)
    qed
  qed
qed

lemma merge_prev_inv:
  assumes inv: "heap_inv h (xs @ (off, n, False) # ys)"
    and prev: "prev = last (END_OF_LIST # free_offs xs)"
    and m: "(if prev = END_OF_LIST then (h, off) else merge_prev h prev off) = (h1, off1)"
  shows "heap_inv (merge_next h1 off1) (coalesce xs off n ys)"
proof (cases xs rule: rev_cases)
  case Nil
  then show ?thesis using merge_next_inv [OF inv] m prev by (simp add: coalesce_def)
next
  case (snoc xs' x)
  obtain p a u where x: "x = (p, a, u)" by (cases x)
  have D: "p \<noteq> END_OF_LIST" "hdr_ok h (p, a, u)" "hdr_ok h (off, n, False)"
    using heap_invD [OF inv, of p a u] heap_invD [OF inv, of off n False] snoc x by auto
  have p: "unat p + 16 + unat a = unat off" and t: "tiles 0 xs' (unat p)"
    using inv snoc x by (auto simp: heap_inv_def tiles_append)
  show ?thesis
  proof (cases u)
    case False
    then have "prev = p" using prev snoc x by simp
    then have h1: "h1 = put_hdr h p ((hdr_at h p)\<lparr>bsize := a + (16 + n),
        next_off := next_off (hdr_at h off)\<rparr>)" and "off1 = p"
      using m p D by (auto simp: merge_prev_def Let_def HDR_SIZE_def hdr_ok_def)
    have "heap_inv h1 (xs' @ (p, a + (16 + n), False) # ys)"
      using merge_blocks_inv [OF _ h1, of xs' ys] inv snoc x False by simp
    then show ?thesis
      using merge_next_inv \<open>off1 = p\<close> snoc x False by (simp add: coalesce_def)
  next
    case True
    have "prev = END_OF_LIST \<or> unat prev + 16 + unat (bsize (hdr_at h prev)) \<noteq> unat off"
    proof (cases "prev = END_OF_LIST")
      case False
      then have "prev \<in> set (free_offs xs')" using prev snoc x True by (auto split: if_splits)
      then obtain k where k: "(prev, k, False) \<in> set xs'" by (auto simp: free_offs_def)
      then have "bsize (hdr_at h prev) = k"
        using heap_invD(5) [OF inv, of prev k False] snoc by (simp add: hdr_ok_def)
      then show ?thesis using tiles_bounds [OF t k] p by simp
    qed simp
    then have "h1 = h" "off1 = off"
      using m by (auto simp: merge_prev_def Let_def HDR_SIZE_def split: if_splits)
    then show ?thesis using merge_next_inv [OF inv] snoc x True by (simp add: coalesce_def)
  qed
qed

lemma find_slot_tiles:
  assumes inv: "heap_inv h (xs @ (off, n, True) # ys)" and "free_head h2 = free_head h"
    and same: "\<And>o1 k u. (o1, k, u) \<in> set (xs @ ys) \<Longrightarrow> hdr_at h2 o1 = hdr_at h o1"
  shows "find_slot h2 off END_OF_LIST (free_head h2) =
    Some (last (END_OF_LIST # free_offs xs), hd (free_offs ys @ [END_OF_LIST]))"
proof -
  have "path h2 (free_head h) (free_offs (xs @ ys)) END_OF_LIST =
      path h (free_head h) (free_offs (xs @ ys)) END_OF_LIST"
    by (rule path_cong_free) (use same in blast)
  then have p: "path h2 (free_head h2) (free_offs (xs @ ys)) END_OF_LIST"
    using inv assms(2) by (simp add: heap_inv_def)
  have t: "tiles 0 xs (unat off)" "tiles (unat off + 16 + unat n) ys (unat (hsize h))"
    using inv by (auto simp: heap_inv_def tiles_append)
  have x: "\<forall>o1 \<in> set (free_offs xs). o1 < off"
    using tiles_bounds [OF t(1)] by (fastforce simp: free_offs_def word_less_nat_alt)
  have y: "\<forall>o1 \<in> set (free_offs ys). \<not> o1 < off"
    using tiles_bounds [OF t(2)] by (fastforce simp: free_offs_def word_less_nat_alt)
  have "takeWhile (\<lambda>o1. o1 < off) (free_offs ys) = []"
    "dropWhile (\<lambda>o1. o1 < off) (free_offs ys) = free_offs ys"
    using y by (cases "free_offs ys"; simp)+
  then have "takeWhile (\<lambda>o1. o1 < off) (free_offs (xs @ ys)) = free_offs xs"
    "dropWhile (\<lambda>o1. o1 < off) (free_offs (xs @ ys)) = free_offs ys"
    using x by (simp_all add: takeWhile_append2 dropWhile_append2)
  then show ?thesis
    using find_slot_path [OF p, of off END_OF_LIST] heap_inv_free_offs(2) [OF inv] by simp
qed

lemma keeps_used_hdr:
  assumes "tiles 0 bs e" and "(off, n, u) \<in> set bs"
  shows "keeps_used h (put_hdr h off x) bs"
proof (rule keeps_used_put_hdr)
  fix o2 m assume "(o2, m, True) \<in> set bs"
  then show "unat off + 16 \<le> unat o2 + 16 \<or> unat o2 + 16 + unat m \<le> unat off"
    using tiles_apart [OF assms] by fastforce
qed

lemma keeps_used_merge:
  assumes "tiles 0 bs e" and "(off, n, u) \<in> set bs" and "prev = END_OF_LIST \<or> prev \<in> set (free_offs bs)"
    and m: "(if prev = END_OF_LIST then (h, off) else merge_prev h prev off) = (h1, off1)"
  shows "keeps_used h (merge_next h1 off1) bs"
proof -
  obtain k v where o1: "(off1, k, v) \<in> set bs" and h1: "keeps_used h h1 bs"
  proof (cases "h1 = h \<and> off1 = off")
    case False
    then have "off1 = prev" "prev \<noteq> END_OF_LIST" and "\<exists>x. h1 = put_hdr h prev x"
      using m by (auto simp: merge_prev_def Let_def split: if_splits)
    moreover from this(2) obtain k where "(prev, k, False) \<in> set bs"
      using assms(3) by (auto simp: free_offs_def)
    ultimately show ?thesis using that keeps_used_hdr [OF assms(1)] by blast
  qed (use that assms(2) in auto)
  have "keeps_used h1 (merge_next h1 off1) bs"
    using keeps_used_hdr [OF assms(1) o1] by (simp add: merge_next_def Let_def)
  with h1 show ?thesis by (rule keeps_used_trans)
qed

abbreviation poisoned :: "u32 \<Rightarrow> u32 \<Rightarrow> heap \<Rightarrow> heap" where
  "poisoned off n h \<equiv> release_payload (hdr_addr h off + HDR_SIZE) n h"

lemma release_payload_hmem:
  "hmem (release_payload p n h) = store_bytes (hmem h) p (replicate (unat n) POISON_BYTE)"
  by (simp add: release_payload_def memguard_poison_free_def memset_at_eq Let_def)

lemma release_payload_fields [simp]:
  "hbase (release_payload p n h) = hbase h" "hsize (release_payload p n h) = hsize h"
  "free_head (release_payload p n h) = free_head h"
  "errors (st (release_payload p n h)) = errors (st h)"
  "used_bytes (st (release_payload p n h)) = used_bytes (st h) - n"
  "free_bytes (st (release_payload p n h)) = free_bytes (st h) + n"
  "total_bytes (st (release_payload p n h)) = total_bytes (st h)"
  by (simp_all add: release_payload_def memguard_poison_free_def Let_def)

lemma hdr_at_poisoned:
  assumes "tiles 0 bs e" and "(off, n, True) \<in> set bs" and "(o1, k, u) \<in> set bs"
  shows "hdr_at (poisoned off n h) o1 = hdr_at h o1"
proof -
  have "unat o1 + 16 \<le> unat off + 16 \<or> unat off + 16 + unat n \<le> unat o1"
    using tiles_apart [OF assms] by auto
  then show ?thesis
    by (auto simp: hdr_at_def release_payload_hmem hdr_addr_def HDR_SIZE_def load_store_other)
qed

lemma keeps_used_poisoned:
  assumes "tiles 0 (xs @ (off, n, True) # ys) e"
  shows "keeps_used h (poisoned off n h) (xs @ ys)"
proof -
  have "payload (poisoned off n h) o1 k = payload h o1 k" if i: "(o1, k, True) \<in> set (xs @ ys)" for o1 k
  proof -
  have "o1 \<noteq> off" using tiles_other [OF assms i] .
  then have "unat off + 16 + unat n \<le> unat o1 \<or> unat o1 + 16 + unat k \<le> unat off"
    using tiles_apart [OF assms, of off n True o1 k True] i by auto
  then show ?thesis
    by (auto simp: payload_def release_payload_hmem hdr_addr_def HDR_SIZE_def load_store_other)
  qed
  then show ?thesis by (auto simp: keeps_used_def)
qed

lemma kfree_offset:
  fixes b off :: u32
  shows "ucast (of_nat (unat b + unat off + 16) - ucast b - 16 :: u64) = off"
proof -
  have "(of_nat (unat b + unat off + 16) :: u64) - ucast b - 16 = ucast off"
    by (simp add: unat_ucast_simps)
  then show ?thesis by (auto intro: bit_word_eqI simp: bit_simps)
qed

lemma sint_nonneg: "unat x < 2 ^ 31 \<Longrightarrow> 0 \<le> sint x" for x :: u32
proof -
  assume "unat x < 2 ^ 31"
  then have "uint x < 2 ^ 31" by (metis nat_int of_nat_less_iff of_nat_numeral of_nat_power uint_nat)
  then have "sint x = uint x"
    unfolding sint_uint by (intro signed_take_bit_int_eq_self) (simp_all add: order_trans [of _ 0])
  then show "0 \<le> sint x" by simp
qed

lemma merge_hsize:
  "(if prev = END_OF_LIST then (h, off) else merge_prev h prev off) = (h1, off1) \<Longrightarrow>
    hsize (merge_next h1 off1) = hsize h"
  by (auto simp: merge_prev_def merge_next_def Let_def split: if_splits)

lemma merge_magic:
  assumes "16 dvd unat off" and "prev = END_OF_LIST \<or> 16 dvd unat prev"
    and "magic (hdr_at h off) = MAGIC_FREE"
    and "(if prev = END_OF_LIST then (h, off) else merge_prev h prev off) = (h1, off1)"
  shows "magic (hdr_at (merge_next h1 off1) off) = MAGIC_FREE"
  using assms by (auto simp: merge_prev_def merge_next_def Let_def split: if_splits)

lemma kfree_simulates:
  assumes inv: "heap_inv h (xs @ (off, n, True) # ys)" (is "heap_inv h ?bs")
    and ptr: "ptr = hdr_addr h off + HDR_SIZE"
  shows "\<exists>h'. kfree ptr h = Some h' \<and> heap_inv h' (coalesce xs off n ys) \<and>
    keeps_used h h' (xs @ ys) \<and> magic (hdr_at h' off) = MAGIC_FREE \<and> hsize h' = hsize h \<and>
    load_bytes (hmem h') ptr (unat n) = replicate (unat n) POISON_BYTE"
proof -
  note t = heap_inv_tiles [OF inv]
  have i: "(off, n, True) \<in> set ?bs" by simp
  note D = heap_invD [OF inv i]
  let ?prev = "last (END_OF_LIST # free_offs xs)"
  let ?walk = "hd (free_offs ys @ [END_OF_LIST])"
  define h1 where "h1 = poisoned off n h"
  define h2 where "h2 = put_hdr h1 off ((hdr_at h1 off)\<lparr>magic := MAGIC_FREE, used := 0\<rparr>)"
  define h3 where "h3 = put_hdr h2 off ((hdr_at h2 off)\<lparr>next_off := ?walk\<rparr>)"
  define h4 where "h4 = link_from h3 ?prev off"
  obtain h5 off5 where m: "(if ?prev = END_OF_LIST then (h4, off) else merge_prev h4 ?prev off) = (h5, off5)"
    by force
  have same: "hdr_at h1 o1 = hdr_at h o1" if "(o1, k, u) \<in> set ?bs" for o1 k u
    unfolding h1_def by (rule hdr_at_poisoned [OF t i that])
  have hb: "hbase h1 = hbase h" "hsize h1 = hsize h" "free_head h1 = free_head h"
    "used_bytes (st h1) = used_bytes (st h) - n" "free_bytes (st h1) = free_bytes (st h) + n"
    "total_bytes (st h1) = total_bytes (st h)" by (simp_all add: h1_def)
  have inv4: "heap_inv h4 (xs @ (off, n, False) # ys)"
    by (rule insert_block_inv [OF inv hb(1-3) same hb(4-6) h2_def h3_def h4_def])
  then have inv6: "heap_inv (merge_next h5 off5) (coalesce xs off n ys)"
    by (rule merge_prev_inv [OF _ refl m])
  have slot: "find_slot h2 off END_OF_LIST (free_head h2) = Some (?prev, ?walk)"
  proof (rule find_slot_tiles [OF inv])
    fix o1 k u assume o1: "(o1, k, u) \<in> set (xs @ ys)"
    then show "hdr_at h2 o1 = hdr_at h o1"
      using same [of o1 k u] tiles_other [OF t o1] heap_invD(1) [OF inv, of o1 k u] D(1)
      by (auto simp: h2_def)
  qed (simp add: h2_def hb)
  have c: "bsize (hdr_at h off) = n" "magic (hdr_at h off) = MAGIC_USED" "used (hdr_at h off) \<noteq> 0"
    using D(5) by (simp_all add: hdr_ok_def)
  have lt: "\<not> hsize h \<le> off" "\<not> sint off < 0" "ptr \<noteq> 0"
    using D(3) inv sint_nonneg [of off]
    by (auto simp: word_le_nat_alt ptr hdr_addr_def HDR_SIZE_def heap_inv_def)
  have off: "ucast (of_nat ptr - ucast (hbase h) - 16 :: u64) = off"
    unfolding ptr hdr_addr_def HDR_SIZE_def by (rule kfree_offset)
  have "insert_free h2 off ?prev ?walk = merge_next h5 off5"
    using m unfolding insert_free_def Let_def h3_def [symmetric] h4_def [symmetric]
    by (simp only: prod.case)
  moreover have "kfree ptr h = Some (insert_free h2 off ?prev ?walk)"
    using lt c slot unfolding kfree_def Let_def off
    by (simp only: h1_def [folded ptr, symmetric] h2_def [symmetric] c if_False if_True
        bind.simps prod.case refl de_Morgan_disj simp_thms)
  ultimately have kf: "kfree ptr h = Some (merge_next h5 off5)" by simp
  have K: "keeps_used h1 (merge_next h5 off5) ?bs"
  proof -
    have pm: "?prev = END_OF_LIST \<or> ?prev \<in> set (free_offs ?bs)" by auto
    have "keeps_used h1 h2 ?bs" unfolding h2_def by (rule keeps_used_hdr [OF t i])
    moreover have "keeps_used h2 h3 ?bs" unfolding h3_def by (rule keeps_used_hdr [OF t i])
    moreover have "keeps_used h3 h4 ?bs"
      unfolding h4_def by (rule keeps_used_link_from [OF t pm])
    ultimately show ?thesis
      using keeps_used_merge [OF t i pm m] by (rule keeps_used_trans [OF _ keeps_used_trans [OF _ keeps_used_trans]])
  qed
  have "keeps_used h h1 (xs @ ys)"
    unfolding h1_def by (rule keeps_used_poisoned [OF t])
  then have "keeps_used h (merge_next h5 off5) (xs @ ys)"
    by (rule keeps_used_trans) (rule keeps_used_subset [OF K], auto)
  moreover have "payload (merge_next h5 off5) off n = replicate (unat n) POISON_BYTE"
    using keeps_usedD [OF K i]
    by (simp add: h1_def payload_def release_payload_hmem hdr_addr_def load_store_same)
  then have "load_bytes (hmem (merge_next h5 off5)) ptr (unat n) = replicate (unat n) POISON_BYTE"
    using K by (simp add: payload_def hdr_addr_def ptr keeps_used_def h1_def)
  moreover have "magic (hdr_at (merge_next h5 off5) off) = MAGIC_FREE"
  proof (rule merge_magic [OF D(1) _ _ m])
    have "?prev = END_OF_LIST \<or> ?prev \<in> set (free_offs ?bs)" by simp
    then show "?prev = END_OF_LIST \<or> 16 dvd unat ?prev"
      using heap_inv_free_offs(3) [OF inv] by blast
    show "magic (hdr_at h4 off) = MAGIC_FREE"
      using heap_invD(5) [OF inv4, of off n False] by (simp add: hdr_ok_def)
  qed
  moreover have "hsize (merge_next h5 off5) = hsize h"
    using merge_hsize [OF m] by (simp add: h4_def h3_def h2_def h1_def)
  ultimately show ?thesis using inv6 kf by blast
qed

text \<open>A pointer whose header is not that of a block in use is refused.\<close>

lemma kfree_refuses:
  assumes "ptr = hdr_addr h off + HDR_SIZE" and "magic (hdr_at h off) \<noteq> MAGIC_USED"
  shows "kfree ptr h = Some (h\<lparr>st := (st h)\<lparr>errors := errors (st h) + 1\<rparr>\<rparr>)"
proof -
  have "ucast (of_nat ptr - ucast (hbase h) - 16 :: u64) = off"
    unfolding assms hdr_addr_def HDR_SIZE_def by (rule kfree_offset)
  then show ?thesis using assms by (simp add: kfree_def Let_def HDR_SIZE_def)
qed

section \<open>The heap stays coalesced\<close>

fun separated :: "blk list \<Rightarrow> bool" where
  "separated ((o1, n, u) # (o2, m, v) # bs) \<longleftrightarrow> (u \<or> v) \<and> separated ((o2, m, v) # bs)"
| "separated _ \<longleftrightarrow> True"

lemma separated_Cons:
  "separated ((o1, n, u) # bs) \<longleftrightarrow> separated bs \<and> (bs = [] \<or> u \<or> snd (snd (hd bs)))"
  by (cases bs) auto

lemma separated_append:
  "separated (xs @ ys) \<longleftrightarrow> separated xs \<and> separated ys \<and>
     (xs \<noteq> [] \<and> ys \<noteq> [] \<longrightarrow> snd (snd (last xs)) \<or> snd (snd (hd ys)))"
proof (induction xs)
  case (Cons x xs)
  obtain o1 n u where "x = (o1, n, u)" by (cases x)
  with Cons show ?case by (cases xs) (auto simp: separated_Cons)
qed simp

lemma separated_first_fit:
  assumes "separated bs" and "first_fit need bs = Some (cur, bs')"
  shows "separated bs'"
proof -
  obtain xs m ys where "bs = xs @ (cur, m, False) # ys" "bs' = xs @ carve need cur m @ ys"
    using first_fit_Some [OF assms(2)] by blast
  then show ?thesis using assms(1) by (auto simp: separated_append separated_Cons carve_def)
qed

lemma separated_join_next:
  "separated ys \<Longrightarrow> separated (join_next o1 n ys) \<and> hd (join_next o1 n ys) =
     (o1, snd (hd (join_next o1 n ys))) \<and> join_next o1 n ys \<noteq> []"
  by (auto simp: join_next_def separated_Cons split: list.split prod.split)

lemma separated_coalesce:
  assumes "separated (xs @ (off, n, True) # ys)"
  shows "separated (coalesce xs off n ys)"
proof (cases xs rule: rev_cases)
  case Nil
  then show ?thesis using assms separated_join_next by (simp add: coalesce_def separated_Cons)
next
  case (snoc xs' x)
  obtain p a u where "x = (p, a, u)" by (cases x)
  then show ?thesis
    using assms snoc separated_join_next [of ys]
    by (cases u) (auto simp: coalesce_def separated_append separated_Cons)
qed

section \<open>Start-up\<close>

lemma heap_init_inv:
  assumes "0 < unat base" "unat base \<le> 2 ^ 32 - 16" and "16 \<le> unat sz" "unat sz \<le> 2 ^ 31 - 16"
    and "used_bytes (st h) = 0"
  shows "heap_inv (snd (heap_init base sz h)) [(0, align_up sz - 16, False)]"
proof -
  have s: "unat (align_up sz) = (unat sz + 15) div 16 * 16" "unat (align_up base) = (unat base + 15) div 16 * 16"
    using assms by (simp_all add: unat_align_up)
  have sz: "16 \<le> unat (align_up sz)" "unat (align_up sz) < 2 ^ 31"
    using assms(3,4) unfolding s by (auto simp: div_le_dividend)
  have b: "align_up base \<noteq> 0"
    using assms(1) s(2) by (auto simp: unat_eq_0 [symmetric])
  have n: "unat (align_up sz - 16) = unat (align_up sz) - 16" "16 dvd unat (align_up sz) - 16"
    using sz by (auto simp: unat_sub word_le_nat_alt dvd_diff_nat)
  then show ?thesis
    using sz b assms(5)
    by (simp add: heap_init_def heap_inv_def Let_def hdr_ok_def)
qed

section \<open>Allocator traces\<close>

text \<open>Every use of the heap by a client that frees only live pointers and writes only within the
  bytes it asked for: the heap, and the live allocations with their requested sizes.\<close>

inductive heap_reach :: "heap \<Rightarrow> (nat \<times> u32) set \<Rightarrow> bool" where
  boot: "0 < unat base \<Longrightarrow> unat base \<le> 2 ^ 32 - 16 \<Longrightarrow> 16 \<le> unat sz \<Longrightarrow> unat sz \<le> 2 ^ 31 - 16 \<Longrightarrow>
    heap_reach (snd (heap_init base sz (heap_boot\<lparr>hmem := m\<rparr>))) {}"
| alloc: "heap_reach h L \<Longrightarrow> 0 < unat sz \<Longrightarrow> unat sz \<le> 2 ^ 32 - 16 \<Longrightarrow> kmalloc sz h = Some (p, h') \<Longrightarrow>
    heap_reach h' (if p = 0 then L else insert (p, sz) L)"
| free: "heap_reach h L \<Longrightarrow> (p, sz) \<in> L \<Longrightarrow> kfree p h = Some h' \<Longrightarrow> heap_reach h' (L - {(p, sz)})"
| store: "heap_reach h L \<Longrightarrow> (p, sz) \<in> L \<Longrightarrow> i + length xs \<le> unat sz \<Longrightarrow>
    heap_reach (h\<lparr>hmem := store_bytes (hmem h) (p + i) xs\<rparr>) L"

definition live_ok :: "heap \<Rightarrow> blk list \<Rightarrow> (nat \<times> u32) set \<Rightarrow> bool" where
  "live_ok h bs L \<longleftrightarrow>
     (\<forall>p sz. (p, sz) \<in> L \<longrightarrow>
        (\<exists>o1 n. p = hdr_addr h o1 + HDR_SIZE \<and> (o1, n, True) \<in> set bs \<and> unat sz \<le> unat n)) \<and>
     (\<forall>p s1 s2. (p, s1) \<in> L \<longrightarrow> (p, s2) \<in> L \<longrightarrow> s1 = s2)"

lemma hdr_addr_inj [simp]: "hdr_addr h o1 = hdr_addr h o2 \<longleftrightarrow> o1 = o2"
  by (simp add: hdr_addr_def)

lemma live_okE:
  assumes "live_ok h bs L" and "(p, sz) \<in> L"
  obtains off n where "p = hdr_addr h off + HDR_SIZE" "(off, n, True) \<in> set bs" "unat sz \<le> unat n"
  using assms unfolding live_ok_def by blast

lemma live_ok_unique: "live_ok h bs L \<Longrightarrow> (p, s1) \<in> L \<Longrightarrow> (p, s2) \<in> L \<Longrightarrow> s1 = s2"
  unfolding live_ok_def by blast

lemma live_ok_alloc:
  assumes ok: "live_ok h bs L" and t: "tiles 0 bs e"
    and fit: "first_fit (align_up sz) bs = Some (cur, bs')" and sz: "unat sz \<le> 2 ^ 32 - 16"
    and h': "hbase h' = hbase h"
  shows "live_ok h' bs' (insert (hdr_addr h cur + HDR_SIZE, sz) L)"
proof -
  obtain xs m ys where bs: "bs = xs @ (cur, m, False) # ys" and room: "unat m \<ge> unat (align_up sz) + 16"
    and bs': "bs' = xs @ carve (align_up sz) cur m @ ys"
    using first_fit_Some [OF fit] by blast
  have need: "unat sz \<le> unat (align_up sz)" using sz by (simp add: unat_align_up)
  have old: "(o1, n, True) \<in> set bs' \<and> o1 \<noteq> cur" if "(o1, n, True) \<in> set bs" for o1 n
    using that tiles_other [OF t [unfolded bs], of o1 n True] by (auto simp: bs bs')
  have new: "\<exists>n. (cur, n, True) \<in> set bs' \<and> unat sz \<le> unat n"
    by (rule exI [of _ "if unat m \<ge> unat (align_up sz) + 32 then align_up sz else m"])
       (use need room in \<open>auto simp: bs' carve_def\<close>)
  have ad: "hdr_addr h' = hdr_addr h" using h' by (simp add: hdr_addr_def fun_eq_iff)
  have fresh: "(hdr_addr h cur + HDR_SIZE, s2) \<notin> L" for s2
  proof
    assume "(hdr_addr h cur + HDR_SIZE, s2) \<in> L"
    then show False using live_okE [OF ok] old by (metis add_right_cancel hdr_addr_inj)
  qed
  have "\<exists>o1 n. p = hdr_addr h' o1 + HDR_SIZE \<and> (o1, n, True) \<in> set bs' \<and> unat s1 \<le> unat n"
    if "(p, s1) \<in> insert (hdr_addr h cur + HDR_SIZE, sz) L" for p s1
  proof (cases "(p, s1) \<in> L")
    case True
    then obtain o1 n1 where "p = hdr_addr h o1 + HDR_SIZE" "(o1, n1, True) \<in> set bs" "unat s1 \<le> unat n1"
      by (rule live_okE [OF ok])
    then show ?thesis using old ad by metis
  qed (use that new ad in auto)
  moreover have "s1 = s2" if "(p, s1) \<in> insert (hdr_addr h cur + HDR_SIZE, sz) L"
    "(p, s2) \<in> insert (hdr_addr h cur + HDR_SIZE, sz) L" for p s1 s2
    using that fresh live_ok_unique [OF ok] by auto
  ultimately show ?thesis unfolding live_ok_def by blast
qed

lemma coalesce_used:
  "(o1, n, True) \<in> set (coalesce xs off m ys) \<longleftrightarrow> (o1, n, True) \<in> set (xs @ ys)"
proof (cases xs rule: rev_cases)
  case Nil
  then show ?thesis by (auto simp: coalesce_def join_next_def split: list.split)
next
  case (snoc xs' x)
  obtain p a u where "x = (p, a, u)" by (cases x)
  then show ?thesis using snoc
    by (cases u) (auto simp: coalesce_def join_next_def split: list.split)
qed

lemma live_ok_free:
  assumes ok: "live_ok h (xs @ (off, n, True) # ys) L" and "(hdr_addr h off + HDR_SIZE, sz) \<in> L"
    and h': "hbase h' = hbase h"
  shows "live_ok h' (coalesce xs off n ys) (L - {(hdr_addr h off + HDR_SIZE, sz)})"
proof -
  have ad: "hdr_addr h' = hdr_addr h" using h' by (simp add: hdr_addr_def fun_eq_iff)
  have "\<exists>o1 n1. p = hdr_addr h' o1 + HDR_SIZE \<and> (o1, n1, True) \<in> set (coalesce xs off n ys) \<and>
      unat s1 \<le> unat n1" if ps: "(p, s1) \<in> L - {(hdr_addr h off + HDR_SIZE, sz)}" for p s1
  proof -
    obtain o1 n1 where o1: "p = hdr_addr h o1 + HDR_SIZE" "unat s1 \<le> unat n1"
      "(o1, n1, True) \<in> set (xs @ (off, n, True) # ys)"
      using live_okE [OF ok, of p s1] ps by blast
    have "o1 \<noteq> off" using live_ok_unique [OF ok _ assms(2)] ps o1(1) by auto
    then show ?thesis using o1 ad by (auto simp: coalesce_used)
  qed
  then show ?thesis using ok unfolding live_ok_def by blast
qed

lemma heap_inv_store:
  assumes inv: "heap_inv h bs" and i: "(off, n, True) \<in> set bs" and len: "k + length xs \<le> unat n"
  shows "heap_inv (h\<lparr>hmem := store_bytes (hmem h) (hdr_addr h off + HDR_SIZE + k) xs\<rparr>) bs"
    (is "heap_inv ?h bs")
proof -
  have same: "hdr_at ?h o1 = hdr_at h o1" if "(o1, m, u) \<in> set bs" for o1 m u
  proof -
    have "unat o1 + 16 \<le> unat off + 16 + k \<or> unat off + 16 + k + length xs \<le> unat o1"
      using tiles_apart [OF heap_inv_tiles [OF inv] i that] len by auto
    then show ?thesis by (auto simp: hdr_at_def hdr_addr_def HDR_SIZE_def load_store_other)
  qed
  have "path ?h (free_head h) (free_offs bs) END_OF_LIST = path h (free_head h) (free_offs bs) END_OF_LIST"
    by (rule path_cong_free) (rule same)
  moreover have "hdr_ok ?h b" if "b \<in> set bs" for b
    using inv that same by (cases b) (auto simp: hdr_ok_def heap_inv_def)
  ultimately show ?thesis using inv by (simp add: heap_inv_def)
qed

lemma heap_reach_inv:
  "heap_reach h L \<Longrightarrow> \<exists>bs. heap_inv h bs \<and> separated bs \<and> live_ok h bs L"
proof (induction rule: heap_reach.induct)
  case (boot base sz m)
  have "heap_inv (snd (heap_init base sz (heap_boot\<lparr>hmem := m\<rparr>))) [(0, align_up sz - 16, False)]"
    by (rule heap_init_inv [OF boot]) (simp add: heap_boot_def)
  then show ?case by (auto simp: live_ok_def)
next
  case (alloc h L sz p h')
  then obtain bs where inv: "heap_inv h bs" and sep: "separated bs" and ok: "live_ok h bs L" by blast
  have nz: "sz \<noteq> 0" using alloc.hyps(2) by auto
  note sim = kmalloc_simulates [OF inv nz]
  show ?case
  proof (cases "first_fit (align_up sz) bs")
    case None
    then have "p = 0" "heap_inv h' bs" "hdr_addr h' = hdr_addr h"
      using sim inv alloc.hyps(4) by (auto simp: hdr_addr_def fun_eq_iff)
    then show ?thesis using sep ok by (auto simp: live_ok_def)
  next
    case (Some r)
    obtain cur bs' where r: "r = (cur, bs')" by (cases r)
    then have p: "p = hdr_addr h cur + HDR_SIZE" "heap_inv h' bs'" "hbase h' = hbase h"
      using sim Some alloc.hyps(4) by (auto simp: keeps_used_def)
    then have "p \<noteq> 0" by (simp add: HDR_SIZE_def)
    moreover have "live_ok h' bs' (insert (p, sz) L)"
      using live_ok_alloc [OF ok heap_inv_tiles [OF inv]] Some r p alloc.hyps(3) by simp
    moreover have "separated bs'" using separated_first_fit [OF sep] Some r by simp
    ultimately show ?thesis using p(2) by auto
  qed
next
  case (free h L p sz h')
  then obtain bs where inv: "heap_inv h bs" and sep: "separated bs" and ok: "live_ok h bs L" by blast
  obtain xs off n ys where bs: "bs = xs @ (off, n, True) # ys" and p: "p = hdr_addr h off + HDR_SIZE"
    using live_okE [OF ok free.hyps(2)] by (metis in_set_conv_decomp)
  have "heap_inv h' (coalesce xs off n ys)" "hbase h' = hbase h"
    using kfree_simulates [OF inv [unfolded bs] p] free.hyps(3) by (auto simp: keeps_used_def)
  then show ?case
    using live_ok_free [OF ok [unfolded bs]] separated_coalesce [OF sep [unfolded bs]] free.hyps(2) p
    by blast
next
  case (store h L p sz i xs)
  then obtain bs where inv: "heap_inv h bs" and sep: "separated bs" and ok: "live_ok h bs L" by blast
  obtain off n where p: "p = hdr_addr h off + HDR_SIZE" and b: "(off, n, True) \<in> set bs"
    and n: "unat sz \<le> unat n" by (rule live_okE [OF ok store.hyps(2)])
  have "live_ok (h\<lparr>hmem := store_bytes (hmem h) (p + i) xs\<rparr>) bs L"
    using ok by (simp add: live_ok_def hdr_addr_def)
  then show ?case using heap_inv_store [OF inv b, of i xs] store.hyps(3) n sep p by auto
qed

lemma heap_reach_total:
  assumes "heap_reach h L"
  shows "\<exists>p h'. kmalloc sz h = Some (p, h')" and "(p, n) \<in> L \<Longrightarrow> \<exists>h'. kfree p h = Some h'"
proof -
  obtain bs where inv: "heap_inv h bs" and ok: "live_ok h bs L" using heap_reach_inv [OF assms] by blast
  show "\<exists>p h'. kmalloc sz h = Some (p, h')"
  proof (cases "sz = 0")
    case False
    then show ?thesis
      using kmalloc_simulates [OF inv False] by (auto split: option.splits)
  qed (simp add: kmalloc_def)
  assume "(p, n) \<in> L"
  then obtain off m where p: "p = hdr_addr h off + HDR_SIZE" "(off, m, True) \<in> set bs"
    by (rule live_okE [OF ok])
  obtain xs ys where "bs = xs @ (off, m, True) # ys" using p(2) by (metis in_set_conv_decomp)
  then show "\<exists>h'. kfree p h = Some h'"
    using kfree_simulates [of h xs off m ys] inv p(1) by blast
qed

lemma load_bytes_take: "k \<le> n \<Longrightarrow> load_bytes m a k = take k (load_bytes m a n)"
  by (simp add: load_bytes_def take_map)

lemma keeps_used_live:
  assumes "keeps_used h h' bs" and "(off, n, True) \<in> set bs" and "unat sz \<le> unat n"
    and "p = hdr_addr h off + HDR_SIZE"
  shows "load_bytes (hmem h') p (unat sz) = load_bytes (hmem h) p (unat sz)"
proof -
  have "payload h' off n = payload h off n" by (rule keeps_usedD [OF assms(1,2)])
  moreover have "hbase h' = hbase h" using assms(1) by (simp add: keeps_used_def)
  ultimately have "load_bytes (hmem h') p (unat n) = load_bytes (hmem h) p (unat n)"
    using assms(4) by (simp add: payload_def hdr_addr_def)
  then show ?thesis unfolding load_bytes_take [OF assms(3)] by (rule arg_cong)
qed

lemma heap_reach_demo:
  "\<exists>h. heap_reach h {(0x100010, 24), (0x100040, 100)} \<and> hbase h = 0x100000"
proof -
  let ?h = "snd (heap_init 0x100000 0x1000 (heap_boot\<lparr>hmem := \<lambda>_. 0\<rparr>))"
  have al: "align_up 0x1000 = 0x1000" "align_up 0x100000 = 0x100000" "align_up 24 = 32" "align_up 100 = 112"
    by (simp_all add: align_up_def ALIGN_def)
  have r: "heap_reach ?h {}" by (rule heap_reach.boot) simp_all
  have b: "hbase ?h = 0x100000" by (simp add: heap_init_def Let_def al)
  have inv: "heap_inv ?h [(0, 0xff0, False)]"
    using heap_init_inv [of "0x100000" "0x1000" "heap_boot\<lparr>hmem := \<lambda>_. 0\<rparr>"]
    by (simp add: heap_boot_def al)
  have ff: "first_fit 32 [(0, 0xff0, False)] = Some (0, [(0, 32, True), (48, 0xfc0, False)])"
    by (simp add: carve_def)
  obtain h1 where k1: "kmalloc 24 ?h = Some (0x100010, h1)"
    and inv1: "heap_inv h1 [(0, 32, True), (48, 0xfc0, False)]" and b1: "hbase h1 = 0x100000"
    using kmalloc_simulates [OF inv, of 24] ff b
    by (auto simp: al hdr_addr_def HDR_SIZE_def keeps_used_def)
  have r1: "heap_reach h1 {(0x100010, 24)}"
    using heap_reach.alloc [OF r _ _ k1] by simp
  have ff2: "first_fit 112 [(0, 32, True), (48, 0xfc0, False)] =
      Some (48, [(0, 32, True), (48, 112, True), (176, 0xf40, False)])"
    by (simp add: carve_def)
  obtain h2 where k2: "kmalloc 100 h1 = Some (0x100040, h2)" and b2: "hbase h2 = 0x100000"
    using kmalloc_simulates [OF inv1, of 100] ff2 b1
    by (auto simp: al hdr_addr_def HDR_SIZE_def keeps_used_def)
  have "heap_reach h2 {(0x100040, 100), (0x100010, 24)}"
    using heap_reach.alloc [OF r1 _ _ k2] by simp
  then show ?thesis using b2 by (auto simp: insert_commute)
qed

section \<open>The heap as an allocator\<close>

lemma live_apart:
  assumes inv: "heap_inv h bs" and ok: "live_ok h bs L"
    and "(p1, s1) \<in> L" and "(p2, s2) \<in> L" and "(p1, s1) \<noteq> (p2, s2)"
  shows "p1 + unat s1 \<le> p2 \<or> p2 + unat s2 \<le> p1"
proof -
  obtain o1 n1 where o1: "p1 = hdr_addr h o1 + HDR_SIZE" "(o1, n1, True) \<in> set bs" "unat s1 \<le> unat n1"
    by (rule live_okE [OF ok assms(3)])
  obtain o2 n2 where o2: "p2 = hdr_addr h o2 + HDR_SIZE" "(o2, n2, True) \<in> set bs" "unat s2 \<le> unat n2"
    by (rule live_okE [OF ok assms(4)])
  have "o1 \<noteq> o2" using assms(3-5) o1(1) o2(1) live_ok_unique [OF ok] by auto
  then have "unat o1 + 16 + unat n1 \<le> unat o2 \<or> unat o2 + 16 + unat n2 \<le> unat o1"
    using tiles_apart [OF heap_inv_tiles [OF inv] o1(2) o2(2)] by auto
  then show ?thesis using o1 o2 by (auto simp: hdr_addr_def HDR_SIZE_def)
qed

lemma kmalloc_keeps_live:
  assumes "heap_reach h L" and "(q, s) \<in> L"
  shows "\<exists>r h'. kmalloc n h = Some (r, h') \<and> load_bytes (hmem h') q (unat s) = load_bytes (hmem h) q (unat s)"
proof -
  obtain bs where inv: "heap_inv h bs" and ok: "live_ok h bs L" using heap_reach_inv [OF assms(1)] by blast
  obtain o1 n1 where o1: "q = hdr_addr h o1 + HDR_SIZE" "(o1, n1, True) \<in> set bs" "unat s \<le> unat n1"
    by (rule live_okE [OF ok assms(2)])
  obtain r h1 where k: "kmalloc n h = Some (r, h1)" "keeps_used h h1 bs"
    using kmalloc_keeps_used [OF inv] by blast
  then show ?thesis using keeps_used_live [OF k(2) o1(2,3,1)] by blast
qed

lemma kfree_keeps_live:
  assumes "heap_reach h L" and "(q, s) \<in> L" and "(p, sz) \<in> L" and "(q, s) \<noteq> (p, sz)"
  shows "\<exists>h'. kfree p h = Some h' \<and> load_bytes (hmem h') q (unat s) = load_bytes (hmem h) q (unat s)"
proof -
  obtain bs where inv: "heap_inv h bs" and ok: "live_ok h bs L" using heap_reach_inv [OF assms(1)] by blast
  obtain o1 n1 where o1: "q = hdr_addr h o1 + HDR_SIZE" "(o1, n1, True) \<in> set bs" "unat s \<le> unat n1"
    by (rule live_okE [OF ok assms(2)])
  obtain o2 n2 where o2: "p = hdr_addr h o2 + HDR_SIZE" "(o2, n2, True) \<in> set bs" "unat sz \<le> unat n2"
    by (rule live_okE [OF ok assms(3)])
  obtain xs ys where bs: "bs = xs @ (o2, n2, True) # ys" using o2(2) by (metis in_set_conv_decomp)
  have "o1 \<noteq> o2" using assms(2-4) o1(1) o2(1) live_ok_unique [OF ok] by auto
  then have i: "(o1, n1, True) \<in> set (xs @ ys)" using o1(2) bs by auto
  obtain h2 where f: "kfree p h = Some h2" "keeps_used h h2 (xs @ ys)"
    using kfree_simulates [OF inv [unfolded bs] o2(1)] by blast
  then show ?thesis using keeps_used_live [OF f(2) i o1(3,1)] by blast
qed

lemma kmalloc_fresh:
  assumes "heap_reach h L" and "n \<noteq> 0" and "kmalloc n h = Some (p, h')" and "p \<noteq> 0"
  shows "p \<notin> fst ` L"
proof
  assume "p \<in> fst ` L"
  then obtain s where ps: "(p, s) \<in> L" by auto
  obtain bs where inv: "heap_inv h bs" and ok: "live_ok h bs L" using heap_reach_inv [OF assms(1)] by blast
  obtain o1 n1 where o1: "p = hdr_addr h o1 + HDR_SIZE" "(o1, n1, True) \<in> set bs"
    by (rule live_okE [OF ok ps])
  obtain cur bs' where ff: "first_fit (align_up n) bs = Some (cur, bs')" "p = hdr_addr h cur + HDR_SIZE"
    using kmalloc_simulates [OF inv assms(2)] assms(3,4) by (auto split: option.splits)
  obtain xs m ys where bs: "bs = xs @ (cur, m, False) # ys" using first_fit_Some [OF ff(1)] by blast
  have "o1 = cur" using o1(1) ff(2) by simp
  then show False
    using o1(2) tiles_other [OF heap_inv_tiles [OF inv, unfolded bs], of o1 n1 True] by (auto simp: bs)
qed

lemma load_store_bytes: "load_bytes (store_bytes m a xs) a (length xs) = xs"
  by (rule nth_equalityI) (auto simp: load_bytes_def store_bytes_def)

lemma load_store_apart:
  "q + n \<le> a \<or> a + length xs \<le> q \<Longrightarrow> load_bytes (store_bytes m a xs) q n = load_bytes m q n"
  by (auto simp: load_bytes_def store_bytes_def)

definition heap_store :: "nat \<Rightarrow> bytes \<Rightarrow> heap \<Rightarrow> heap" where
  "heap_store p xs h = h\<lparr>hmem := store_bytes (hmem h) p xs\<rparr>"

definition heap_load :: "nat \<Rightarrow> nat \<Rightarrow> heap \<Rightarrow> bytes" where
  "heap_load p n h = load_bytes (hmem h) p n"

interpretation kheap: allocator kmalloc kfree heap_store heap_load heap_reach
proof
  fix h L and n :: u32
  assume r: "heap_reach h L" and n: "n \<noteq> 0" "unat n \<le> 2 ^ 32 - 16"
  obtain p h' where k: "kmalloc n h = Some (p, h')" using heap_reach_total(1) [OF r] by blast
  have "heap_reach h' (if p = 0 then L else insert (p, n) L)"
    using heap_reach.alloc [OF r _ n(2) k] n(1) by (simp add: unat_gt_0)
  moreover have "p \<noteq> 0 \<longrightarrow> p \<notin> fst ` L" using kmalloc_fresh [OF r n(1) k] by blast
  moreover have "\<forall>(q, s) \<in> L. heap_load q (unat s) h' = heap_load q (unat s) h"
    using kmalloc_keeps_live [OF r, of _ _ n] k by (fastforce simp: heap_load_def)
  ultimately show "\<exists>p h'. kmalloc n h = Some (p, h') \<and> heap_reach h' (if p = 0 then L else insert (p, n) L) \<and>
      (p \<noteq> 0 \<longrightarrow> p \<notin> fst ` L) \<and> (\<forall>(q, s) \<in> L. heap_load q (unat s) h' = heap_load q (unat s) h)"
    using k by blast
next
  fix h L p and n :: u32
  assume r: "heap_reach h L" and p: "(p, n) \<in> L"
  obtain h' where f: "kfree p h = Some h'" using heap_reach_total(2) [OF r p] by blast
  have "\<forall>(q, s) \<in> L - {(p, n)}. heap_load q (unat s) h' = heap_load q (unat s) h"
    using kfree_keeps_live [OF r _ p] f by (fastforce simp: heap_load_def)
  then show "\<exists>h'. kfree p h = Some h' \<and> heap_reach h' (L - {(p, n)}) \<and>
      (\<forall>(q, s) \<in> L - {(p, n)}. heap_load q (unat s) h' = heap_load q (unat s) h)"
    using heap_reach.free [OF r p f] f by blast
next
  fix h L p and n :: u32 and xs :: bytes
  assume r: "heap_reach h L" and p: "(p, n) \<in> L" and xs: "length xs \<le> unat n"
  obtain bs where inv: "heap_inv h bs" and ok: "live_ok h bs L" using heap_reach_inv [OF r] by blast
  have "heap_load q (unat s) (heap_store p xs h) = heap_load q (unat s) h" if "(q, s) \<in> L - {(p, n)}" for q s
    using live_apart [OF inv ok _ p, of q s] that xs
    by (auto simp: heap_load_def heap_store_def intro!: load_store_apart)
  then show "heap_reach (heap_store p xs h) L \<and> heap_load p (length xs) (heap_store p xs h) = xs \<and>
      (\<forall>(q, s) \<in> L - {(p, n)}. heap_load q (unat s) (heap_store p xs h) = heap_load q (unat s) h)"
    using heap_reach.store [OF r p, of 0 xs] xs by (auto simp: heap_load_def heap_store_def load_store_bytes)
qed

section \<open>Properties\<close>





text \<open>C3: freeing a live allocation returns, fills its bytes with the poison pattern, and a second
  free of the same pointer is refused: it only counts an error.\<close>

theorem kfree_poisons_and_refuses_double:
  assumes "heap_reach h L" and "(p, s) \<in> L"
  shows "\<exists>h'. kfree p h = Some h' \<and> load_bytes (hmem h') p (unat s) = replicate (unat s) POISON_BYTE \<and>
    kfree p h' = Some (h'\<lparr>st := (st h')\<lparr>errors := errors (st h') + 1\<rparr>\<rparr>)"
proof -
  obtain bs where inv: "heap_inv h bs" and ok: "live_ok h bs L" using heap_reach_inv [OF assms(1)] by blast
  obtain off n where o1: "p = hdr_addr h off + HDR_SIZE" "(off, n, True) \<in> set bs" "unat s \<le> unat n"
    by (rule live_okE [OF ok assms(2)])
  obtain xs ys where bs: "bs = xs @ (off, n, True) # ys" using o1(2) by (metis in_set_conv_decomp)
  obtain h' where h': "kfree p h = Some h'" "keeps_used h h' (xs @ ys)"
    "magic (hdr_at h' off) = MAGIC_FREE"
    "load_bytes (hmem h') p (unat n) = replicate (unat n) POISON_BYTE"
    using kfree_simulates [OF inv [unfolded bs] o1(1)] by blast
  have "load_bytes (hmem h') p (unat s) = replicate (unat s) POISON_BYTE"
    unfolding load_bytes_take [OF o1(3)] h'(4) using o1(3) by (simp add: min_def)
  moreover have "p = hdr_addr h' off + HDR_SIZE"
    using h'(2) o1(1) by (simp add: keeps_used_def hdr_addr_def)
  then have "kfree p h' = Some (h'\<lparr>st := (st h')\<lparr>errors := errors (st h') + 1\<rparr>\<rparr>)"
    by (rule kfree_refuses) (simp add: h'(3) MAGIC_FREE_def MAGIC_USED_def)
  ultimately show ?thesis using h'(1) by blast
qed

theorem kfree_poisons_and_refuses_double_witness:
  "\<exists>h L. heap_reach h L \<and> (0x100010, 24) \<in> L \<and>
    (\<exists>h'. kfree 0x100010 h = Some h' \<and> load_bytes (hmem h') 0x100010 24 = replicate 24 POISON_BYTE)"
proof -
  obtain h where h: "heap_reach h {(0x100010, 24), (0x100040, 100)}" using heap_reach_demo by blast
  then show ?thesis
    using kfree_poisons_and_refuses_double [OF h, of "0x100010" 24]
    by (intro exI [of _ h] exI [of _ "{(0x100010, 24), (0x100040, 100)}"]) auto
qed

text \<open>C4: \<open>kmalloc\<close> refines the first-fit allocator on the list of blocks: it returns in every
  well-formed heap, takes the first free block with room and splits it as \<open>first_fit\<close> says, and
  counts an error and returns null exactly when no free block has room.\<close>

theorem kmalloc_refines_first_fit:
  assumes "heap_inv h bs" and "size0 \<noteq> 0"
  shows "case first_fit (align_up size0) bs of
      None \<Rightarrow> kmalloc size0 h = Some (0, h\<lparr>st := (st h)\<lparr>errors := errors (st h) + 1\<rparr>\<rparr>)
    | Some (cur, bs') \<Rightarrow> \<exists>h'. kmalloc size0 h = Some (hdr_addr h cur + HDR_SIZE, h') \<and>
        heap_inv h' bs' \<and> keeps_used h h' bs"
  using kmalloc_simulates [OF assms] by (auto split: option.splits)

lemma heap_inv_demo:
  "heap_inv (snd (heap_init 0x100000 0x1000 heap_boot)) [(0, 0xff0, False)]"
  using heap_init_inv [of "0x100000" "0x1000" heap_boot]
  by (simp add: heap_boot_def align_up_def ALIGN_def)

theorem kmalloc_refines_first_fit_witness:
  "\<exists>h'. kmalloc 24 (snd (heap_init 0x100000 0x1000 heap_boot)) = Some (0x100010, h') \<and>
    heap_inv h' [(0, 32, True), (48, 0xfc0, False)]"
  using kmalloc_refines_first_fit [OF heap_inv_demo, of 24]
  by (auto simp: align_up_def ALIGN_def carve_def hdr_addr_def HDR_SIZE_def heap_init_def Let_def)

text \<open>C5: \<open>kfree\<close> refines the release of a block in the list of blocks: the walk for the insertion
  point ends, and the freed block is joined with its free neighbours on both sides.\<close>

theorem kfree_refines_coalesce:
  assumes "heap_inv h (xs @ (off, n, True) # ys)"
  shows "\<exists>h'. kfree (hdr_addr h off + HDR_SIZE) h = Some h' \<and> heap_inv h' (coalesce xs off n ys) \<and>
    keeps_used h h' (xs @ ys)"
  using kfree_simulates [OF assms refl] by blast

theorem kfree_refines_coalesce_witness:
  "\<exists>h h'. heap_inv h [(0, 32, True), (48, 0xfc0, False)] \<and> kfree (hdr_addr h 0 + HDR_SIZE) h = Some h' \<and>
    heap_inv h' [(0, 0xff0, False)]"
proof -
  obtain h where "heap_inv h ([] @ (0, 32, True) # [(48, 0xfc0, False)])"
    using kmalloc_simulates [OF heap_inv_demo, of 24]
    by (auto simp: align_up_def ALIGN_def carve_def)
  then show ?thesis
    using kfree_refines_coalesce [of h "[]" 0 32 "[(48, 0xfc0, False)]"]
    by (auto simp: coalesce_def join_next_def)
qed



end
