(* ===== verification/Clock.thy ===== *)
theory Clock
  imports Prelude
begin

text \<open>
  \<open>init/time.c\<close>: the tick counter. \<open>sleep_ms\<close> halts the processor until the deadline; in
  the model each \<open>cpu_halt\<close> returns after one timer interrupt, which runs \<open>time_tick\<close>, and
  the fuel is the number of interrupts that arrive. \<open>None\<close>: still halted after the last one.
\<close>

record clock =
  g_ticks :: u64
  g_tick_hz :: u32

definition clock_boot :: clock where
  "clock_boot = \<lparr>g_ticks = 0, g_tick_hz = 100\<rparr>"

definition time_init :: "u32 \<Rightarrow> clock \<Rightarrow> clock" where
  "time_init hz c = (if hz \<noteq> 0 then c\<lparr>g_tick_hz := hz\<rparr> else c)\<lparr>g_ticks := 0\<rparr>"

definition time_tick :: "clock \<Rightarrow> clock" where
  "time_tick c = c\<lparr>g_ticks := g_ticks c + 1\<rparr>"

definition uptime_ms :: "clock \<Rightarrow> u64" where
  "uptime_ms c = (g_ticks c * 1000) div ucast (g_tick_hz c)"

definition sleep_deadline :: "u64 \<Rightarrow> clock \<Rightarrow> u64" where
  "sleep_deadline ms c = g_ticks c + (ms * ucast (g_tick_hz c) + 999) div 1000"

fun halt_until :: "nat \<Rightarrow> u64 \<Rightarrow> clock \<Rightarrow> clock option" where
  "halt_until fuel deadline c =
     (if g_ticks c < deadline
      then (case fuel of 0 \<Rightarrow> None | Suc fuel \<Rightarrow> halt_until fuel deadline (time_tick c))
      else Some c)"

declare halt_until.simps [simp del]

definition sleep_ms :: "nat \<Rightarrow> u64 \<Rightarrow> clock \<Rightarrow> clock option" where
  "sleep_ms fuel ms c = halt_until fuel (sleep_deadline ms c) c"

lemma halt_until_reaches:
  assumes "unat deadline - unat (g_ticks c) \<le> fuel"
  shows "halt_until fuel deadline c = Some (c\<lparr>g_ticks := max (g_ticks c) deadline\<rparr>)"
  using assms
proof (induction fuel arbitrary: c)
  case 0
  then show ?case
    by (subst halt_until.simps) (auto simp: word_less_nat_alt word_le_nat_alt max_def)
next
  case (Suc fuel)
  show ?case
  proof (cases "g_ticks c < deadline")
    case True
    then have lt: "unat (g_ticks c) < unat deadline" by (simp add: word_less_nat_alt)
    have "unat (g_ticks c) + unat (1 :: u64) < 2 ^ LENGTH(64)"
      using lt unsigned_less [of deadline, where 'a = nat] by simp
    then have tick: "unat (g_ticks c + 1) = Suc (unat (g_ticks c))"
      by (subst unat_add_small) auto
    then have "max (g_ticks c + 1) deadline = deadline"
      using lt by (simp add: max_def word_le_nat_alt)
    with Suc tick True show ?thesis
      by (subst halt_until.simps) (auto simp: time_tick_def max_def)
  next
    case False
    then show ?thesis by (subst halt_until.simps) (auto simp: max_def)
  qed
qed

text \<open>How much time a sleep takes, as long as nothing overflows: the number of ticks is
  \<open>ms * hz / 1000\<close> rounded up.\<close>

lemma sleep_deadline_unat:
  assumes "unat ms * unat (g_tick_hz c) + 999 + unat (g_ticks c) < 2 ^ 64"
  shows "unat (sleep_deadline ms c) =
           unat (g_ticks c) + (unat ms * unat (g_tick_hz c) + 999) div 1000"
proof -
  have hz: "unat (ucast (g_tick_hz c) :: u64) = unat (g_tick_hz c)"
    by simp
  have m: "unat (ms * ucast (g_tick_hz c)) = unat ms * unat (g_tick_hz c)"
    using assms by (subst unat_mult_small) (simp_all add: hz)
  then have a: "unat (ms * ucast (g_tick_hz c) + 999) = unat ms * unat (g_tick_hz c) + 999"
    using assms by (subst unat_add_small) simp_all
  have "(unat ms * unat (g_tick_hz c) + 999) div 1000 \<le> unat ms * unat (g_tick_hz c) + 999"
    by (rule div_le_dividend)
  then show ?thesis
    unfolding sleep_deadline_def using assms
    by (subst unat_add_small) (simp_all add: unat_div a)
qed



end
