(* ===== verification/Printk.thy ===== *)
theory Printk
  imports Kstring
begin

text \<open>
  \<open>lib/printk.c\<close>: the kernel's \<open>printf\<close>. The variable arguments are a list of 64-bit slots,
  as \<open>va_arg\<close> reads them on the LP64 targets (x86_64, arm64): a number, or a pointer to a
  string object with its address. The console that \<open>kprintf\<close> and \<open>kputs\<close> print to is
  another component; here they end in the text handed to it.
\<close>

record outbuf =
  ob_p :: "bytes option"
  ob_size :: u32
  ob_len :: u32

datatype slot = SNum u64 | SStr u64 bytes

text \<open>The calls of \<open>kprintf\<close> and \<open>kputs\<close> a component has made, in order: the format without a
  line break at its end, and the arguments.\<close>

type_synonym messages = "(string \<times> slot list) list"

text \<open>A C string constant, and a string argument of a message, whose address is not null.\<close>

definition cstring :: "string \<Rightarrow> bytes" where
  "cstring s = map of_char s @ [0]"

definition str_arg :: "bytes \<Rightarrow> slot" where
  "str_arg s = SStr 1 s"

definition ob_store :: "outbuf \<Rightarrow> u8 \<Rightarrow> outbuf option" where
  "ob_store ob c = (case ob_p ob of
      None \<Rightarrow> Some ob
    | Some b \<Rightarrow> do { b \<leftarrow> splice b (unat (ob_len ob)) [c]; Some (ob\<lparr>ob_p := Some b\<rparr>) })"

definition ob_putc :: "outbuf \<Rightarrow> u8 \<Rightarrow> outbuf option" where
  "ob_putc ob c = do {
     ob \<leftarrow> (if ob_p ob \<noteq> None
           then if ob_len ob + 1 < ob_size ob then ob_store ob c
                else if ob_len ob < ob_size ob then ob_store ob 0
                else Some ob
           else Some ob);
     Some (ob\<lparr>ob_len := ob_len ob + 1\<rparr>) }"

fun ob_puts :: "outbuf \<Rightarrow> bytes \<Rightarrow> outbuf option" where
  "ob_puts ob [] = Some ob"
| "ob_puts ob (c # s) = do { ob \<leftarrow> ob_putc ob c; ob_puts ob s }"

text \<open>\<open>for (k = 0; k < n; k++) ob_putc(ob, c)\<close>\<close>

fun ob_pad :: "outbuf \<Rightarrow> u8 \<Rightarrow> nat \<Rightarrow> outbuf option" where
  "ob_pad ob c 0 = Some ob"
| "ob_pad ob c (Suc n) = do { ob \<leftarrow> ob_putc ob c; ob_pad ob c n }"

text \<open>\<open>while (n < width--) ob_putc(ob, ' ')\<close>\<close>

function pad_while :: "outbuf \<Rightarrow> int \<Rightarrow> int \<Rightarrow> outbuf option" where
  "pad_while ob n width =
     (if n < width then do { ob \<leftarrow> ob_putc ob 32; pad_while ob n (width - 1) } else Some ob)"
  by pat_completeness auto
termination
  by (relation "measure (\<lambda>(_, n, w). nat (w - n))") auto

declare pad_while.simps [simp del]

definition emit_str :: "outbuf \<Rightarrow> bytes \<Rightarrow> int \<Rightarrow> bool \<Rightarrow> outbuf option" where
  "emit_str ob s width ljust = do {
     n \<leftarrow> k_strlen s;
     ob \<leftarrow> (if \<not> ljust then pad_while ob (int n) width else Some ob);
     ob \<leftarrow> ob_puts ob (take n s);
     if ljust then pad_while ob (int n) width else Some ob }"

definition num_digit :: "bool \<Rightarrow> u64 \<Rightarrow> u8" where
  "num_digit upper d =
     (if d < 10 then 48 + ucast d else (if upper then 65 else 97) + ucast (d - 10))"

text \<open>The \<open>do\<close>-\<open>while\<close> that fills \<open>tmp[70]\<close>, lowest digit first.\<close>

function num_tmp :: "u64 \<Rightarrow> u64 \<Rightarrow> bool \<Rightarrow> bytes \<Rightarrow> bytes option" where
  "num_tmp val base upper tmp =
     (if length tmp < 70
      then let tmp = tmp @ [num_digit upper (val mod base)]; val = val div base
           in if val \<noteq> 0 then num_tmp val base upper tmp else Some tmp
      else None)"
  by pat_completeness auto
termination
  by (relation "measure (\<lambda>(v, b, u, t). 70 - length t)") auto

declare num_tmp.simps [simp del]

definition emit_num :: "outbuf \<Rightarrow> u64 \<Rightarrow> u64 \<Rightarrow> bool \<Rightarrow> bool \<Rightarrow> int \<Rightarrow> bool \<Rightarrow> bool \<Rightarrow> outbuf option" where
  "emit_num ob val base upper is_signed width zero_pad ljust = do {
     let neg = (is_signed \<and> sint val < 0);
     chk (neg \<longrightarrow> val \<noteq> 0x8000000000000000);
     let val = (if neg then - val else val);
     tmp \<leftarrow> num_tmp val base upper [];
     let tmp = (if neg then tmp @ [45] else tmp);
     let total = int (length tmp);
     let pad = (if width > total then width - total else 0);
     ob \<leftarrow> (if \<not> ljust \<and> \<not> zero_pad then ob_pad ob 32 (nat pad) else Some ob);
     (ob, pad) \<leftarrow> (if \<not> ljust \<and> zero_pad \<and> neg
                  then do { ob \<leftarrow> ob_putc ob 45; Some (ob, pad - 1) } else Some (ob, pad));
     ob \<leftarrow> (if \<not> ljust \<and> zero_pad then ob_pad ob 48 (nat pad) else Some ob);
     ob \<leftarrow> ob_puts ob (rev tmp);
     if ljust then ob_pad ob 32 (nat (pad - (if neg then 1 else 0))) else Some ob }"

definition emit_ptr :: "outbuf \<Rightarrow> u64 \<Rightarrow> outbuf option" where
  "emit_ptr ob v = do {
     ob \<leftarrow> ob_putc ob 48;
     ob \<leftarrow> ob_putc ob 120;
     emit_num ob v 16 False False 16 True False }"

text \<open>\<open>va_arg\<close>\<close>

fun va_next :: "slot list \<Rightarrow> (slot \<times> slot list) option" where
  "va_next [] = None"
| "va_next (a # ap) = Some (a, ap)"

fun slot_bits :: "slot \<Rightarrow> u64" where
  "slot_bits (SNum n) = n"
| "slot_bits (SStr a _) = a"

fun slot_str :: "slot \<Rightarrow> bytes option" where
  "slot_str (SNum _) = None"
| "slot_str (SStr _ s) = Some s"

definition null_word :: bytes where
  "null_word = [40, 110, 117, 108, 108, 41, 0]"

text \<open>Flags, width and length modifiers of a conversion; each returns the rest of the format.\<close>

fun parse_flags :: "bytes \<Rightarrow> bool \<Rightarrow> bool \<Rightarrow> (bool \<times> bool \<times> bytes) option" where
  "parse_flags [] ljust zero_pad = None"
| "parse_flags (c # f) ljust zero_pad =
     (if c = 45 then parse_flags f True zero_pad
      else if c = 48 then parse_flags f ljust True
      else Some (ljust, zero_pad, c # f))"

fun parse_width :: "bytes \<Rightarrow> int \<Rightarrow> (int \<times> bytes) option" where
  "parse_width [] width = None"
| "parse_width (c # f) width =
     (if 48 \<le> c \<and> c \<le> 57
      then do { let w = width * 10 + (uint c - 48);
                chk (int_ok (width * 10) \<and> int_ok w);
                parse_width f w }
      else Some (width, c # f))"

fun parse_lmod :: "bytes \<Rightarrow> nat \<Rightarrow> (nat \<times> bytes) option" where
  "parse_lmod [] lmod = None"
| "parse_lmod (c # f) lmod =
     (if c = 108 \<or> c = 122 then parse_lmod f (Suc lmod) else Some (lmod, c # f))"

text \<open>The \<open>switch\<close> over the conversion character.\<close>

definition convert ::
  "outbuf \<Rightarrow> u8 \<Rightarrow> bool \<Rightarrow> bool \<Rightarrow> int \<Rightarrow> nat \<Rightarrow> slot list \<Rightarrow> (outbuf \<times> slot list) option" where
  "convert ob c ljust zero_pad width lmod ap =
     (if c = 37 then do { ob \<leftarrow> ob_putc ob 37; Some (ob, ap) }
      else if c = 99 then do {
        (a, ap) \<leftarrow> va_next ap;
        ob \<leftarrow> emit_str ob [ucast (slot_bits a), 0] width ljust;
        Some (ob, ap) }
      else if c = 115 then do {
        (a, ap) \<leftarrow> va_next ap;
        (s, ap) \<leftarrow> (if slot_bits a \<noteq> 0
                    then do { (b, ap) \<leftarrow> va_next ap; s \<leftarrow> slot_str b; Some (s, ap) }
                    else Some (null_word, ap));
        ob \<leftarrow> emit_str ob s width ljust;
        Some (ob, ap) }
      else if c = 100 \<or> c = 105 then do {
        (a, ap) \<leftarrow> va_next ap;
        let v = (if lmod \<ge> 1 then slot_bits a else scast (ucast (slot_bits a) :: u32));
        ob \<leftarrow> emit_num ob v 10 False True width zero_pad ljust;
        Some (ob, ap) }
      else if c = 117 then do {
        (a, ap) \<leftarrow> va_next ap;
        let v = (if lmod \<ge> 1 then slot_bits a else ucast (ucast (slot_bits a) :: u32));
        ob \<leftarrow> emit_num ob v 10 False False width zero_pad ljust;
        Some (ob, ap) }
      else if c = 120 \<or> c = 88 \<or> c = 111 then do {
        (a, ap) \<leftarrow> va_next ap;
        let v = (if lmod = 0 then slot_bits a AND 0xFFFFFFFF else slot_bits a);
        ob \<leftarrow> emit_num ob v (if c = 111 then 8 else 16) (c = 88) False width zero_pad ljust;
        Some (ob, ap) }
      else if c = 112 then do {
        (a, ap) \<leftarrow> va_next ap;
        ob \<leftarrow> emit_ptr ob (slot_bits a);
        Some (ob, ap) }
      else do {
        ob \<leftarrow> ob_putc ob 37;
        ob \<leftarrow> ob_putc ob c;
        Some (ob, ap) })"

lemma parse_flags_length: "parse_flags f l z = Some (l', z', f') \<Longrightarrow> length f' \<le> length f"
  by (induction f arbitrary: l z) (force split: if_splits)+

lemma parse_width_length: "parse_width f w = Some (w', f') \<Longrightarrow> length f' \<le> length f"
  by (induction f arbitrary: w) (force simp: Let_def bind_simps split: if_splits)+

lemma parse_lmod_length: "parse_lmod f n = Some (n', f') \<Longrightarrow> length f' \<le> length f"
  by (induction f arbitrary: n) (force split: if_splits)+

function format_loop :: "outbuf \<Rightarrow> bytes \<Rightarrow> slot list \<Rightarrow> (outbuf \<times> slot list) option" where
  "format_loop ob [] ap = None"
| "format_loop ob (c # f) ap =
     (if c = 0 then Some (ob, ap)
      else if c \<noteq> 37 then do { ob \<leftarrow> ob_putc ob c; format_loop ob f ap }
      else do {
        (ljust, zero_pad, f1) \<leftarrow> parse_flags f False False;
        (width, f2) \<leftarrow> parse_width f1 0;
        (lmod, f3) \<leftarrow> parse_lmod f2 0;
        case f3 of
          [] \<Rightarrow> None
        | conv # f4 \<Rightarrow> do {
            (ob, ap) \<leftarrow> convert ob conv ljust zero_pad width lmod ap;
            format_loop ob f4 ap } })"
  by pat_completeness auto
termination
  by (relation "measure (\<lambda>(_, f, _). length f)")
    (auto dest!: parse_flags_length parse_width_length parse_lmod_length)

definition kvsnprintf :: "bytes option \<Rightarrow> u32 \<Rightarrow> bytes \<Rightarrow> slot list \<Rightarrow> (bytes option \<times> u32) option" where
  "kvsnprintf buf sz fmt ap = do {
     (ob, _) \<leftarrow> format_loop \<lparr>ob_p = buf, ob_size = sz, ob_len = 0\<rparr> fmt ap;
     case ob_p ob of
       None \<Rightarrow> Some (None, ob_len ob)
     | Some b \<Rightarrow>
         if sz \<noteq> 0 then do {
           let e = (if ob_len ob < sz then ob_len ob else sz - 1);
           b \<leftarrow> splice b (unat e) [0];
           Some (Some b, ob_len ob) }
         else Some (Some b, ob_len ob) }"

text \<open>What \<open>kprintf\<close> hands to \<open>console_print\<close>: the 512-byte stack buffer.\<close>

definition kprintf :: "bytes \<Rightarrow> bytes \<Rightarrow> slot list \<Rightarrow> bytes option" where
  "kprintf stackbuf fmt ap = do {
     (b, _) \<leftarrow> kvsnprintf (Some stackbuf) 512 fmt ap;
     b }"

section \<open>Everything is a stream of characters\<close>

lemma ob_puts_append: "ob_puts ob (xs @ ys) = do { ob \<leftarrow> ob_puts ob xs; ob_puts ob ys }"
  by (induction ob xs rule: ob_puts.induct) (auto intro!: Option.bind_cong)

lemma ob_pad_stream: "ob_pad ob c n = ob_puts ob (replicate n c)"
  by (induction ob c n rule: ob_pad.induct) (auto intro!: Option.bind_cong)

lemma pad_while_stream: "pad_while ob n width = ob_puts ob (replicate (nat (width - n)) 32)"
proof (induction ob n width rule: pad_while.induct)
  case (1 ob n width)
  show ?case
  proof (cases "n < width")
    case True
    then have "nat (width - n) = Suc (nat (width - 1 - n))" by simp
    with True 1 show ?thesis
      by (subst pad_while.simps) (auto intro!: Option.bind_cong)
  qed (subst pad_while.simps, simp)
qed

text \<open>\<open>streams f\<close>: what \<open>f\<close> does to the output buffer is to append some characters, the
  same ones whatever the buffer, or it fails on every buffer. \<open>streams_to\<close> is the same for
  a computation that also returns a value.\<close>

definition streams :: "(outbuf \<Rightarrow> outbuf option) \<Rightarrow> bool" where
  "streams f \<longleftrightarrow> (\<forall>ob. f ob = None) \<or> (\<exists>xs. \<forall>ob. f ob = ob_puts ob xs)"

definition streams_to :: "(outbuf \<Rightarrow> (outbuf \<times> 'a) option) \<Rightarrow> bool" where
  "streams_to f \<longleftrightarrow> (\<forall>ob. f ob = None) \<or>
     (\<exists>xs r. \<forall>ob. f ob = do { ob \<leftarrow> ob_puts ob xs; Some (ob, r) })"

named_theorems stream_intros "closure of the stream property"

lemma streams_puts [stream_intros]: "streams (\<lambda>ob. ob_puts ob xs)"
  by (auto simp: streams_def)

lemma streams_return [stream_intros]: "streams (\<lambda>ob. Some ob)"
  using streams_puts [of "[]"] by simp

lemma streams_putc [stream_intros]: "streams (\<lambda>ob. ob_putc ob c)"
  using streams_puts [of "[c]"] by simp

lemma streams_fail [stream_intros]: "streams (\<lambda>ob. None)"
  by (simp add: streams_def)

lemma streams_seq [stream_intros]:
  "streams f \<Longrightarrow> streams g \<Longrightarrow> streams (\<lambda>ob. do { ob \<leftarrow> f ob; g ob })"
  unfolding streams_def by (metis (no_types, lifting) Option.bind_cong bind_eq_None_conv ob_puts_append)

lemma streams_bind [stream_intros]:
  "(\<And>x. m = Some x \<Longrightarrow> streams (\<lambda>ob. f ob x)) \<Longrightarrow> streams (\<lambda>ob. do { x \<leftarrow> m; f ob x })"
  by (cases m) (auto simp: streams_def)

lemma streams_if [stream_intros]:
  "(P \<Longrightarrow> streams f) \<Longrightarrow> (\<not> P \<Longrightarrow> streams g) \<Longrightarrow> streams (\<lambda>ob. if P then f ob else g ob)"
  by (cases P) auto

lemma streams_to_return [stream_intros]: "streams_to (\<lambda>ob. Some (ob, r))"
  unfolding streams_to_def by (rule disjI2, rule exI [of _ "[]"]) auto

lemma streams_to_fail [stream_intros]: "streams_to (\<lambda>ob. None)"
  by (simp add: streams_to_def)

lemma streams_to_if [stream_intros]:
  "(P \<Longrightarrow> streams_to f) \<Longrightarrow> (\<not> P \<Longrightarrow> streams_to g) \<Longrightarrow>
    streams_to (\<lambda>ob. if P then f ob else g ob)"
  by (cases P) auto

lemma streams_to_bind [stream_intros]:
  "(\<And>x. m = Some x \<Longrightarrow> streams_to (\<lambda>ob. f ob x)) \<Longrightarrow> streams_to (\<lambda>ob. do { x \<leftarrow> m; f ob x })"
  by (cases m) (auto simp: streams_to_def)

lemma streams_to_seq:
  assumes "streams f" and "streams_to g"
  shows "streams_to (\<lambda>ob. do { ob \<leftarrow> f ob; g ob })"
proof (cases "(\<forall>ob. f ob = None) \<or> (\<forall>ob. g ob = None)")
  case True
  then have "\<forall>ob. do { ob \<leftarrow> f ob; g ob } = None" by (auto simp: bind_eq_None_conv)
  then show ?thesis unfolding streams_to_def by blast
next
  case False
  then obtain xs ys r where "\<forall>ob. f ob = ob_puts ob xs"
    "\<forall>ob. g ob = do { ob \<leftarrow> ob_puts ob ys; Some (ob, r) }"
    using assms unfolding streams_def streams_to_def by blast
  then have "\<forall>ob. do { ob \<leftarrow> f ob; g ob } = do { ob \<leftarrow> ob_puts ob (xs @ ys); Some (ob, r) }"
    by (simp add: ob_puts_append)
  then show ?thesis unfolding streams_to_def by blast
qed

lemma streams_to_seq_to:
  assumes "streams_to f" and "\<And>r. streams_to (\<lambda>ob. g ob r)"
  shows "streams_to (\<lambda>ob. do { (ob, r) \<leftarrow> f ob; g ob r })"
proof (cases "\<forall>ob. f ob = None")
  case True
  then show ?thesis unfolding streams_to_def by auto
next
  case False
  then obtain xs r where f: "\<forall>ob. f ob = do { ob \<leftarrow> ob_puts ob xs; Some (ob, r) }"
    using assms(1) unfolding streams_to_def by blast
  have "streams_to (\<lambda>ob. do { ob \<leftarrow> ob_puts ob xs; g ob r })"
    by (rule streams_to_seq [OF streams_puts assms(2)])
  then show ?thesis using f by simp
qed

lemma streams_pad_while [stream_intros]: "streams (\<lambda>ob. pad_while ob n w)"
  unfolding pad_while_stream by (rule stream_intros)

lemma streams_pad [stream_intros]: "streams (\<lambda>ob. ob_pad ob c n)"
  unfolding ob_pad_stream by (rule stream_intros)

lemma streams_emit_str [stream_intros]: "streams (\<lambda>ob. emit_str ob s width ljust)"
  unfolding emit_str_def by (intro stream_intros)

lemma streams_emit_num [stream_intros]:
  "streams (\<lambda>ob. emit_num ob v b u sg width z l)"
proof -
  have neg: "streams (\<lambda>ob. do {
      (ob, pad) \<leftarrow> (if P then do { ob \<leftarrow> ob_putc ob c; Some (ob, p1) } else Some (ob, p2));
      f ob pad })"
    if "\<And>pad. streams (\<lambda>ob. f ob pad)" for P c p1 p2 f
    using that by (cases P) (auto intro: stream_intros)
  show ?thesis
    unfolding emit_num_def Let_def by (intro stream_intros neg)
qed

lemma streams_emit_ptr [stream_intros]: "streams (\<lambda>ob. emit_ptr ob v)"
  unfolding emit_ptr_def by (intro stream_intros)

lemma streams_to_pair_bind [stream_intros]:
  "(\<And>x y. m = Some (x, y) \<Longrightarrow> streams_to (\<lambda>ob. f ob x y)) \<Longrightarrow>
    streams_to (\<lambda>ob. do { (x, y) \<leftarrow> m; f ob x y })"
  by (cases m) (auto simp: streams_to_def)

lemma streams_to_triple_bind [stream_intros]:
  "(\<And>x y z. m = Some (x, y, z) \<Longrightarrow> streams_to (\<lambda>ob. f ob x y z)) \<Longrightarrow>
    streams_to (\<lambda>ob. do { (x, y, z) \<leftarrow> m; f ob x y z })"
  by (cases m) (auto simp: streams_to_def)

lemma streams_to_convert: "streams_to (\<lambda>ob. convert ob c ljust zero_pad width lmod ap)"
  unfolding convert_def Let_def
  by (intro stream_intros streams_to_seq streams_to_pair_bind)

lemma streams_to_format_loop: "streams_to (\<lambda>ob. format_loop ob f ap)"
proof (induction f arbitrary: ap rule: length_induct)
  case (1 f)
  show ?case
  proof (cases f)
    case Nil
    then show ?thesis by (simp add: streams_to_def)
  next
    case (Cons c g)
    have IH: "streams_to (\<lambda>ob. format_loop ob h ap)" if "length h \<le> length g" for h ap
      using 1 that Cons by simp
    have body: "streams_to (\<lambda>ob. case f3 of [] \<Rightarrow> None
        | conv # f4 \<Rightarrow> do { (ob, ap) \<leftarrow> convert ob conv l z w lm ap; format_loop ob f4 ap })"
      if "length f3 \<le> length g" for f3 l z w lm
      using that by (cases f3) (auto intro!: streams_to_fail streams_to_seq_to streams_to_convert IH)
    show ?thesis
      unfolding Cons format_loop.simps
      by (intro stream_intros streams_to_seq IH body)
        (auto dest!: parse_flags_length parse_width_length parse_lmod_length)
  qed
qed

section \<open>What ends up in the buffer\<close>

lemma ob_putc_NULL: "ob_p ob = None \<Longrightarrow> ob_putc ob c = Some (ob\<lparr>ob_len := ob_len ob + 1\<rparr>)"
  by (simp add: ob_putc_def)

lemma ob_puts_NULL:
  "ob_p ob = None \<Longrightarrow> ob_puts ob xs = Some (ob\<lparr>ob_len := ob_len ob + of_nat (length xs)\<rparr>)"
  by (induction xs arbitrary: ob) (auto simp: ob_putc_NULL algebra_simps)

lemma ob_putc_buffer:
  assumes "ob_p ob = Some b" and "unat (ob_size ob) \<le> length b" and "unat (ob_len ob) + 1 < 2 ^ 32"
  shows "ob_putc ob c = Some (ob\<lparr>ob_len := ob_len ob + 1, ob_p := Some (
      if unat (ob_len ob) < unat (ob_size ob)
      then b[unat (ob_len ob) := if unat (ob_len ob) + 1 < unat (ob_size ob) then c else 0]
      else b)\<rparr>)"
proof -
  have "unat (ob_len ob + 1) = unat (ob_len ob) + 1"
    using assms(3) by (subst unat_add_small) auto
  then show ?thesis
    using assms(1,2)
    by (auto simp: ob_putc_def ob_store_def word_less_nat_alt upd_single)
qed

lemma ob_puts_buffer:
  assumes "ob_p ob = Some b" and "unat (ob_size ob) \<le> length b"
    and "unat (ob_len ob) + length xs < 2 ^ 32"
  shows "\<exists>b'. ob_puts ob xs = Some (ob\<lparr>ob_len := ob_len ob + of_nat (length xs), ob_p := Some b'\<rparr>) \<and>
    length b' = length b \<and>
    (\<forall>k < length b. b' ! k =
      (if unat (ob_len ob) \<le> k \<and> k < unat (ob_len ob) + length xs \<and> k < unat (ob_size ob)
       then if k + 1 < unat (ob_size ob) then xs ! (k - unat (ob_len ob)) else 0
       else b ! k))"
  using assms
proof (induction xs arbitrary: ob b)
  case Nil
  then show ?case by (intro exI [of _ b]) auto
next
  case (Cons c xs)
  let ?n = "unat (ob_len ob)"
  define b1 where "b1 = (if ?n < unat (ob_size ob)
      then b[?n := if ?n + 1 < unat (ob_size ob) then c else 0] else b)"
  define ob1 where "ob1 = ob\<lparr>ob_len := ob_len ob + 1, ob_p := Some b1\<rparr>"
  have put: "ob_putc ob c = Some ob1"
    using ob_putc_buffer [OF Cons.prems(1,2), of c] Cons.prems(3) by (simp add: ob1_def b1_def)
  have n1: "unat (ob_len ob + 1) = ?n + 1"
    using Cons.prems(3) by (subst unat_add_small) auto
  have "ob_p ob1 = Some b1" "unat (ob_size ob1) \<le> length b1" "unat (ob_len ob1) + length xs < 2 ^ 32"
    using Cons.prems(2,3) n1 by (simp_all add: ob1_def b1_def)
  from Cons.IH [OF this] obtain b' where b':
    "ob_puts ob1 xs = Some (ob1\<lparr>ob_len := ob_len ob1 + of_nat (length xs), ob_p := Some b'\<rparr>)"
    "length b' = length b1"
    "\<forall>k < length b1. b' ! k =
      (if unat (ob_len ob1) \<le> k \<and> k < unat (ob_len ob1) + length xs \<and> k < unat (ob_size ob1)
       then if k + 1 < unat (ob_size ob1) then xs ! (k - unat (ob_len ob1)) else 0
       else b1 ! k)"
    by blast
  have "b' ! k = (if ?n \<le> k \<and> k < ?n + length (c # xs) \<and> k < unat (ob_size ob)
       then if k + 1 < unat (ob_size ob) then (c # xs) ! (k - ?n) else 0 else b ! k)"
    if k: "k < length b" for k
  proof (cases "k = ?n")
    case True
    then show ?thesis using b'(3) k n1 by (auto simp: ob1_def b1_def)
  next
    case False
    then have "(c # xs) ! (k - ?n) = xs ! (k - (?n + 1))" if "?n \<le> k"
      using that False by (simp add: nth_Cons')
    with False b'(3) k n1 show ?thesis by (auto simp: ob1_def b1_def)
  qed
  with put b'(1,2) show ?case
    by (intro exI [of _ b']) (auto simp: ob1_def b1_def algebra_simps)
qed



text \<open>\<open>%05d\<close> of a negative number prints the sign twice.\<close>

theorem kvsnprintf_percent_05d:
  "kvsnprintf (Some (replicate 8 0)) 8 [37, 48, 53, 100, 0] [SNum (- 7)] =
     Some (Some [45, 48, 48, 45, 55, 0, 0, 0], 5)"
  by code_simp

text \<open>\<open>%s\<close> takes two arguments: it tests one pointer and prints the next, and with one argument
  it reads past the argument list.\<close>

theorem kvsnprintf_percent_s:
  "kvsnprintf (Some (replicate 4 0)) 4 [37, 115, 0] [SStr 4096 [97, 0], SStr 8192 [98, 0]] =
     Some (Some [98, 0, 0, 0], 1) \<and>
   kvsnprintf (Some (replicate 4 0)) 4 [37, 115, 0] [SStr 4096 [97, 0]] = None"
  by code_simp

end
