(* ===== verification/Ext4_Csum.thy ===== *)
theory Ext4_Csum
  imports Prelude
begin

text \<open>
  The checksums of \<open>fs/ext4_csum.c\<close>: the table-driven CRC32C and CRC16 of the driver, their tables
  as \<open>build_tables\<close> fills them, and the bit-serial registers they stand for.
\<close>

section \<open>Definitions\<close>

definition CRC32C_POLY :: u32 where "CRC32C_POLY = 0x82F63B78"

definition crc32c_shift :: "u32 \<Rightarrow> u32" where
  "crc32c_shift c = (if c AND 1 \<noteq> 0 then drop_bit 1 c XOR CRC32C_POLY else drop_bit 1 c)"

definition crc16_shift :: "u16 \<Rightarrow> u16" where
  "crc16_shift r = (if r AND 0x8000 \<noteq> 0 then push_bit 1 r XOR 0x1021 else push_bit 1 r)"

definition crc32c_entry :: "nat \<Rightarrow> u32" where
  "crc32c_entry i = (crc32c_shift ^^ 8) (of_nat i)"

definition crc16_entry :: "nat \<Rightarrow> u16" where
  "crc16_entry i = (crc16_shift ^^ 8) (of_nat i * 256)"

record csum_tables =
  crc32c_table :: "u32 list"
  crc16_table :: "u16 list"
  tables_ready :: bool

definition tables_boot :: csum_tables where
  "tables_boot = \<lparr>crc32c_table = replicate 256 0, crc16_table = replicate 256 0, tables_ready = False\<rparr>"

definition build_tables :: "csum_tables \<Rightarrow> csum_tables" where
  "build_tables t = t\<lparr>crc32c_table := map crc32c_entry [0..<256],
     crc16_table := map crc16_entry [0..<256], tables_ready := True\<rparr>"

definition crc32c_byte :: "u32 list \<Rightarrow> u32 \<Rightarrow> u8 \<Rightarrow> u32" where
  "crc32c_byte tab crc b = drop_bit 8 crc XOR tab ! unat ((crc XOR ucast b) AND 0xFF)"

definition crc16_byte :: "u16 list \<Rightarrow> u16 \<Rightarrow> u8 \<Rightarrow> u16" where
  "crc16_byte tab crc b = tab ! unat ((drop_bit 8 crc XOR ucast b) AND 0xFF) XOR push_bit 8 crc"

definition ext4_crc32c_st :: "u32 \<Rightarrow> bytes \<Rightarrow> u32 \<Rightarrow> csum_tables \<Rightarrow> (u32 \<times> csum_tables) option" where
  "ext4_crc32c_st crc buf len t = do {
     let t = (if tables_ready t then t else build_tables t);
     p \<leftarrow> slice buf 0 (unat len);
     Some (foldl (crc32c_byte (crc32c_table t)) crc p, t) }"

definition ext4_crc16_st :: "u16 \<Rightarrow> bytes \<Rightarrow> u32 \<Rightarrow> csum_tables \<Rightarrow> (u16 \<times> csum_tables) option" where
  "ext4_crc16_st crc buf len t = do {
     let t = (if tables_ready t then t else build_tables t);
     p \<leftarrow> slice buf 0 (unat len);
     Some (foldl (crc16_byte (crc16_table t)) crc p, t) }"

text \<open>The tables never change once built, so the rest of the driver is modelled with the checksum
  as a function of the register and the bytes.\<close>

definition ext4_crc32c :: "u32 \<Rightarrow> bytes \<Rightarrow> u32" where
  "ext4_crc32c crc p = foldl (crc32c_byte (map crc32c_entry [0..<256])) crc p"

definition ext4_crc16 :: "u16 \<Rightarrow> bytes \<Rightarrow> u16" where
  "ext4_crc16 crc p = foldl (crc16_byte (map crc16_entry [0..<256])) crc p"

section \<open>The tables\<close>

definition tables_ok :: "csum_tables \<Rightarrow> bool" where
  "tables_ok t \<longleftrightarrow> (tables_ready t \<longrightarrow>
     crc32c_table t = map crc32c_entry [0..<256] \<and> crc16_table t = map crc16_entry [0..<256])"

lemma tables_ok_boot: "tables_ok tables_boot"
  by (simp add: tables_ok_def tables_boot_def)

lemma ext4_crc32c_st_eq:
  "tables_ok t \<Longrightarrow> unat len \<le> length buf \<Longrightarrow>
    \<exists>t'. ext4_crc32c_st crc buf len t = Some (ext4_crc32c crc (take (unat len) buf), t') \<and> tables_ok t'"
  by (auto simp: ext4_crc32c_st_def ext4_crc32c_def tables_ok_def build_tables_def sub_def)

lemma ext4_crc16_st_eq:
  "tables_ok t \<Longrightarrow> unat len \<le> length buf \<Longrightarrow>
    \<exists>t'. ext4_crc16_st crc buf len t = Some (ext4_crc16 crc (take (unat len) buf), t') \<and> tables_ok t'"
  by (auto simp: ext4_crc16_st_def ext4_crc16_def tables_ok_def build_tables_def sub_def)

lemma ext4_crc32c_append: "ext4_crc32c crc (xs @ ys) = ext4_crc32c (ext4_crc32c crc xs) ys"
  by (simp add: ext4_crc32c_def)

lemma ext4_crc16_append: "ext4_crc16 crc (xs @ ys) = ext4_crc16 (ext4_crc16 crc xs) ys"
  by (simp add: ext4_crc16_def)

section \<open>The bit-serial registers\<close>

text \<open>One bit of input at a time: the byte is folded into the register and shifted out eight times.\<close>

definition crc32c_serial :: "u32 \<Rightarrow> u8 \<Rightarrow> u32" where
  "crc32c_serial crc b = (crc32c_shift ^^ 8) (crc XOR ucast b)"

definition crc16_serial :: "u16 \<Rightarrow> u8 \<Rightarrow> u16" where
  "crc16_serial crc b = (crc16_shift ^^ 8) (crc XOR push_bit 8 (ucast b))"

lemma crc32c_shift_alt: "crc32c_shift c = drop_bit 1 c XOR (if bit c 0 then CRC32C_POLY else 0)"
  by (simp add: crc32c_shift_def and_one_eq odd_iff_mod_2_eq_one bit_0)

lemma crc16_shift_alt: "crc16_shift r = push_bit 1 r XOR (if bit r 15 then 0x1021 else 0)"
  using and_exp_eq_0_iff_not_bit [of r 15] by (simp add: crc16_shift_def)

lemma crc32c_shift_xor: "crc32c_shift (x XOR y) = crc32c_shift x XOR crc32c_shift y"
  by (auto simp: crc32c_shift_alt bit_xor_iff xor.assoc xor.left_commute)

lemma crc16_shift_xor: "crc16_shift (x XOR y) = crc16_shift x XOR crc16_shift y"
  by (auto simp: crc16_shift_alt bit_xor_iff xor.assoc xor.left_commute push_bit_xor)

lemma funpow_xor:
  fixes f :: "'a::len word \<Rightarrow> 'a word"
  assumes "\<And>x y. f (x XOR y) = f x XOR f y"
  shows "(f ^^ n) (x XOR y) = (f ^^ n) x XOR (f ^^ n) y"
  by (induction n) (simp_all add: assms)

lemma crc32c_shift_zeros: "(\<And>i. i < k \<Longrightarrow> \<not> bit c i) \<Longrightarrow> (crc32c_shift ^^ k) c = drop_bit k c"
proof (induction k)
  case (Suc k)
  then have "(crc32c_shift ^^ k) c = drop_bit k c" "\<not> bit c k" by auto
  then show ?case by (simp add: crc32c_shift_alt [of "drop_bit k c"] bit_drop_bit_eq)
qed simp

lemma crc16_shift_zeros:
  "k \<le> 16 \<Longrightarrow> (\<And>i. i < k \<Longrightarrow> \<not> bit c (15 - i)) \<Longrightarrow> (crc16_shift ^^ k) c = push_bit k c"
proof (induction k)
  case (Suc k)
  then have "(crc16_shift ^^ k) c = push_bit k c" "\<not> bit c (15 - k)" by auto
  moreover from this(2) have "\<not> bit (push_bit k c) 15" using Suc.prems(1) by (simp add: bit_push_bit_iff)
  ultimately show ?case by (simp add: crc16_shift_alt [of "push_bit k c"])
qed simp

lemma crc32c_split:
  "(crc32c_shift ^^ 8) c = (crc32c_shift ^^ 8) (c AND 0xFF) XOR drop_bit 8 c"
proof -
  have c: "c = take_bit 8 c XOR push_bit 8 (drop_bit 8 c)"
    by (rule bit_word_eqI) (auto simp: bit_simps)
  have "(crc32c_shift ^^ 8) (push_bit 8 (drop_bit 8 c)) = drop_bit 8 (push_bit 8 (drop_bit 8 c))"
    by (rule crc32c_shift_zeros) (simp add: bit_push_bit_iff)
  also have "\<dots> = drop_bit 8 c"
    by (rule bit_word_eqI) (auto simp: bit_simps dest: bit_imp_le_length)
  finally show ?thesis
    unfolding and_0xFF
    by (subst c) (simp only: funpow_xor [of crc32c_shift, OF crc32c_shift_xor])
qed

lemma crc16_split:
  "(crc16_shift ^^ 8) c = (crc16_shift ^^ 8) (push_bit 8 (drop_bit 8 c)) XOR push_bit 8 c"
proof -
  have c: "c = push_bit 8 (drop_bit 8 c) XOR take_bit 8 c"
    by (rule bit_word_eqI) (auto simp: bit_simps)
  have "(crc16_shift ^^ 8) (take_bit 8 c) = push_bit 8 (take_bit 8 c)"
    by (rule crc16_shift_zeros) (auto simp: bit_simps)
  also have "\<dots> = push_bit 8 c"
    by (rule bit_word_eqI) (auto simp: bit_simps)
  finally show ?thesis
    by (subst c) (simp only: funpow_xor [of crc16_shift, OF crc16_shift_xor])
qed

lemma crc32c_byte_serial: "crc32c_byte (map crc32c_entry [0..<256]) crc b = crc32c_serial crc b"
proof -
  let ?i = "(crc XOR ucast b) AND 0xFF"
  have "map crc32c_entry [0..<256] ! unat ?i = (crc32c_shift ^^ 8) ?i"
    using and_0xFF_less [of "crc XOR ucast b"] by (simp add: crc32c_entry_def)
  moreover have "drop_bit 8 (crc XOR ucast b) = drop_bit 8 crc"
    by (rule bit_word_eqI) (auto simp: bit_simps impossible_bit)
  ultimately show ?thesis
    unfolding crc32c_byte_def crc32c_serial_def crc32c_split [of "crc XOR ucast b"]
    by (simp add: xor.commute)
qed

lemma crc16_byte_serial: "crc16_byte (map crc16_entry [0..<256]) crc b = crc16_serial crc b"
proof -
  let ?i = "(drop_bit 8 crc XOR ucast b) AND 0xFF"
  let ?c = "crc XOR push_bit 8 (ucast b)"
  have "push_bit 8 (drop_bit 8 ?c) = push_bit 8 ?i"
    unfolding and_0xFF by (rule bit_word_eqI) (auto simp: bit_simps impossible_bit)
  also have "\<dots> = ?i * 256" by (simp add: push_bit_eq_mult)
  finally have i: "push_bit 8 (drop_bit 8 ?c) = ?i * 256" .
  have "map crc16_entry [0..<256] ! unat ?i = (crc16_shift ^^ 8) (?i * 256)"
    using and_0xFF_less [of "drop_bit 8 crc XOR ucast b"] by (simp add: crc16_entry_def)
  moreover have "push_bit 8 ?c = push_bit 8 crc"
    by (rule bit_word_eqI) (auto simp: bit_simps impossible_bit)
  ultimately show ?thesis
    unfolding crc16_byte_def crc16_serial_def crc16_split [of ?c] i by simp
qed

lemma crc16_serial_unroll:
  "crc16_serial crc b = (let s = crc16_shift in s (s (s (s (s (s (s (s (crc XOR push_bit 8 (ucast b))))))))))"
  by (simp add: crc16_serial_def eval_nat_numeral)

section \<open>Properties\<close>

text \<open>C15: the table-driven CRC32C of the driver is the bit-serial CRC with the reflected Castagnoli
  polynomial, for every register and every buffer, whether or not the tables were built before,
  and chaining two calls is one call on the concatenation.\<close>

theorem ext4_crc32c_correct:
  assumes "tables_ok t" and "unat len \<le> length buf"
  shows "\<exists>t'. ext4_crc32c_st crc buf len t =
      Some (foldl crc32c_serial crc (take (unat len) buf), t') \<and> tables_ok t' \<and>
    ext4_crc32c (ext4_crc32c crc xs) ys = foldl crc32c_serial crc (xs @ ys)"
proof -
  have eq: "ext4_crc32c c p = foldl crc32c_serial c p" for c p
    unfolding ext4_crc32c_def by (induction p arbitrary: c) (simp_all add: crc32c_byte_serial)
  show ?thesis using ext4_crc32c_st_eq [OF assms, of crc] by (auto simp: eq)
qed

theorem ext4_crc32c_correct_witness:
  "\<exists>t'. ext4_crc32c_st (- 1) [1, 2, 3] 2 tables_boot = Some (foldl crc32c_serial (- 1) [1, 2], t') \<and> tables_ok t'"
  using ext4_crc32c_correct [OF tables_ok_boot, of 2 "[1, 2, 3]" "- 1"] by auto

text \<open>The CRC16 of the driver is the bit-serial register with the polynomial \<open>0x1021\<close> fed from the
  top, not the reflected one of \<open>ext2fs_crc16\<close>: its value on the check string \<open>123456789\<close> is
  \<open>0x29B1\<close> where the reflected polynomial \<open>0xA001\<close> gives \<open>0x4B37\<close>.\<close>

theorem ext4_crc16_ccitt:
  "ext4_crc16 crc p = foldl crc16_serial crc p \<and>
   ext4_crc16 0xFFFF [49, 50, 51, 52, 53, 54, 55, 56, 57] = 0x29B1"
proof -
  have eq: "ext4_crc16 c p = foldl crc16_serial c p" for c p
    unfolding ext4_crc16_def by (induction p arbitrary: c) (simp_all add: crc16_byte_serial)
  moreover have "foldl crc16_serial 0xFFFF [49, 50, 51, 52, 53, 54, 55, 56, 57] = 0x29B1"
    by (simp add: crc16_serial_unroll crc16_shift_def)
  ultimately show ?thesis by simp
qed

end
