(* ===== verification/Ext4_Disk.thy ===== *)
theory Ext4_Disk
  imports Prelude
begin

text \<open>
  The on-disk structures of \<open>fs/ext4_disk.h\<close>. The C structs are packed and every supported machine
  is little endian, so a struct is the list of its bytes and a field is a range of them. The
  layout tables list the fields in declaration order with their size and the offset the header
  documents; the accessors below name the fields the driver uses.
\<close>

section \<open>Layouts\<close>

type_synonym layout = "(string \<times> nat \<times> nat) list"

definition ext4_superblock_layout :: layout where
  "ext4_superblock_layout =
   [(''inodes_count'', 4, 0x00), (''blocks_count_lo'', 4, 0x04), (''r_blocks_count_lo'', 4, 0x08),
    (''free_blocks_count_lo'', 4, 0x0C), (''free_inodes_count'', 4, 0x10),
    (''first_data_block'', 4, 0x14), (''log_block_size'', 4, 0x18),
    (''log_cluster_size'', 4, 0x1C), (''blocks_per_group'', 4, 0x20),
    (''clusters_per_group'', 4, 0x24), (''inodes_per_group'', 4, 0x28), (''mtime'', 4, 0x2C),
    (''wtime'', 4, 0x30), (''mnt_count'', 2, 0x34), (''max_mnt_count'', 2, 0x36),
    (''magic'', 2, 0x38), (''state'', 2, 0x3A), (''errors'', 2, 0x3C),
    (''minor_rev_level'', 2, 0x3E), (''lastcheck'', 4, 0x40), (''checkinterval'', 4, 0x44),
    (''creator_os'', 4, 0x48), (''rev_level'', 4, 0x4C), (''def_resuid'', 2, 0x50),
    (''def_resgid'', 2, 0x52), (''first_ino'', 4, 0x54), (''inode_size'', 2, 0x58),
    (''block_group_nr'', 2, 0x5A), (''feature_compat'', 4, 0x5C), (''feature_incompat'', 4, 0x60),
    (''feature_ro_compat'', 4, 0x64), (''uuid'', 16, 0x68), (''volume_name'', 16, 0x78),
    (''last_mounted'', 64, 0x88), (''algorithm_usage_bitmap'', 4, 0xC8),
    (''prealloc_blocks'', 1, 0xCC), (''prealloc_dir_blocks'', 1, 0xCD),
    (''reserved_gdt_blocks'', 2, 0xCE), (''journal_uuid'', 16, 0xD0), (''journal_inum'', 4, 0xE0),
    (''journal_dev'', 4, 0xE4), (''last_orphan'', 4, 0xE8), (''hash_seed'', 16, 0xEC),
    (''def_hash_version'', 1, 0xFC), (''jnl_backup_type'', 1, 0xFD), (''desc_size'', 2, 0xFE),
    (''default_mount_opts'', 4, 0x100), (''first_meta_bg'', 4, 0x104), (''mkfs_time'', 4, 0x108),
    (''jnl_blocks'', 68, 0x10C), (''blocks_count_hi'', 4, 0x150),
    (''r_blocks_count_hi'', 4, 0x154), (''free_blocks_count_hi'', 4, 0x158),
    (''min_extra_isize'', 2, 0x15C), (''want_extra_isize'', 2, 0x15E), (''flags'', 4, 0x160),
    (''raid_stride'', 2, 0x164), (''mmp_interval'', 2, 0x166), (''mmp_block'', 8, 0x168),
    (''raid_stripe_width'', 4, 0x170), (''log_groups_per_flex'', 1, 0x174),
    (''checksum_type'', 1, 0x175), (''reserved_pad'', 2, 0x176), (''kbytes_written'', 8, 0x178),
    (''snapshot_inum'', 4, 0x180), (''snapshot_id'', 4, 0x184), (''snapshot_list'', 8, 0x188),
    (''error_count'', 4, 0x190), (''first_error_time'', 4, 0x194),
    (''first_error_ino'', 4, 0x198), (''first_error_block'', 8, 0x19C),
    (''first_error_func'', 32, 0x1A4), (''first_error_line'', 4, 0x1C4),
    (''last_error_time'', 4, 0x1C8), (''last_error_ino'', 4, 0x1CC),
    (''last_error_line'', 4, 0x1D0), (''last_error_block'', 8, 0x1D4),
    (''last_error_func'', 32, 0x1DC), (''mount_opts'', 64, 0x1FC), (''usr_quota_inum'', 4, 0x23C),
    (''grp_quota_inum'', 4, 0x240), (''overhead_blocks'', 4, 0x244), (''backup_bgs'', 8, 0x248),
    (''encrypt_algos'', 4, 0x250), (''encrypt_pw_salt'', 16, 0x254), (''lpf_ino'', 4, 0x264),
    (''prj_quota_inum'', 4, 0x268), (''checksum_seed'', 4, 0x26C), (''wtime_hi'', 4, 0x270),
    (''mtime_hi'', 4, 0x274), (''mkfs_time_hi'', 4, 0x278), (''lastcheck_hi'', 4, 0x27C),
    (''first_error_time_hi'', 4, 0x280), (''last_error_time_hi'', 4, 0x284),
    (''encrypt_algos_dsc'', 4, 0x288), (''_pad'', 368, 0x28C), (''checksum'', 4, 0x3FC)]"

definition ext4_group_desc_layout :: layout where
  "ext4_group_desc_layout =
   [(''block_bitmap_lo'', 4, 0), (''inode_bitmap_lo'', 4, 4), (''inode_table_lo'', 4, 8),
    (''free_blocks_count_lo'', 2, 12), (''free_inodes_count_lo'', 2, 14),
    (''used_dirs_count_lo'', 2, 16), (''flags'', 2, 18), (''exclude_bitmap_lo'', 4, 20),
    (''block_bitmap_csum_lo'', 2, 24), (''inode_bitmap_csum_lo'', 2, 26),
    (''itable_unused_lo'', 2, 28), (''checksum'', 2, 30), (''block_bitmap_hi'', 4, 32),
    (''inode_bitmap_hi'', 4, 36), (''inode_table_hi'', 4, 40), (''free_blocks_count_hi'', 2, 44),
    (''free_inodes_count_hi'', 2, 46), (''used_dirs_count_hi'', 2, 48),
    (''itable_unused_hi'', 2, 50), (''exclude_bitmap_hi'', 4, 52),
    (''block_bitmap_csum_hi'', 2, 56), (''inode_bitmap_csum_hi'', 2, 58), (''reserved'', 4, 60)]"

definition ext4_inode_layout :: layout where
  "ext4_inode_layout =
   [(''mode'', 2, 0x00), (''uid'', 2, 0x02), (''size_lo'', 4, 0x04), (''atime'', 4, 0x08),
    (''ctime'', 4, 0x0C), (''mtime'', 4, 0x10), (''dtime'', 4, 0x14), (''gid'', 2, 0x18),
    (''links_count'', 2, 0x1A), (''blocks_lo'', 4, 0x1C), (''flags'', 4, 0x20),
    (''osd1'', 4, 0x24), (''block'', 60, 0x28), (''generation'', 4, 0x64),
    (''file_acl'', 4, 0x68), (''size_or_dir_acl'', 4, 0x6C), (''faddr'', 4, 0x70),
    (''osd2'', 12, 0x74), (''extra_isize'', 2, 0x80), (''checksum_hi'', 2, 0x82),
    (''ctime_extra'', 4, 0x84), (''mtime_extra'', 4, 0x88), (''atime_extra'', 4, 0x8C),
    (''crtime'', 4, 0x90), (''crtime_extra'', 4, 0x94), (''version_hi'', 4, 0x98),
    (''projid'', 4, 0x9C), (''rest'', 96, 0xA0)]"

text \<open>A layout is packed from an offset when each field starts where the one before it ends.\<close>

fun packed :: "nat \<Rightarrow> layout \<Rightarrow> bool" where
  "packed a [] \<longleftrightarrow> True"
| "packed a ((_, sz, off) # l) \<longleftrightarrow> off = a \<and> packed (a + sz) l"

definition layout_size :: "layout \<Rightarrow> nat" where
  "layout_size l = (\<Sum>(_, sz, _) \<leftarrow> l. sz)"

fun field_off :: "layout \<Rightarrow> string \<Rightarrow> nat" where
  "field_off [] _ = 0"
| "field_off ((n, _, off) # l) x = (if n = x then off else field_off l x)"

section \<open>Constants\<close>

definition EXT4_SUPER_OFF :: u32 where "EXT4_SUPER_OFF = 1024"
definition EXT4_MAGIC :: u16 where "EXT4_MAGIC = 0xEF53"
definition EXT4_VALID_FS :: u16 where "EXT4_VALID_FS = 1"
definition FEAT_INCOMPAT_FILETYPE :: u32 where "FEAT_INCOMPAT_FILETYPE = 0x2"
definition FEAT_INCOMPAT_RECOVER :: u32 where "FEAT_INCOMPAT_RECOVER = 0x4"
definition FEAT_INCOMPAT_EXTENTS :: u32 where "FEAT_INCOMPAT_EXTENTS = 0x40"
definition FEAT_INCOMPAT_64BIT :: u32 where "FEAT_INCOMPAT_64BIT = 0x80"
definition FEAT_INCOMPAT_FLEX_BG :: u32 where "FEAT_INCOMPAT_FLEX_BG = 0x200"
definition FEAT_INCOMPAT_CSUM_SEED :: u32 where "FEAT_INCOMPAT_CSUM_SEED = 0x2000"
definition FEAT_RO_LARGE_FILE :: u32 where "FEAT_RO_LARGE_FILE = 0x2"
definition FEAT_RO_GDT_CSUM :: u32 where "FEAT_RO_GDT_CSUM = 0x10"
definition FEAT_RO_BIGALLOC :: u32 where "FEAT_RO_BIGALLOC = 0x200"
definition FEAT_RO_METADATA_CSUM :: u32 where "FEAT_RO_METADATA_CSUM = 0x400"
definition INO_FLAG_EXTENTS :: u32 where "INO_FLAG_EXTENTS = 0x80000"
definition INO_FLAG_INDEX_FL :: u32 where "INO_FLAG_INDEX_FL = 0x1000"
definition EXT4_ROOT_INO :: u32 where "EXT4_ROOT_INO = 2"
definition EXT4_GOOD_OLD_INODE_SIZE :: u32 where "EXT4_GOOD_OLD_INODE_SIZE = 128"
definition EXT4_GOOD_OLD_FIRST_INO :: u32 where "EXT4_GOOD_OLD_FIRST_INO = 11"
definition DET_REG :: u8 where "DET_REG = 1"
definition DIRENT_TAIL_MARKER :: u8 where "DIRENT_TAIL_MARKER = 0xDE"
definition EXTENT_MAGIC :: u16 where "EXTENT_MAGIC = 0xF30A"

section \<open>Fields\<close>

text \<open>Superblock, 1024 bytes.\<close>

abbreviation (input) "SB_inodes_count \<equiv> 0x00 :: nat"
abbreviation (input) "SB_blocks_count_lo \<equiv> 0x04 :: nat"
abbreviation (input) "SB_free_blocks_count_lo \<equiv> 0x0C :: nat"
abbreviation (input) "SB_free_inodes_count \<equiv> 0x10 :: nat"
abbreviation (input) "SB_first_data_block \<equiv> 0x14 :: nat"
abbreviation (input) "SB_log_block_size \<equiv> 0x18 :: nat"
abbreviation (input) "SB_blocks_per_group \<equiv> 0x20 :: nat"
abbreviation (input) "SB_inodes_per_group \<equiv> 0x28 :: nat"
abbreviation (input) "SB_mnt_count \<equiv> 0x34 :: nat"
abbreviation (input) "SB_magic \<equiv> 0x38 :: nat"
abbreviation (input) "SB_state \<equiv> 0x3A :: nat"
abbreviation (input) "SB_first_ino \<equiv> 0x54 :: nat"
abbreviation (input) "SB_inode_size \<equiv> 0x58 :: nat"
abbreviation (input) "SB_feature_compat \<equiv> 0x5C :: nat"
abbreviation (input) "SB_feature_incompat \<equiv> 0x60 :: nat"
abbreviation (input) "SB_feature_ro_compat \<equiv> 0x64 :: nat"
abbreviation (input) "SB_uuid \<equiv> 0x68 :: nat"
abbreviation (input) "SB_journal_inum \<equiv> 0xE0 :: nat"
abbreviation (input) "SB_desc_size \<equiv> 0xFE :: nat"
abbreviation (input) "SB_blocks_count_hi \<equiv> 0x150 :: nat"
abbreviation (input) "SB_free_blocks_count_hi \<equiv> 0x158 :: nat"
abbreviation (input) "SB_checksum_seed \<equiv> 0x26C :: nat"
abbreviation (input) "SB_checksum \<equiv> 0x3FC :: nat"

text \<open>Group descriptor, up to 64 bytes.\<close>

abbreviation (input) "GD_block_bitmap_lo \<equiv> 0 :: nat"
abbreviation (input) "GD_inode_bitmap_lo \<equiv> 4 :: nat"
abbreviation (input) "GD_inode_table_lo \<equiv> 8 :: nat"
abbreviation (input) "GD_free_blocks_count_lo \<equiv> 12 :: nat"
abbreviation (input) "GD_free_inodes_count_lo \<equiv> 14 :: nat"
abbreviation (input) "GD_used_dirs_count_lo \<equiv> 16 :: nat"
abbreviation (input) "GD_flags \<equiv> 18 :: nat"
abbreviation (input) "GD_block_bitmap_csum_lo \<equiv> 24 :: nat"
abbreviation (input) "GD_inode_bitmap_csum_lo \<equiv> 26 :: nat"
abbreviation (input) "GD_itable_unused_lo \<equiv> 28 :: nat"
abbreviation (input) "GD_checksum \<equiv> 30 :: nat"
abbreviation (input) "GD_block_bitmap_hi \<equiv> 32 :: nat"
abbreviation (input) "GD_inode_bitmap_hi \<equiv> 36 :: nat"
abbreviation (input) "GD_inode_table_hi \<equiv> 40 :: nat"
abbreviation (input) "GD_free_blocks_count_hi \<equiv> 44 :: nat"
abbreviation (input) "GD_free_inodes_count_hi \<equiv> 46 :: nat"
abbreviation (input) "GD_used_dirs_count_hi \<equiv> 48 :: nat"
abbreviation (input) "GD_itable_unused_hi \<equiv> 50 :: nat"
abbreviation (input) "GD_block_bitmap_csum_hi \<equiv> 56 :: nat"
abbreviation (input) "GD_inode_bitmap_csum_hi \<equiv> 58 :: nat"

text \<open>Inode, 256 bytes; the extent root shares the 60 bytes of the block array.\<close>

abbreviation (input) "I_mode \<equiv> 0x00 :: nat"
abbreviation (input) "I_size_lo \<equiv> 0x04 :: nat"
abbreviation (input) "I_atime \<equiv> 0x08 :: nat"
abbreviation (input) "I_ctime \<equiv> 0x0C :: nat"
abbreviation (input) "I_mtime \<equiv> 0x10 :: nat"
abbreviation (input) "I_links_count \<equiv> 0x1A :: nat"
abbreviation (input) "I_blocks_lo \<equiv> 0x1C :: nat"
abbreviation (input) "I_flags \<equiv> 0x20 :: nat"
abbreviation (input) "I_block \<equiv> 0x28 :: nat"
abbreviation (input) "I_generation \<equiv> 0x64 :: nat"
abbreviation (input) "I_size_or_dir_acl \<equiv> 0x6C :: nat"
abbreviation (input) "I_blocks_hi \<equiv> 0x74 :: nat"
abbreviation (input) "I_checksum_lo \<equiv> 0x7C :: nat"
abbreviation (input) "I_extra_isize \<equiv> 0x80 :: nat"
abbreviation (input) "I_checksum_hi \<equiv> 0x82 :: nat"
abbreviation (input) "I_crtime \<equiv> 0x90 :: nat"

text \<open>Extent header, extent entry and index entry (12 bytes each), relative to their start.\<close>

abbreviation (input) "EH_magic \<equiv> 0 :: nat"
abbreviation (input) "EH_entries \<equiv> 2 :: nat"
abbreviation (input) "EH_max \<equiv> 4 :: nat"
abbreviation (input) "EH_depth \<equiv> 6 :: nat"
abbreviation (input) "EH_generation \<equiv> 8 :: nat"
abbreviation (input) "EX_first_block \<equiv> 0 :: nat"
abbreviation (input) "EX_count \<equiv> 4 :: nat"
abbreviation (input) "EX_start_hi \<equiv> 6 :: nat"
abbreviation (input) "EX_start_lo \<equiv> 8 :: nat"
abbreviation (input) "IX_first_block \<equiv> 0 :: nat"
abbreviation (input) "IX_leaf_lo \<equiv> 4 :: nat"
abbreviation (input) "IX_leaf_hi \<equiv> 8 :: nat"
abbreviation (input) "IX_unused \<equiv> 10 :: nat"

text \<open>Directory entry.\<close>

abbreviation (input) "DE_inode \<equiv> 0 :: nat"
abbreviation (input) "DE_rec_len \<equiv> 4 :: nat"
abbreviation (input) "DE_name_len \<equiv> 6 :: nat"
abbreviation (input) "DE_file_type \<equiv> 7 :: nat"
abbreviation (input) "DE_name \<equiv> 8 :: nat"

section \<open>Properties\<close>


end
