(* ===== verification/Ext4_Base.thy ===== *)
theory Ext4_Base
  imports Blkdev Heap Clock Printk Ext4_Csum Ext4_Disk
begin

text \<open>
  The state of the ext4 driver (\<open>struct ext4_fs\<close> of \<open>fs/ext4_int.h\<close> and the statics of
  \<open>fs/ext4_core.c\<close> and \<open>fs/ext4_journal.c\<close>) next to the parts of the kernel it calls, and the
  first layers of \<open>fs/ext4_core.c\<close>: block I/O, checksums, group descriptors and inodes.

  A heap buffer is an object of its own, the list of its bytes; the heap decides its address and
  whether the allocation succeeds. A struct on the stack starts with the bytes \<open>uninit\<close>, about
  which nothing is known. A function with an output parameter returns what it stores there.
\<close>

section \<open>State\<close>

record 'd ext4 =
  fs_dev :: "'d blk_device option"
  fs_block_size :: u32
  fs_sectors_per_block :: u32
  fs_blocks_count :: u64
  fs_inodes_count :: u32
  fs_blocks_per_group :: u32
  fs_inodes_per_group :: u32
  fs_group_count :: u32
  fs_first_data_block :: u32
  fs_inode_size :: u32
  fs_desc_size :: u32
  fs_first_ino :: u32
  fs_feat_compat :: u32
  fs_feat_incompat :: u32
  fs_feat_ro_compat :: u32
  fs_has_extents :: bool
  fs_has_64bit :: bool
  fs_meta_csum :: bool
  fs_gdt_csum :: bool
  fs_csum_seed_feat :: bool
  fs_writable :: bool
  fs_csum_seed :: u32
  fs_uuid :: bytes
  fs_sb :: bytes
  fs_gdt :: "bytes option"
  scratch1 :: "bytes option"
  scratch2 :: "bytes option"
  jin :: bytes
  committed :: "u32 list"
  n_committed :: u32
  last_commit_seq :: u32
  revbits :: "bytes option"
  uninit :: bytes
  hw :: 'd
  kheap :: heap
  clk :: clock
  registry :: "'d blkdev"
  klog :: "(string \<times> slot list) list"

definition kputs :: "string \<Rightarrow> 'd ext4 \<Rightarrow> 'd ext4" where
  "kputs m s = s\<lparr>klog := klog s @ [(m, [])]\<rparr>"

definition e4_now :: "'d ext4 \<Rightarrow> u64 option" where
  "e4_now s = do { _ \<leftarrow> udiv 1 (g_tick_hz (clk s)); Some (uptime_ms (clk s) div 1000) }"

text \<open>\<open>kmalloc\<close> and \<open>kzalloc\<close> of a buffer: its address (zero for null) and its first contents.\<close>

definition k_alloc :: "u32 \<Rightarrow> 'd ext4 \<Rightarrow> ((nat \<times> bytes option) \<times> 'd ext4) option" where
  "k_alloc n s = do {
     (p, h) \<leftarrow> kmalloc n (kheap s);
     Some ((p, if p = 0 then None else Some (load_bytes (hmem h) p (unat n))), s\<lparr>kheap := h\<rparr>) }"

definition k_zalloc :: "u32 \<Rightarrow> 'd ext4 \<Rightarrow> ((nat \<times> bytes option) \<times> 'd ext4) option" where
  "k_zalloc n s = do {
     (p, h) \<leftarrow> kzalloc n (kheap s);
     Some ((p, if p = 0 then None else Some (replicate (unat n) 0)), s\<lparr>kheap := h\<rparr>) }"

definition k_free :: "nat \<Rightarrow> 'd ext4 \<Rightarrow> 'd ext4 option" where
  "k_free p s = do { h \<leftarrow> kfree p (kheap s); Some (s\<lparr>kheap := h\<rparr>) }"

definition e4_init_scratch :: "u32 \<Rightarrow> 'd ext4 \<Rightarrow> (int \<times> 'd ext4) option" where
  "e4_init_scratch bs s = do {
     ((_, b1), s) \<leftarrow> k_alloc bs s;
     let s = s\<lparr>scratch1 := b1\<rparr>;
     ((_, b2), s) \<leftarrow> k_alloc bs s;
     let s = s\<lparr>scratch2 := b2\<rparr>;
     if b1 = None \<or> b2 = None then Some (- 1, s)
     else Some (0, s\<lparr>scratch1 := Some (replicate (unat bs) 0), scratch2 := Some (replicate (unat bs) 0)\<rparr>) }"

section \<open>Raw block I/O\<close>

definition e4_read_block :: "u64 \<Rightarrow> bytes option \<Rightarrow> 'd ext4 \<Rightarrow> (int \<times> bytes option \<times> 'd ext4) option" where
  "e4_read_block block buf s =
     (if fs_dev s = None \<or> buf = None then Some (- 1, buf, s)
      else do {
        (rc, buf, h) \<leftarrow> blk_read (fs_dev s) (block * ucast (fs_sectors_per_block s))
                          (fs_sectors_per_block s) buf (hw s);
        Some (rc, buf, s\<lparr>hw := h\<rparr>) })"

definition e4_write_block :: "u64 \<Rightarrow> bytes option \<Rightarrow> 'd ext4 \<Rightarrow> int \<times> 'd ext4" where
  "e4_write_block block buf s =
     (if fs_dev s = None \<or> \<not> fs_writable s \<or> buf = None then (- 1, s)
      else let (rc, h) = blk_write (fs_dev s) (block * ucast (fs_sectors_per_block s))
                           (fs_sectors_per_block s) buf (hw s)
           in (rc, s\<lparr>hw := h\<rparr>))"

text \<open>The calls with one of the two shared buffers.\<close>

definition read_scratch1 :: "u64 \<Rightarrow> 'd ext4 \<Rightarrow> (int \<times> 'd ext4) option" where
  "read_scratch1 block s = do {
     (rc, b, s) \<leftarrow> e4_read_block block (scratch1 s) s; Some (rc, s\<lparr>scratch1 := b\<rparr>) }"

definition read_scratch2 :: "u64 \<Rightarrow> 'd ext4 \<Rightarrow> (int \<times> 'd ext4) option" where
  "read_scratch2 block s = do {
     (rc, b, s) \<leftarrow> e4_read_block block (scratch2 s) s; Some (rc, s\<lparr>scratch2 := b\<rparr>) }"

definition write_scratch1 :: "u64 \<Rightarrow> 'd ext4 \<Rightarrow> int \<times> 'd ext4" where
  "write_scratch1 block s = e4_write_block block (scratch1 s) s"

definition write_scratch2 :: "u64 \<Rightarrow> 'd ext4 \<Rightarrow> int \<times> 'd ext4" where
  "write_scratch2 block s = e4_write_block block (scratch2 s) s"

section \<open>Checksums\<close>

definition e4_meta_seed :: "'d ext4 \<Rightarrow> u32" where
  "e4_meta_seed s = (if fs_csum_seed_feat s then rd32 (fs_sb s) SB_checksum_seed else fs_csum_seed s)"

definition e4_sb_recompute_checksum :: "'d ext4 \<Rightarrow> 'd ext4" where
  "e4_sb_recompute_checksum s =
     s\<lparr>fs_sb := wr32 (fs_sb s) SB_checksum (ext4_crc32c (- 1) (sub (fs_sb s) 0 1020))\<rparr>"

definition e4_sync_superblock :: "'d ext4 \<Rightarrow> int \<times> 'd ext4" where
  "e4_sync_superblock s =
     (let (rc, h) = blk_write (fs_dev s) (ucast (EXT4_SUPER_OFF div 512)) 2 (Some (fs_sb s)) (hw s)
      in (rc, s\<lparr>hw := h\<rparr>))"

text \<open>A descriptor pointer is the suffix of its object from the descriptor on.\<close>

definition e4_desc_checksum_set :: "u32 \<Rightarrow> bytes \<Rightarrow> 'd ext4 \<Rightarrow> bytes option" where
  "e4_desc_checksum_set grp gd s =
     (if fs_meta_csum s then do {
        gd \<leftarrow> st16 gd GD_checksum 0;
        let crc = ext4_crc32c (e4_meta_seed s) (bytes32 grp);
        d \<leftarrow> slice gd 0 (unat (fs_desc_size s));
        let crc = ext4_crc32c crc d;
        st16 gd GD_checksum (ucast (crc AND 0xFFFF)) }
      else if fs_gdt_csum s then do {
        let crc = ext4_crc16 (- 1) (fs_uuid s);
        let crc = ext4_crc16 crc (bytes32 grp);
        d \<leftarrow> slice gd 0 30;
        let crc = ext4_crc16 crc d;
        d \<leftarrow> slice gd 32 (unat (fs_desc_size s - 32));
        let crc = ext4_crc16 crc d;
        st16 gd GD_checksum crc }
      else Some gd)"

definition e4_bitmap_checksum_set :: "bytes \<Rightarrow> bool \<Rightarrow> bytes \<Rightarrow> 'd ext4 \<Rightarrow> bytes option" where
  "e4_bitmap_checksum_set bitmap inode_bitmap gd s =
     (if \<not> fs_meta_csum s then Some gd
      else do {
        let sz = (if inode_bitmap then fs_inodes_per_group s div 8 else fs_blocks_per_group s div 8);
        b \<leftarrow> slice bitmap 0 (unat sz);
        let crc = ext4_crc32c (e4_meta_seed s) b;
        let lo = ucast (crc AND 0xFFFF); let hi = ucast (drop_bit 16 crc);
        if inode_bitmap then do {
          gd \<leftarrow> st16 gd GD_inode_bitmap_csum_lo lo;
          if fs_desc_size s \<ge> 60 then st16 gd GD_inode_bitmap_csum_hi hi else Some gd }
        else do {
          gd \<leftarrow> st16 gd GD_block_bitmap_csum_lo lo;
          if fs_desc_size s \<ge> 58 then st16 gd GD_block_bitmap_csum_hi hi else Some gd } })"

definition inode_has_csum_hi :: "bytes \<Rightarrow> 'd ext4 \<Rightarrow> bool" where
  "inode_has_csum_hi i s \<longleftrightarrow>
     fs_inode_size s > EXT4_GOOD_OLD_INODE_SIZE \<and> rd16 i I_extra_isize \<ge> 6"

definition e4_inode_checksum_set :: "u32 \<Rightarrow> bytes \<Rightarrow> 'd ext4 \<Rightarrow> bytes option" where
  "e4_inode_checksum_set ino inode s =
     (if \<not> fs_meta_csum s then Some inode
      else do {
        let has_hi = inode_has_csum_hi inode s;
        let saved_hi = rd16 inode I_checksum_hi;
        let inode = wr16 inode I_checksum_lo 0;
        let inode = wr16 inode I_checksum_hi 0;
        let crc = ext4_crc32c (e4_meta_seed s) (bytes32 ino);
        let crc = ext4_crc32c crc (bytes32 (rd32 inode I_generation));
        b \<leftarrow> slice inode 0 (unat (fs_inode_size s));
        let crc = ext4_crc32c crc b;
        let inode = wr16 inode I_checksum_lo (ucast (crc AND 0xFFFF));
        Some (wr16 inode I_checksum_hi (if has_hi then ucast (drop_bit 16 crc) else saved_hi)) })"

section \<open>Group descriptors\<close>

definition e4_gd :: "u32 \<Rightarrow> 'd ext4 \<Rightarrow> nat option" where
  "e4_gd grp s =
     (if grp \<ge> fs_group_count s then None else Some (unat grp * unat (fs_desc_size s)))"

definition gd_apply :: "nat \<Rightarrow> (bytes \<Rightarrow> bytes option) \<Rightarrow> 'd ext4 \<Rightarrow> 'd ext4 option" where
  "gd_apply off f s = do {
     gdt \<leftarrow> fs_gdt s;
     b \<leftarrow> f (drop off gdt);
     Some (s\<lparr>fs_gdt := Some (take off gdt @ b)\<rparr>) }"

fun load_gdt_groups :: "u32 \<Rightarrow> u32 \<Rightarrow> u32 \<Rightarrow> nat \<Rightarrow> 'd ext4 \<Rightarrow> (int \<times> 'd ext4) option" where
  "load_gdt_groups gdt_block per_block g 0 s = Some (0, s)"
| "load_gdt_groups gdt_block per_block g (Suc k) s = do {
     q \<leftarrow> udiv g per_block;
     slot \<leftarrow> umod g per_block;
     (rc, s) \<leftarrow> read_scratch1 (ucast (gdt_block + q)) s;
     if rc \<noteq> 0 then Some (- 1, s)
     else do {
       tmp \<leftarrow> scratch1 s;
       d \<leftarrow> slice tmp (unat slot * unat (fs_desc_size s)) (unat (fs_desc_size s));
       gdt \<leftarrow> fs_gdt s;
       gdt \<leftarrow> splice gdt (unat g * unat (fs_desc_size s)) d;
       load_gdt_groups gdt_block per_block (g + 1) k (s\<lparr>fs_gdt := Some gdt\<rparr>) } }"

definition e4_load_gdt :: "'d ext4 \<Rightarrow> (int \<times> 'd ext4) option" where
  "e4_load_gdt s = do {
     let n = fs_desc_size s * fs_group_count s;
     let gdt_block = fs_first_data_block s + 1;
     ((_, b), s) \<leftarrow> k_zalloc n s;
     let s = s\<lparr>fs_gdt := b\<rparr>;
     if b = None then Some (- 1, s)
     else do {
       per_block \<leftarrow> udiv (fs_block_size s) (fs_desc_size s);
       (rc, s) \<leftarrow> load_gdt_groups gdt_block per_block 0 (unat (fs_group_count s)) s;
       if rc \<noteq> 0 then Some (- 1, s)
       else do {
         gdt \<leftarrow> fs_gdt s;
         probe \<leftarrow> slice gdt 0 64;
         let stored = rd16 probe GD_checksum;
         probe \<leftarrow> e4_desc_checksum_set 0 probe s;
         Some (0, if stored \<noteq> 0 \<and> rd16 probe GD_checksum \<noteq> stored
                  then kputs ''ext4 warn group 0 checksum mismatch'' s else s) } } }"

definition e4_sync_gd :: "u32 \<Rightarrow> 'd ext4 \<Rightarrow> (int \<times> 'd ext4) option" where
  "e4_sync_gd grp s = (case e4_gd grp s of
     None \<Rightarrow> Some (- 1, s)
   | Some off \<Rightarrow> do {
       s \<leftarrow> gd_apply off (\<lambda>gd. e4_desc_checksum_set grp gd s) s;
       per_block \<leftarrow> udiv (fs_block_size s) (fs_desc_size s);
       q \<leftarrow> udiv grp per_block;
       slot \<leftarrow> umod grp per_block;
       let blk = ucast (fs_first_data_block s + 1 + q);
       (rc, s) \<leftarrow> read_scratch2 blk s;
       if rc \<noteq> 0 then Some (- 1, s)
       else do {
         gdt \<leftarrow> fs_gdt s;
         d \<leftarrow> slice gdt off (unat (fs_desc_size s));
         b \<leftarrow> scratch2 s;
         b \<leftarrow> splice b (unat slot * unat (fs_desc_size s)) d;
         Some (write_scratch2 blk (s\<lparr>scratch2 := Some b\<rparr>)) } })"

section \<open>Inodes\<close>

definition inode_table_block :: "u32 \<Rightarrow> 'd ext4 \<Rightarrow> u64 option" where
  "inode_table_block ino s = do {
     g \<leftarrow> udiv (ino - 1) (fs_inodes_per_group s);
     case e4_gd g s of
       None \<Rightarrow> Some 0
     | Some off \<Rightarrow> do {
         gdt \<leftarrow> fs_gdt s;
         lo \<leftarrow> ld32 gdt (off + GD_inode_table_lo);
         if fs_has_64bit s then do {
           hi \<leftarrow> ld32 gdt (off + GD_inode_table_hi);
           Some (ucast lo OR push_bit 32 (ucast hi)) }
         else Some (ucast lo) } }"

text \<open>The block and the offset in it where an inode starts.\<close>

definition inode_location :: "u32 \<Rightarrow> 'd ext4 \<Rightarrow> (u64 \<times> u32) option" where
  "inode_location ino s = do {
     tbl \<leftarrow> inode_table_block ino s;
     idx \<leftarrow> umod (ino - 1) (fs_inodes_per_group s);
     let byte_off = (ucast idx * ucast (fs_inode_size s) :: u64);
     q \<leftarrow> udiv byte_off (ucast (fs_block_size s));
     r \<leftarrow> umod byte_off (ucast (fs_block_size s));
     Some (tbl + q, ucast r) }"

definition e4_read_inode :: "u32 \<Rightarrow> bytes \<Rightarrow> 'd ext4 \<Rightarrow> (int \<times> bytes \<times> 'd ext4) option" where
  "e4_read_inode ino out s =
     (if ino < 1 \<or> ino > fs_inodes_count s then Some (- 1, out, s)
      else do {
        (blk, off) \<leftarrow> inode_location ino s;
        if off + fs_inode_size s \<le> fs_block_size s then do {
          (rc, s) \<leftarrow> read_scratch1 blk s;
          if rc \<noteq> 0 then Some (- 1, out, s)
          else do {
            b \<leftarrow> scratch1 s;
            x \<leftarrow> slice b (unat off) (unat (fs_inode_size s));
            out \<leftarrow> splice out 0 x;
            Some (0, out, s) } }
        else do {
          (rc, s) \<leftarrow> read_scratch1 blk s;
          if rc \<noteq> 0 then Some (- 1, out, s)
          else do {
            (rc, s) \<leftarrow> read_scratch2 (blk + 1) s;
            if rc \<noteq> 0 then Some (- 1, out, s)
            else do {
              let part = fs_block_size s - off;
              b \<leftarrow> scratch1 s;
              x \<leftarrow> slice b (unat off) (unat part);
              out \<leftarrow> splice out 0 x;
              b2 \<leftarrow> scratch2 s;
              y \<leftarrow> slice b2 0 (unat (fs_inode_size s - part));
              out \<leftarrow> splice out (unat part) y;
              Some (0, out, s) } } } })"

definition e4_write_inode :: "u32 \<Rightarrow> bytes \<Rightarrow> 'd ext4 \<Rightarrow> (int \<times> 'd ext4) option" where
  "e4_write_inode ino inode s =
     (if ino < 1 \<or> ino > fs_inodes_count s \<or> \<not> fs_writable s then Some (- 1, s)
      else do {
        (blk, off) \<leftarrow> inode_location ino s;
        if off + fs_inode_size s \<le> fs_block_size s then do {
          (rc, s) \<leftarrow> read_scratch1 blk s;
          if rc \<noteq> 0 then Some (- 1, s)
          else do {
            b \<leftarrow> scratch1 s;
            x \<leftarrow> slice inode 0 (unat (fs_inode_size s));
            b \<leftarrow> splice b (unat off) x;
            Some (write_scratch1 blk (s\<lparr>scratch1 := Some b\<rparr>)) } }
        else do {
          let part = fs_block_size s - off;
          (rc, s) \<leftarrow> read_scratch1 blk s;
          if rc \<noteq> 0 then Some (- 1, s)
          else do {
            b \<leftarrow> scratch1 s;
            x \<leftarrow> slice inode 0 (unat part);
            b \<leftarrow> splice b (unat off) x;
            let (rc, s) = write_scratch1 blk (s\<lparr>scratch1 := Some b\<rparr>);
            if rc \<noteq> 0 then Some (- 1, s)
            else do {
              (rc, s) \<leftarrow> read_scratch1 (blk + 1) s;
              if rc \<noteq> 0 then Some (- 1, s)
              else do {
                b \<leftarrow> scratch1 s;
                y \<leftarrow> slice inode (unat part) (unat (fs_inode_size s - part));
                b \<leftarrow> splice b 0 y;
                Some (write_scratch1 (blk + 1) (s\<lparr>scratch1 := Some b\<rparr>)) } } } } })"

definition e4_is_dir :: "bytes \<Rightarrow> bool" where
  "e4_is_dir i \<longleftrightarrow> rd16 i I_mode AND 0xF000 = 0x4000"

definition e4_is_regular :: "bytes \<Rightarrow> bool" where
  "e4_is_regular i \<longleftrightarrow> rd16 i I_mode AND 0xF000 = 0x8000"

definition e4_inode_size :: "bytes \<Rightarrow> 'd ext4 \<Rightarrow> u64" where
  "e4_inode_size i s =
     (let sz = ucast (rd32 i I_size_lo) in
      if e4_is_dir i then sz
      else if fs_feat_ro_compat s AND FEAT_RO_LARGE_FILE \<noteq> 0
      then sz OR push_bit 32 (ucast (rd32 i I_size_or_dir_acl)) else sz)"

text \<open>The two checksums below read the owning inode first. Their block is always one of the two
  shared buffers, which that read may overwrite.\<close>

datatype sbuf = Scratch1 | Scratch2

fun sbuf_get :: "sbuf \<Rightarrow> 'd ext4 \<Rightarrow> bytes option" where
  "sbuf_get Scratch1 s = scratch1 s"
| "sbuf_get Scratch2 s = scratch2 s"

fun sbuf_put :: "sbuf \<Rightarrow> bytes \<Rightarrow> 'd ext4 \<Rightarrow> 'd ext4" where
  "sbuf_put Scratch1 b s = s\<lparr>scratch1 := Some b\<rparr>"
| "sbuf_put Scratch2 b s = s\<lparr>scratch2 := Some b\<rparr>"

definition e4_extent_block_checksum_set :: "u32 \<Rightarrow> sbuf \<Rightarrow> 'd ext4 \<Rightarrow> 'd ext4 option" where
  "e4_extent_block_checksum_set ino which s =
     (if \<not> fs_meta_csum s then Some s
      else do {
        (rc, host, s) \<leftarrow> e4_read_inode ino (uninit s) s;
        if rc \<noteq> 0 then Some s
        else do {
          eh \<leftarrow> sbuf_get which s;
          mx \<leftarrow> ld16 eh EH_max;
          let n = 12 + unat mx * 12;
          let crc = ext4_crc32c (e4_meta_seed s) (bytes32 ino);
          let crc = ext4_crc32c crc (bytes32 (rd32 host I_generation));
          d \<leftarrow> slice eh 0 n;
          let crc = ext4_crc32c crc d;
          eh \<leftarrow> st32 eh n crc;
          Some (sbuf_put which eh s) } })"

text \<open>The walk over the records of a directory block, to see that they end at its end.\<close>

function dir_chain_end :: "bytes \<Rightarrow> nat \<Rightarrow> nat \<Rightarrow> nat option option" where
  "dir_chain_end blk tp d =
     (if d < tp then do {
        rl \<leftarrow> ld16 blk (d + DE_rec_len);
        if rl < 8 \<or> rl AND 3 \<noteq> 0 then Some None else dir_chain_end blk tp (d + unat rl) }
      else Some (Some d))"
  by pat_completeness auto
termination
proof (relation "measure (\<lambda>(blk, tp, d). tp - d)")
  fix blk :: bytes and tp d :: nat and rl :: u16
  assume "d < tp" "\<not> (rl < 8 \<or> rl AND 3 \<noteq> 0)"
  then show "((blk, tp, d + unat rl), blk, tp, d) \<in> measure (\<lambda>(blk, tp, d). tp - d)"
    by (auto simp: word_less_nat_alt)
qed simp

declare dir_chain_end.simps [simp del]

definition e4_dir_block_checksum_set :: "u32 \<Rightarrow> sbuf \<Rightarrow> 'd ext4 \<Rightarrow> 'd ext4 option" where
  "e4_dir_block_checksum_set dir_ino which s =
     (if \<not> fs_meta_csum s then Some s
      else do {
        (rc, host, s) \<leftarrow> e4_read_inode dir_ino (uninit s) s;
        if rc \<noteq> 0 then Some s
        else do {
          blk \<leftarrow> sbuf_get which s;
          let tp = unat (fs_block_size s);
          e \<leftarrow> dir_chain_end blk tp 0;
          if e \<noteq> Some tp then Some s
          else do {
            chk (12 \<le> tp);
            let t = tp - 12;
            inode \<leftarrow> ld32 blk (t + DE_inode);
            nl \<leftarrow> ld8 blk (t + DE_name_len);
            rl \<leftarrow> ld16 blk (t + DE_rec_len);
            if inode \<noteq> 0 \<or> nl \<noteq> DIRENT_TAIL_MARKER \<or> rl \<noteq> 12 then Some s
            else do {
              let crc = ext4_crc32c (e4_meta_seed s) (bytes32 dir_ino);
              let crc = ext4_crc32c crc (bytes32 (rd32 host I_generation));
              d \<leftarrow> slice blk 0 (tp - 12);
              let crc = ext4_crc32c crc d;
              blk \<leftarrow> st32 blk (tp - 4) crc;
              Some (sbuf_put which blk s) } } } })"

end
