(* ===== verification/Ext4_Map.thy ===== *)
theory Ext4_Map
  imports Ext4_Base
begin

text \<open>
  The block map of \<open>fs/ext4_core.c\<close>: where the blocks of a file are, through the extent tree or the
  indirect blocks of its inode.
\<close>

section \<open>Extents\<close>

text \<open>The scan of the extents of a node from entry \<open>i\<close>; \<open>k\<close> entries are left. A node is the bytes
  from its header on.\<close>

fun leaf_scan :: "bytes \<Rightarrow> u64 \<Rightarrow> nat \<Rightarrow> nat \<Rightarrow> u64 option" where
  "leaf_scan node logical i 0 = Some 0"
| "leaf_scan node logical i (Suc k) = do {
     let e = 12 + 12 * i;
     fb \<leftarrow> ld32 node (e + EX_first_block);
     count \<leftarrow> ld16 node (e + EX_count);
     hi \<leftarrow> ld16 node (e + EX_start_hi);
     lo \<leftarrow> ld32 node (e + EX_start_lo);
     let unwritten = (count \<ge> 32768);
     let cnt = (if unwritten then ucast (count - 32768) else ucast count :: u32);
     if logical \<ge> ucast fb \<and> logical < ucast (fb + cnt)
     then Some (if unwritten then 0
                else (ucast lo OR push_bit 32 (ucast hi)) + logical - ucast fb)
     else leaf_scan node logical (i + 1) k }"

text \<open>The last index entry that starts at or before the block.\<close>

fun index_scan :: "bytes \<Rightarrow> u64 \<Rightarrow> nat \<Rightarrow> nat \<Rightarrow> nat option \<Rightarrow> nat option option" where
  "index_scan node logical i 0 found = Some found"
| "index_scan node logical i (Suc k) found = do {
     fb \<leftarrow> ld32 node (12 + 12 * i + IX_first_block);
     index_scan node logical (i + 1) k (if logical \<ge> ucast fb then Some i else found) }"

fun extent_walk :: "bytes \<Rightarrow> u64 \<Rightarrow> nat \<Rightarrow> u64 \<Rightarrow> 'd ext4 \<Rightarrow> (int \<times> u64 \<times> 'd ext4) option" where
  "extent_walk root logical 0 node_block s = do {
     entries \<leftarrow> ld16 root EH_entries;
     phys \<leftarrow> leaf_scan root logical 0 (unat entries);
     Some (0, phys, s) }"
| "extent_walk root logical (Suc depth) node_block s = do {
     (rc, s) \<leftarrow> read_scratch1 node_block s;
     if rc \<noteq> 0 then Some (- 1, 0, s)
     else do {
       node \<leftarrow> scratch1 s;
       entries \<leftarrow> ld16 node EH_entries;
       found \<leftarrow> index_scan node logical 0 (unat entries) None;
       case found of
         None \<Rightarrow> Some (- 1, 0, s)
       | Some chosen \<Rightarrow> do {
           lo \<leftarrow> ld32 node (12 + 12 * chosen + IX_leaf_lo);
           hi \<leftarrow> ld16 node (12 + 12 * chosen + IX_leaf_hi);
           extent_walk root logical depth (ucast lo OR push_bit 32 (ucast hi)) s } } }"

definition extent_lookup :: "bytes \<Rightarrow> u64 \<Rightarrow> 'd ext4 \<Rightarrow> (int \<times> u64 \<times> 'd ext4) option" where
  "extent_lookup inode logical s =
     (let root = drop I_block inode in
      if rd16 root EH_magic \<noteq> EXTENT_MAGIC then Some (- 1, 0, s)
      else extent_walk root logical (unat (rd16 root EH_depth)) 0 s)"

section \<open>Indirect blocks\<close>

fun u32_pow :: "u32 \<Rightarrow> nat \<Rightarrow> u32" where
  "u32_pow b 0 = 1"
| "u32_pow b (Suc k) = u32_pow b k * b"

text \<open>The descent from \<open>level\<close> down to level 0, \<open>n\<close> levels in all.\<close>

fun indirect_walk :: "u64 \<Rightarrow> u32 \<Rightarrow> nat \<Rightarrow> u64 \<Rightarrow> 'd ext4 \<Rightarrow> (int \<times> u64 \<times> 'd ext4) option" where
  "indirect_walk remaining bpp 0 ind s = Some (0, ind, s)"
| "indirect_walk remaining bpp (Suc level) ind s =
     (if ind = 0 then Some (0, 0, s)
      else do {
        (rc, s) \<leftarrow> read_scratch1 ind s;
        if rc \<noteq> 0 then Some (- 1, 0, s)
        else do {
          q \<leftarrow> udiv remaining (ucast (u32_pow bpp level));
          r \<leftarrow> umod q (ucast bpp);
          let slot = (ucast r :: u32);
          b \<leftarrow> scratch1 s;
          v \<leftarrow> ld32 b (unat (slot * 4));
          indirect_walk remaining bpp level (ucast v) s } })"

definition indirect_lookup :: "bytes \<Rightarrow> u64 \<Rightarrow> 'd ext4 \<Rightarrow> (int \<times> u64 \<times> 'd ext4) option" where
  "indirect_lookup inode logical s =
     (let bpp = fs_block_size s div 4;
          direct_max = 12 :: u32;
          single_max = direct_max + bpp;
          double_max = single_max + bpp * bpp in
      if logical < ucast direct_max
      then Some (0, ucast (rd32 inode (I_block + 4 * unat logical)), s)
      else
        let (which, remaining) =
              (if logical < ucast single_max then (12 :: nat, logical - ucast direct_max)
               else if logical < ucast double_max then (13, logical - ucast single_max)
               else (14, logical - ucast double_max))
        in indirect_walk remaining bpp (which - 11 + 1) (ucast (rd32 inode (I_block + 4 * which))) s)"

definition e4_bmap :: "bytes \<Rightarrow> u64 \<Rightarrow> 'd ext4 \<Rightarrow> (int \<times> u64 \<times> 'd ext4) option" where
  "e4_bmap inode file_block s =
     (if rd32 inode I_flags AND INO_FLAG_EXTENTS \<noteq> 0 then extent_lookup inode file_block s
      else indirect_lookup inode file_block s)"

end
