(* ===== verification/Ext4_Image.thy ===== *)
theory Ext4_Image
  imports Ext4_Base
begin

text \<open>
  The disk under the driver as one array of bytes, and what the block and inode layers of
  \<open>fs/ext4_core.c\<close> do to it.

  The driver of the disk is code behind function pointers. What is assumed of it is
  \<open>disk_ok\<close>, the contract stated in \<open>drivers/block/blkdev.h\<close>: sectors have 512 bytes, a transfer
  that returns 0 has moved the sectors it was asked for, and no transfer changes other sectors. A
  transfer may fail at any time.
\<close>

section \<open>The disk\<close>

definition disk_ok :: "('d \<Rightarrow> nat \<Rightarrow> bytes) \<Rightarrow> 'd blk_device \<Rightarrow> bool" where
  "disk_ok sect d \<longleftrightarrow>
     (\<forall>h i. length (sect h i) = 512) \<and>
     (\<exists>rd. bd_read_sectors d = Some rd \<and>
        (\<forall>lba n h rc b h'. rd lba n h = (rc, b, h') \<longrightarrow>
           sect h' = sect h \<and> length b \<le> 512 * unat n \<and>
           (rc = 0 \<longrightarrow> b = concat (map (sect h) [unat lba..<unat lba + unat n])))) \<and>
     (\<forall>wr. bd_write_sectors d = Some wr \<longrightarrow>
        (\<forall>lba n b h rc h'. wr lba n b h = (rc, h') \<longrightarrow> 512 * unat n \<le> length b \<longrightarrow>
           (\<forall>i. \<not> (unat lba \<le> i \<and> i < unat lba + unat n) \<longrightarrow> sect h' i = sect h i) \<and>
           (rc = 0 \<longrightarrow> (\<forall>i < unat n. sect h' (unat lba + i) = sub b (512 * i) 512))))"

text \<open>The disk as one array of bytes.\<close>

definition img :: "('d \<Rightarrow> nat \<Rightarrow> bytes) \<Rightarrow> 'd \<Rightarrow> nat \<Rightarrow> u8" where
  "img sect h a = sect h (a div 512) ! (a mod 512)"

definition img_range :: "('d \<Rightarrow> nat \<Rightarrow> bytes) \<Rightarrow> 'd \<Rightarrow> nat \<Rightarrow> nat \<Rightarrow> bytes" where
  "img_range sect h a n = map (img sect h) [a..<a + n]"

lemma length_img_range [simp]: "length (img_range sect h a n) = n"
  by (simp add: img_range_def)

lemma img_range_append: "img_range sect h a (m + n) = img_range sect h a m @ img_range sect h (a + m) n"
  using upt_add_eq_append [of a "a + m" n] by (simp add: img_range_def add.assoc)

lemma img_sector:
  assumes "length (sect h i) = 512"
  shows "img_range sect h (512 * i) 512 = sect h i"
  by (rule nth_equalityI) (use assms in \<open>auto simp: img_range_def img_def\<close>)

lemma img_sectors:
  assumes "\<And>i. length (sect h i) = 512"
  shows "concat (map (sect h) [l..<l + n]) = img_range sect h (512 * l) (512 * n)"
proof (induction n)
  case (Suc n)
  have "img_range sect h (512 * l) (512 * Suc n) = img_range sect h (512 * l) (512 * n + 512)"
    by (simp add: add.commute)
  also have "\<dots> = img_range sect h (512 * l) (512 * n) @ sect h (l + n)"
    using img_sector [of sect h "l + n"] assms by (simp add: img_range_append distrib_left)
  finally show ?case using Suc by simp
qed (simp add: img_range_def)

definition fs_ok :: "('d \<Rightarrow> nat \<Rightarrow> bytes) \<Rightarrow> 'd ext4 \<Rightarrow> bool" where
  "fs_ok sect s \<longleftrightarrow> (\<exists>d. fs_dev s = Some d \<and> disk_ok sect d) \<and>
     unat (fs_block_size s) = 512 * unat (fs_sectors_per_block s) \<and> fs_block_size s \<noteq> 0 \<and>
     unat (fs_block_size s) \<le> 8192 \<and>
     (\<exists>b. scratch1 s = Some b \<and> length b = unat (fs_block_size s)) \<and>
     (\<exists>b. scratch2 s = Some b \<and> length b = unat (fs_block_size s))"

text \<open>A block number whose sectors have numbers below \<open>2^64\<close>.\<close>

definition blk_fits :: "u64 \<Rightarrow> 'd ext4 \<Rightarrow> bool" where
  "blk_fits b s \<longleftrightarrow> (unat b + 1) * unat (fs_sectors_per_block s) \<le> 2 ^ 64"

definition blk_addr :: "u64 \<Rightarrow> 'd ext4 \<Rightarrow> nat" where
  "blk_addr b s = 512 * unat (b * ucast (fs_sectors_per_block s) :: u64)"

lemma upd_all: "length x = length b \<Longrightarrow> upd b 0 x = x"
  by (simp add: upd_def)

lemma fs_ok_sectors:
  "fs_ok sect s \<Longrightarrow> unat (fs_block_size s) = 512 * unat (fs_sectors_per_block s)"
  "fs_ok sect s \<Longrightarrow> fs_sectors_per_block s \<noteq> 0"
  by (auto simp: fs_ok_def unat_eq_zero)

lemma blk_addr_fits:
  assumes ok: "fs_ok sect s" and fits: "blk_fits blk s"
  shows "blk_addr blk s = unat blk * unat (fs_block_size s)"
proof -
  have "unat blk * unat (fs_sectors_per_block s) < 2 ^ 64"
    using fits fs_ok_sectors [OF ok] unat_gt_0 [of "fs_sectors_per_block s"]
    unfolding blk_fits_def distrib_right by linarith
  then show ?thesis by (simp add: unat_mult_small blk_addr_def fs_ok_sectors [OF ok])
qed

lemma e4_read_block_ok:
  assumes ok: "fs_ok sect s" and len: "length b = unat (fs_block_size s)"
  shows "\<exists>rc b' h. e4_read_block blk (Some b) s = Some (rc, Some b', s\<lparr>hw := h\<rparr>) \<and>
    length b' = unat (fs_block_size s) \<and> sect h = sect (hw s) \<and>
    (rc = 0 \<longrightarrow> b' = img_range sect (hw s) (blk_addr blk s) (unat (fs_block_size s)))"
proof -
  obtain d rd where d: "fs_dev s = Some d" "\<And>h i. length (sect h i) = 512" "bd_read_sectors d = Some rd"
    and rd: "\<And>lba n h rc b h'. rd lba n h = (rc, b, h') \<Longrightarrow>
           sect h' = sect h \<and> length b \<le> 512 * unat n \<and>
           (rc = 0 \<longrightarrow> b = concat (map (sect h) [unat lba..<unat lba + unat n]))"
    using ok unfolding fs_ok_def disk_ok_def by metis
  let ?n = "fs_sectors_per_block s"
  let ?lba = "blk * ucast ?n :: u64"
  note bs = fs_ok_sectors [OF ok] and lba = blk_addr_def [of blk s, symmetric]
  obtain rc x h where r: "rd ?lba ?n (hw s) = (rc, x, h)" by (metis prod.exhaust)
  have x: "sect h = sect (hw s)" "length x \<le> length b"
    "rc = 0 \<longrightarrow> x = img_range sect (hw s) (blk_addr blk s) (unat (fs_block_size s))"
    using rd [OF r] len bs(1) lba by (simp_all add: img_sectors d(2))
  show ?thesis
  proof (cases "?lba + ucast ?n > bd_sectors d \<and> bd_sectors d \<noteq> 0")
    case True
    then have "e4_read_block blk (Some b) s = Some (- 1, Some b, s\<lparr>hw := hw s\<rparr>)"
      using d(1) bs(2) by (simp add: e4_read_block_def blk_read_def)
    then show ?thesis using len by (intro exI [of _ "- 1"] exI [of _ b] exI [of _ "hw s"]) simp
  next
    case False
    have "splice b 0 x = Some (upd b 0 x)" using x(2) by simp
    with False have "e4_read_block blk (Some b) s = Some (rc, Some (upd b 0 x), s\<lparr>hw := h\<rparr>)"
      using d(1,3) bs(2) r by (auto simp: e4_read_block_def blk_read_def)
    moreover have "rc = 0 \<longrightarrow> upd b 0 x = x" using x(3) len by (simp add: upd_all)
    ultimately show ?thesis using x len by (intro exI [of _ rc] exI [of _ "upd b 0 x"] exI [of _ h]) simp
  qed
qed

lemma img_write:
  assumes len: "\<And>h i. length (sect h i) = 512" and b: "length b = 512 * n"
    and out: "\<And>i. \<not> (l \<le> i \<and> i < l + n) \<Longrightarrow> sect h' i = sect h i"
    and inn: "\<And>i. i < n \<Longrightarrow> sect h' (l + i) = sub b (512 * i) 512"
  shows "img sect h' a = (if 512 * l \<le> a \<and> a < 512 * l + 512 * n then b ! (a - 512 * l) else img sect h a)"
proof (cases "l \<le> a div 512 \<and> a div 512 < l + n")
  case True
  then obtain i where i: "a div 512 = l + i" "i < n" by (metis le_add_diff_inverse nat_add_left_cancel_less)
  have "a = 512 * (l + i) + a mod 512" using i(1) by (metis mult_div_mod_eq)
  then have "a - 512 * l = 512 * i + a mod 512" by (simp add: distrib_left)
  moreover have "512 * i + 512 \<le> length b" using i(2) b by simp
  moreover have "512 * l \<le> a \<and> a < 512 * l + 512 * n" using True by (auto simp: div_less_iff_less_mult)
  ultimately show ?thesis using inn [OF i(2)] i(1) by (simp add: img_def nth_sub)
next
  case False
  then have "\<not> (512 * l \<le> a \<and> a < 512 * l + 512 * n)" by auto
  with out [OF False] show ?thesis by (auto simp: img_def)
qed

lemma e4_write_block_ok:
  assumes ok: "fs_ok sect s" and len: "length b = unat (fs_block_size s)"
  shows "\<exists>rc h. e4_write_block blk (Some b) s = (rc, s\<lparr>hw := h\<rparr>) \<and>
    (\<forall>a. \<not> (blk_addr blk s \<le> a \<and> a < blk_addr blk s + length b) \<longrightarrow> img sect h a = img sect (hw s) a) \<and>
    (rc = 0 \<longrightarrow> fs_writable s \<and> img sect h = (\<lambda>a. if blk_addr blk s \<le> a \<and> a < blk_addr blk s + length b
       then b ! (a - blk_addr blk s) else img sect (hw s) a))"
proof -
  obtain d where d: "fs_dev s = Some d" "disk_ok sect d"
    using ok by (auto simp: fs_ok_def)
  have sec512: "length (sect h i) = 512" for h i
    using d(2) by (simp add: disk_ok_def)
  let ?n = "fs_sectors_per_block s"
  let ?lba = "blk * ucast ?n :: u64"
  note bs = fs_ok_sectors [OF ok] and lba = blk_addr_def [of blk s, symmetric]
  show ?thesis
  proof (cases "fs_writable s \<and> (\<exists>wr. bd_write_sectors d = Some wr) \<and> bd_writable d \<and>
      \<not> (?lba + ucast ?n > bd_sectors d \<and> bd_sectors d \<noteq> 0)")
    case False
    then have "e4_write_block blk (Some b) s = (- 1, s)"
      using d bs by (auto simp: e4_write_block_def blk_write_def split: option.splits)
    then show ?thesis by (intro exI [of _ "- 1"] exI [of _ "hw s"]) simp
  next
    case True
    then obtain wr where wr: "bd_write_sectors d = Some wr" by blast
    obtain rc h where r: "wr ?lba ?n b (hw s) = (rc, h)" by (metis prod.exhaust)
    have sec: "512 * unat ?n \<le> length b" using len bs by simp
    have w: "(\<forall>i. \<not> (unat ?lba \<le> i \<and> i < unat ?lba + unat ?n) \<longrightarrow> sect h i = sect (hw s) i) \<and>
        (rc = 0 \<longrightarrow> (\<forall>i < unat ?n. sect h (unat ?lba + i) = sub b (512 * i) 512))"
      using d(2) wr r sec unfolding disk_ok_def by blast
    have eq: "e4_write_block blk (Some b) s = (rc, s\<lparr>hw := h\<rparr>)"
      using d True wr r bs by (auto simp: e4_write_block_def blk_write_def)
    have "img sect h a = img sect (hw s) a"
      if "\<not> (blk_addr blk s \<le> a \<and> a < blk_addr blk s + length b)" for a
    proof -
      have "\<not> (unat ?lba \<le> a div 512 \<and> a div 512 < unat ?lba + unat ?n)"
        using that lba len bs by auto
      then show ?thesis using w by (simp add: img_def)
    qed
    moreover have "img sect h = (\<lambda>a. if blk_addr blk s \<le> a \<and> a < blk_addr blk s + length b
       then b ! (a - blk_addr blk s) else img sect (hw s) a)" if "rc = 0"
      using img_write [of sect b "unat ?n" "unat ?lba" h "hw s"] w sec512 that lba len bs by (intro ext) simp
    ultimately show ?thesis using eq True by blast
  qed
qed

lemma fs_ok_update [simp]:
  "fs_ok sect (s\<lparr>hw := h\<rparr>) = fs_ok sect s"
  "fs_ok sect s \<Longrightarrow> length b = unat (fs_block_size s) \<Longrightarrow> fs_ok sect (s\<lparr>scratch1 := Some b\<rparr>)"
  "fs_ok sect s \<Longrightarrow> length b = unat (fs_block_size s) \<Longrightarrow> fs_ok sect (s\<lparr>scratch2 := Some b\<rparr>)"
  by (auto simp: fs_ok_def)

lemma blk_update [simp]:
  "blk_fits b (s\<lparr>hw := h\<rparr>) = blk_fits b s" "blk_addr b (s\<lparr>hw := h\<rparr>) = blk_addr b s"
  "blk_fits b (s\<lparr>scratch1 := x\<rparr>) = blk_fits b s" "blk_addr b (s\<lparr>scratch1 := x\<rparr>) = blk_addr b s"
  "blk_fits b (s\<lparr>scratch2 := x\<rparr>) = blk_fits b s" "blk_addr b (s\<lparr>scratch2 := x\<rparr>) = blk_addr b s"
  by (simp_all add: blk_fits_def blk_addr_def)

text \<open>What a read into a shared buffer does.\<close>

lemma read_scratch1_ok:
  assumes "fs_ok sect s"
  shows "\<exists>rc b h. read_scratch1 blk s = Some (rc, s\<lparr>scratch1 := Some b, hw := h\<rparr>) \<and>
    length b = unat (fs_block_size s) \<and> sect h = sect (hw s) \<and>
    (rc = 0 \<longrightarrow> b = img_range sect (hw s) (blk_addr blk s) (unat (fs_block_size s)))"
proof -
  obtain b where "scratch1 s = Some b" "length b = unat (fs_block_size s)"
    using assms(1) by (auto simp: fs_ok_def)
  then obtain rc b' h where r: "e4_read_block blk (scratch1 s) s = Some (rc, Some b', s\<lparr>hw := h\<rparr>)"
      "length b' = unat (fs_block_size s)" "sect h = sect (hw s)"
      "rc = 0 \<longrightarrow> b' = img_range sect (hw s) (blk_addr blk s) (unat (fs_block_size s))"
    using e4_read_block_ok [OF assms, of b blk] by auto
  then show ?thesis
    by (intro exI [of _ rc] exI [of _ b'] exI [of _ h]) (simp add: read_scratch1_def)
qed
lemma read_scratch2_ok:
  assumes "fs_ok sect s"
  shows "\<exists>rc b h. read_scratch2 blk s = Some (rc, s\<lparr>scratch2 := Some b, hw := h\<rparr>) \<and>
    length b = unat (fs_block_size s) \<and> sect h = sect (hw s) \<and>
    (rc = 0 \<longrightarrow> b = img_range sect (hw s) (blk_addr blk s) (unat (fs_block_size s)))"
proof -
  obtain b where "scratch2 s = Some b" "length b = unat (fs_block_size s)"
    using assms(1) by (auto simp: fs_ok_def)
  then obtain rc b' h where r: "e4_read_block blk (scratch2 s) s = Some (rc, Some b', s\<lparr>hw := h\<rparr>)"
      "length b' = unat (fs_block_size s)" "sect h = sect (hw s)"
      "rc = 0 \<longrightarrow> b' = img_range sect (hw s) (blk_addr blk s) (unat (fs_block_size s))"
    using e4_read_block_ok [OF assms, of b blk] by auto
  then show ?thesis
    by (intro exI [of _ rc] exI [of _ b'] exI [of _ h]) (simp add: read_scratch2_def)
qed
definition patch :: "(nat \<Rightarrow> u8) \<Rightarrow> nat \<Rightarrow> bytes \<Rightarrow> nat \<Rightarrow> u8" where
  "patch f a xs = (\<lambda>i. if a \<le> i \<and> i < a + length xs then xs ! (i - a) else f i)"

lemma write_scratch1_ok:
  assumes "fs_ok sect s" and "scratch1 s = Some b"
  shows "\<exists>rc h. write_scratch1 blk s = (rc, s\<lparr>hw := h\<rparr>) \<and>
    (\<forall>a. \<not> (blk_addr blk s \<le> a \<and> a < blk_addr blk s + length b) \<longrightarrow> img sect h a = img sect (hw s) a) \<and>
    (rc = 0 \<longrightarrow> fs_writable s \<and> img sect h = patch (img sect (hw s)) (blk_addr blk s) b)"
proof -
  have "length b = unat (fs_block_size s)"
    using assms by (auto simp: fs_ok_def)
  from e4_write_block_ok [OF assms(1) this] show ?thesis
    unfolding patch_def assms(2) write_scratch1_def .
qed

lemma write_scratch2_ok:
  assumes "fs_ok sect s" and "scratch2 s = Some b"
  shows "\<exists>rc h. write_scratch2 blk s = (rc, s\<lparr>hw := h\<rparr>) \<and>
    (\<forall>a. \<not> (blk_addr blk s \<le> a \<and> a < blk_addr blk s + length b) \<longrightarrow> img sect h a = img sect (hw s) a) \<and>
    (rc = 0 \<longrightarrow> fs_writable s \<and> img sect h = patch (img sect (hw s)) (blk_addr blk s) b)"
proof -
  have "length b = unat (fs_block_size s)"
    using assms by (auto simp: fs_ok_def)
  from e4_write_block_ok [OF assms(1) this] show ?thesis
    unfolding patch_def assms(2) write_scratch2_def .
qed

section \<open>Inodes\<close>

lemma inode_location_off:
  assumes "inode_location ino s = Some (blk, off)" and "fs_block_size s \<noteq> 0"
  shows "unat off < unat (fs_block_size s)"
proof -
  obtain x :: u64 where off: "off = ucast (x mod ucast (fs_block_size s))"
    using assms by (auto simp: inode_location_def bind_simps Let_def)
  have "unat (x mod ucast (fs_block_size s)) < unat (fs_block_size s)"
    using assms(2) by (simp add: unat_mod_distrib unat_gt_0)
  moreover have "unat (fs_block_size s) < 2 ^ 32" using unsigned_less [of "fs_block_size s"] by simp
  ultimately show ?thesis by (simp add: off unat_ucast_down)
qed

lemma inode_table_block_update [simp]:
  "inode_table_block ino (s\<lparr>hw := h\<rparr>) = inode_table_block ino s"
  "inode_table_block ino (s\<lparr>scratch1 := x\<rparr>) = inode_table_block ino s"
  "inode_table_block ino (s\<lparr>scratch2 := x\<rparr>) = inode_table_block ino s"
  by (simp_all add: inode_table_block_def e4_gd_def cong: option.case_cong if_cong)

lemma inode_location_update [simp]:
  "inode_location ino (s\<lparr>hw := h\<rparr>) = inode_location ino s"
  "inode_location ino (s\<lparr>scratch1 := x\<rparr>) = inode_location ino s"
  "inode_location ino (s\<lparr>scratch2 := x\<rparr>) = inode_location ino s"
  by (simp_all add: inode_location_def)

text \<open>An inode that the driver can address: it is at most a block long and lies below the last
  sector number.\<close>

definition inode_at :: "u32 \<Rightarrow> 'd ext4 \<Rightarrow> nat \<Rightarrow> bool" where
  "inode_at ino s a \<longleftrightarrow> fs_inode_size s \<le> fs_block_size s \<and>
     (\<exists>blk off. inode_location ino s = Some (blk, off) \<and> a = blk_addr blk s + unat off \<and>
        (unat blk + 2) * unat (fs_sectors_per_block s) \<le> 2 ^ 64)"

lemma blk_addr_next:
  assumes ok: "fs_ok sect s" and le: "(unat blk + 2) * unat (fs_sectors_per_block s) \<le> 2 ^ 64"
  shows "blk_addr (blk + 1) s = blk_addr blk s + unat (fs_block_size s)"
proof -
  have "0 < unat (fs_sectors_per_block s)" using fs_ok_sectors [OF ok] by (simp add: unat_gt_0)
  then have "unat blk + 2 \<le> (unat blk + 2) * unat (fs_sectors_per_block s)"
    by (metis One_nat_def Suc_leI mult.right_neutral mult_le_mono2)
  then have n: "unat (blk + 1) = unat blk + 1" using le by (subst unat_add_small) auto
  then have "blk_fits blk s" "blk_fits (blk + 1) s" using le by (simp_all add: blk_fits_def)
  then show ?thesis using n by (simp add: blk_addr_fits [OF ok])
qed

lemma sub_img_range: "i + n \<le> m \<Longrightarrow> sub (img_range sect h a m) i n = img_range sect h (a + i) n"
  by (rule nth_equalityI) (auto simp: nth_sub img_range_def add.assoc)

lemma img_range_cong: "sect h = sect h' \<Longrightarrow> img_range sect h a n = img_range sect h' a n"
  by (simp add: img_range_def img_def)

lemma upd_upd_append:
  "length x + length y \<le> length b \<Longrightarrow> upd (upd b 0 x) (length x) y = upd b 0 (x @ y)"
  by (simp add: upd_def add.commute)

lemma fs_ok_buffers:
  assumes "fs_ok sect s"
  obtains b1 b2 where "scratch1 s = Some b1" "length b1 = unat (fs_block_size s)"
    "scratch2 s = Some b2" "length b2 = unat (fs_block_size s)"
  using assms by (auto simp: fs_ok_def)

text \<open>A step that only transfers data: the shared buffers and the hardware change.\<close>

definition io_step :: "'d ext4 \<Rightarrow> 'd ext4 \<Rightarrow> bool" where
  "io_step s s' \<longleftrightarrow> (\<exists>b1 b2 h. s' = s\<lparr>scratch1 := Some b1, scratch2 := Some b2, hw := h\<rparr> \<and>
     length b1 = unat (fs_block_size s) \<and> length b2 = unat (fs_block_size s))"

lemma io_stepI:
  assumes "fs_ok sect s"
  shows "length b = unat (fs_block_size s) \<Longrightarrow> io_step s (s\<lparr>scratch1 := Some b, hw := h\<rparr>)"
    "length b = unat (fs_block_size s) \<Longrightarrow> io_step s (s\<lparr>scratch2 := Some b, hw := h\<rparr>)"
    "length b = unat (fs_block_size s) \<Longrightarrow> length b' = unat (fs_block_size s) \<Longrightarrow>
      io_step s (s\<lparr>scratch1 := Some b, scratch2 := Some b', hw := h\<rparr>)"
    "io_step s (s\<lparr>hw := h\<rparr>)" "io_step s s"
proof -
  obtain b1 b2 where b: "scratch1 s = Some b1" "length b1 = unat (fs_block_size s)"
    "scratch2 s = Some b2" "length b2 = unat (fs_block_size s)"
    using fs_ok_buffers [OF assms] .
  have eq: "s = s\<lparr>scratch1 := Some b1, scratch2 := Some b2, hw := hw s\<rparr>" using b by simp
  show "length b = unat (fs_block_size s) \<Longrightarrow> io_step s (s\<lparr>scratch1 := Some b, hw := h\<rparr>)"
    unfolding io_step_def using b by (intro exI [of _ b] exI [of _ b2] exI [of _ h]) simp
  show "length b = unat (fs_block_size s) \<Longrightarrow> io_step s (s\<lparr>scratch2 := Some b, hw := h\<rparr>)"
    unfolding io_step_def using b by (intro exI [of _ b1] exI [of _ b] exI [of _ h]) simp
  show "length b = unat (fs_block_size s) \<Longrightarrow> length b' = unat (fs_block_size s) \<Longrightarrow>
      io_step s (s\<lparr>scratch1 := Some b, scratch2 := Some b', hw := h\<rparr>)"
    unfolding io_step_def by blast
  show "io_step s (s\<lparr>hw := h\<rparr>)"
    unfolding io_step_def using b by (intro exI [of _ b1] exI [of _ b2] exI [of _ h]) simp
  show "io_step s s"
    unfolding io_step_def by (intro exI conjI) (rule eq b)+
qed

lemma io_step_fs_ok: "io_step s s' \<Longrightarrow> fs_ok sect s \<Longrightarrow> fs_ok sect s'"
  by (auto simp: io_step_def fs_ok_def)

lemma io_step_inode_at: "io_step s s' \<Longrightarrow> inode_at ino s' a = inode_at ino s a"
  by (auto simp: io_step_def inode_at_def blk_addr_def)

lemma small_sum:
  assumes "fs_ok sect s" and "inode_location ino s = Some (blk, off)" and "fs_inode_size s \<le> fs_block_size s"
  shows "off + fs_inode_size s \<le> fs_block_size s \<longleftrightarrow>
      unat off + unat (fs_inode_size s) \<le> unat (fs_block_size s)"
proof -
  have "unat off < 8192" "unat (fs_inode_size s) \<le> 8192"
    using inode_location_off [OF assms(2)] assms by (auto simp: fs_ok_def word_le_nat_alt)
  then have "unat (off + fs_inode_size s) = unat off + unat (fs_inode_size s)"
    by (intro unat_add_small) simp
  then show ?thesis by (simp add: word_le_nat_alt)
qed

lemma e4_read_inode_ok:
  assumes ok: "fs_ok sect s" and at: "inode_at ino s a" and len: "unat (fs_inode_size s) \<le> length out"
  shows "\<exists>rc out' s'. e4_read_inode ino out s = Some (rc, out', s') \<and> io_step s s' \<and>
    sect (hw s') = sect (hw s) \<and> length out' = length out \<and>
    (rc = 0 \<longrightarrow> out' = upd out 0 (img_range sect (hw s) a (unat (fs_inode_size s))))"
proof -
  obtain blk off where loc: "inode_location ino s = Some (blk, off)" "a = blk_addr blk s + unat off"
    "(unat blk + 2) * unat (fs_sectors_per_block s) \<le> 2 ^ 64" and isz: "fs_inode_size s \<le> fs_block_size s"
    using at by (auto simp: inode_at_def)
  note nxt = blk_addr_next [OF ok loc(3)]
  obtain rc b h where r: "read_scratch1 blk s = Some (rc, s\<lparr>scratch1 := Some b, hw := h\<rparr>)"
    "length b = unat (fs_block_size s)" "sect h = sect (hw s)"
    "rc = 0 \<Longrightarrow> b = img_range sect (hw s) (blk_addr blk s) (unat (fs_block_size s))"
    using read_scratch1_ok [OF ok, of blk] by auto
  let ?s1 = "s\<lparr>scratch1 := Some b, hw := h\<rparr>"
  obtain rc2 b2 h2 where r2: "read_scratch2 (blk + 1) ?s1 =
      Some (rc2, s\<lparr>scratch1 := Some b, scratch2 := Some b2, hw := h2\<rparr>)"
    "length b2 = unat (fs_block_size s)" "sect h2 = sect h"
    "rc2 = 0 \<Longrightarrow> b2 = img_range sect h (blk_addr (blk + 1) s) (unat (fs_block_size s))"
    using read_scratch2_ok [of sect ?s1 "blk + 1"] ok r(2) by auto
  let ?n = "unat (fs_inode_size s)"
  have off: "unat off < unat (fs_block_size s)"
    using inode_location_off [OF loc(1)] ok by (simp add: fs_ok_def)
  consider "ino < 1 \<or> ino > fs_inodes_count s"
    | "\<not> (ino < 1 \<or> ino > fs_inodes_count s)" "rc \<noteq> 0"
    | "\<not> (ino < 1 \<or> ino > fs_inodes_count s)" "rc = 0" "unat off + ?n \<le> unat (fs_block_size s)"
    | "\<not> (ino < 1 \<or> ino > fs_inodes_count s)" "rc = 0" "\<not> unat off + ?n \<le> unat (fs_block_size s)" "rc2 \<noteq> 0"
    | "\<not> (ino < 1 \<or> ino > fs_inodes_count s)" "rc = 0" "\<not> unat off + ?n \<le> unat (fs_block_size s)" "rc2 = 0"
    by blast
  then show ?thesis
  proof cases
    case 1
    then show ?thesis using io_stepI(5) [OF ok] by (simp add: e4_read_inode_def)
  next
    case 2
    then show ?thesis using io_stepI(1) [OF ok r(2)] r loc by (simp add: e4_read_inode_def)
  next
    case 3
    then show ?thesis
      using io_stepI(1) [OF ok r(2)] r loc len small_sum [OF ok loc(1) isz]
      by (simp add: e4_read_inode_def sub_img_range)
  next
    case 4
    then show ?thesis
      using io_stepI(3) [OF ok r(2) r2(2)] r r2 loc len small_sum [OF ok loc(1) isz]
      by (simp add: e4_read_inode_def)
  next
    case 5
    let ?k = "unat (fs_block_size s) - unat off"
    have k: "unat (fs_block_size s - off) = ?k"
      using off by (simp add: unat_sub word_le_nat_alt)
    have "?k \<le> ?n" using 5 by simp
    then have k2: "unat (fs_inode_size s - (fs_block_size s - off)) = ?n - ?k"
      using k by (simp add: unat_sub word_le_nat_alt)
    have k3: "?n - ?k \<le> unat (fs_block_size s)" using isz by (simp add: word_le_nat_alt)
    let ?x = "img_range sect (hw s) a ?k" and ?y = "img_range sect (hw s) (a + ?k) (?n - ?k)"
    have "sub b (unat off) ?k = ?x"
      using r(4) 5 off loc(2) by (simp add: sub_img_range)
    moreover have "sub b2 0 (?n - ?k) = ?y"
      using r2(4) 5 off loc(2) k3 nxt by (simp add: sub_img_range img_range_cong [OF r(3)])
    moreover have "upd (upd out 0 ?x) ?k ?y = upd out 0 (img_range sect (hw s) a ?n)"
      using upd_upd_append [of ?x ?y out] img_range_append [of sect "hw s" a ?k "?n - ?k"] \<open>?k \<le> ?n\<close> len
      by simp
    ultimately show ?thesis
      using 5 io_stepI(3) [OF ok r(2) r2(2)] r(1-3) r2(1-3) loc(1) len small_sum [OF ok loc(1) isz]
        off \<open>?k \<le> ?n\<close> k3
      by (simp add: e4_read_inode_def k k2)
  qed
qed

lemma io_update_order [simp]:
  "s\<lparr>hw := h, scratch1 := x\<rparr> = s\<lparr>scratch1 := x, hw := h\<rparr>"
  "s\<lparr>hw := h, scratch2 := y\<rparr> = s\<lparr>scratch2 := y, hw := h\<rparr>"
  "s\<lparr>scratch2 := y, scratch1 := x\<rparr> = s\<lparr>scratch1 := x, scratch2 := y\<rparr>"
  by (cases s; simp)+

lemma patch_range:
  assumes "off + length x \<le> n"
  shows "patch (img sect h) a (upd (img_range sect h a n) off x) = patch (img sect h) (a + off) x"
proof
  fix i
  have len: "length (upd (img_range sect h a n) off x) = n" using assms by simp
  show "patch (img sect h) a (upd (img_range sect h a n) off x) i = patch (img sect h) (a + off) x i"
  proof (cases "a \<le> i \<and> i < a + n")
    case True
    then have "upd (img_range sect h a n) off x ! (i - a) =
        (if off \<le> i - a \<and> i - a < off + length x then x ! (i - a - off) else img sect h i)"
      using assms by (subst nth_upd) (auto simp: img_range_def)
    with True len show ?thesis by (auto simp: patch_def)
  next
    case False
    with len assms show ?thesis by (auto simp: patch_def)
  qed
qed

lemma patch_append: "patch (patch f a x) (a + length x) y = patch f a (x @ y)"
  by (rule ext) (auto simp: patch_def nth_append)

lemma e4_write_inode_ok:
  assumes ok: "fs_ok sect s" and at: "inode_at ino s a" and len: "unat (fs_inode_size s) \<le> length x"
  shows "\<exists>rc s'. e4_write_inode ino x s = Some (rc, s') \<and> io_step s s' \<and>
    (rc = 0 \<longrightarrow> img sect (hw s') = patch (img sect (hw s)) a (take (unat (fs_inode_size s)) x))"
proof -
  obtain blk off where loc: "inode_location ino s = Some (blk, off)" "a = blk_addr blk s + unat off"
    "(unat blk + 2) * unat (fs_sectors_per_block s) \<le> 2 ^ 64" and isz: "fs_inode_size s \<le> fs_block_size s"
    using at by (auto simp: inode_at_def)
  note nxt = blk_addr_next [OF ok loc(3)]
  obtain rc b h where r: "read_scratch1 blk s = Some (rc, s\<lparr>scratch1 := Some b, hw := h\<rparr>)"
    "length b = unat (fs_block_size s)" "sect h = sect (hw s)"
    "rc = 0 \<Longrightarrow> b = img_range sect (hw s) (blk_addr blk s) (unat (fs_block_size s))"
    using read_scratch1_ok [OF ok, of blk] by auto
  let ?n = "unat (fs_inode_size s)"
  have off: "unat off < unat (fs_block_size s)"
    using inode_location_off [OF loc(1)] ok by (simp add: fs_ok_def)
  consider "ino < 1 \<or> ino > fs_inodes_count s \<or> \<not> fs_writable s"
    | "\<not> (ino < 1 \<or> ino > fs_inodes_count s \<or> \<not> fs_writable s)" "rc \<noteq> 0"
    | "\<not> (ino < 1 \<or> ino > fs_inodes_count s \<or> \<not> fs_writable s)" "rc = 0"
        "unat off + ?n \<le> unat (fs_block_size s)"
    | "\<not> (ino < 1 \<or> ino > fs_inodes_count s \<or> \<not> fs_writable s)" "rc = 0"
        "\<not> unat off + ?n \<le> unat (fs_block_size s)"
    by blast
  then show ?thesis
  proof cases
    case 1
    then show ?thesis using io_stepI(5) [OF ok] by (auto simp: e4_write_inode_def)
  next
    case 2
    then show ?thesis using io_stepI(1) [OF ok r(2)] r loc by (simp add: e4_write_inode_def)
  next
    case 3
    let ?b = "upd b (unat off) (sub x 0 ?n)"
    have b: "length ?b = unat (fs_block_size s)" using 3 r(2) len by simp
    let ?s1 = "s\<lparr>scratch1 := Some ?b, hw := h\<rparr>"
    obtain rc2 h2 where w: "write_scratch1 blk ?s1 = (rc2, s\<lparr>scratch1 := Some ?b, hw := h2\<rparr>)"
      "rc2 = 0 \<longrightarrow> img sect h2 = patch (img sect h) (blk_addr blk s) ?b"
      using write_scratch1_ok [of sect ?s1 ?b blk] ok b by auto
    have "patch (img sect h) (blk_addr blk s) ?b = patch (img sect (hw s)) a (take ?n x)"
      using 3 r len loc(2) patch_range [of "unat off" "sub x 0 ?n" "unat (fs_block_size s)" sect "hw s" "blk_addr blk s"]
      by (simp add: img_def [abs_def] sub_def)
    then show ?thesis
      using 3 w io_stepI(1) [OF ok b] r(1,2) loc len small_sum [OF ok loc(1) isz] b
      by (simp add: e4_write_inode_def)
  next
    case 4
    let ?k = "unat (fs_block_size s) - unat off"
    have k: "unat (fs_block_size s - off) = ?k"
      using off by (simp add: unat_sub word_le_nat_alt)
    have kn: "?k \<le> ?n" using 4 by simp
    then have k2: "unat (fs_inode_size s - (fs_block_size s - off)) = ?n - ?k"
      using k by (simp add: unat_sub word_le_nat_alt)
    have k3: "?n - ?k \<le> unat (fs_block_size s)" using isz by (simp add: word_le_nat_alt)
    let ?x = "sub x 0 ?k" and ?y = "sub x ?k (?n - ?k)"
    let ?b = "upd b (unat off) ?x"
    have b: "length ?b = unat (fs_block_size s)" using r(2) len kn off by simp
    let ?s1 = "s\<lparr>scratch1 := Some ?b, hw := h\<rparr>"
    obtain rc2 h2 where w: "write_scratch1 blk ?s1 = (rc2, s\<lparr>scratch1 := Some ?b, hw := h2\<rparr>)"
      "rc2 = 0 \<longrightarrow> img sect h2 = patch (img sect h) (blk_addr blk s) ?b"
      using write_scratch1_ok [of sect ?s1 ?b blk] ok b by auto
    let ?s2 = "s\<lparr>scratch1 := Some ?b, hw := h2\<rparr>"
    obtain rc3 b3 h3 where r3: "read_scratch1 (blk + 1) ?s2 = Some (rc3, s\<lparr>scratch1 := Some b3, hw := h3\<rparr>)"
      "length b3 = unat (fs_block_size s)" "sect h3 = sect h2"
      "rc3 = 0 \<longrightarrow> b3 = img_range sect h2 (blk_addr (blk + 1) s) (unat (fs_block_size s))"
      using read_scratch1_ok [of sect ?s2 "blk + 1"] ok b by auto
    let ?b4 = "upd b3 0 ?y"
    have b4: "length ?b4 = unat (fs_block_size s)" using r3(2) len k3 kn by simp
    let ?s3 = "s\<lparr>scratch1 := Some ?b4, hw := h3\<rparr>"
    obtain rc4 h4 where w4: "write_scratch1 (blk + 1) ?s3 = (rc4, s\<lparr>scratch1 := Some ?b4, hw := h4\<rparr>)"
      "rc4 = 0 \<longrightarrow> img sect h4 = patch (img sect h3) (blk_addr (blk + 1) s) ?b4"
      using write_scratch1_ok [of sect ?s3 ?b4 "blk + 1"] ok b4 by auto
    have img: "img sect h = img sect (hw s)" "img sect h3 = img sect h2"
      using r(3) r3(3) by (simp_all add: img_def [abs_def])
    have lens: "length ?x = ?k" "length ?y = ?n - ?k" using len kn by simp_all
    have ends: "blk_addr (blk + 1) s = a + length ?x" using nxt loc(2) off lens by simp
    have p1: "rc2 = 0 \<longrightarrow> img sect h2 = patch (img sect (hw s)) a ?x"
      using w(2) r(4) 4 img loc(2) lens off
        patch_range [of "unat off" ?x "unat (fs_block_size s)" sect "hw s" "blk_addr blk s"] by simp
    have p2: "img sect h4 = patch (img sect (hw s)) a (?x @ ?y)" if z: "rc2 = 0" "rc3 = 0" "rc4 = 0"
    proof -
      have "img sect h4 = patch (img sect h2) (a + length ?x) ?b4"
        using z w4(2) img(2) ends by simp
      also have "\<dots> = patch (img sect h2) (a + length ?x) ?y"
        using z r3(4) lens k3 ends patch_range [of 0 ?y "unat (fs_block_size s)" sect h2 "a + length ?x"] by simp
      also have "\<dots> = patch (patch (img sect (hw s)) a ?x) (a + length ?x) ?y"
        using z p1 by simp
      finally show ?thesis by (simp only: patch_append)
    qed
    have "?x @ ?y = take ?n x"
      using len kn by (simp add: sub_def take_add [symmetric] flip: le_add_diff_inverse)
    then show ?thesis
      using 4 w r(1,2) r3 w4 p2 io_stepI(1) [OF ok b] io_stepI(1) [OF ok b4] io_stepI(1) [OF ok r3(2)]
        loc len small_sum [OF ok loc(1) isz] off kn k3
      by (cases "rc2 = 0"; cases "rc3 = 0") (simp_all add: e4_write_inode_def k k2)
  qed
qed

section \<open>A disk in memory\<close>

text \<open>A concrete disk, and a small mounted file system on it: one group, descriptor table in block 1,
  block bitmap in block 3, inode bitmap in block 4, inode table from block 5.\<close>

definition ram_sect :: "(nat \<Rightarrow> bytes) \<Rightarrow> nat \<Rightarrow> bytes" where
  "ram_sect h i = take 512 (h i @ replicate 512 0)"

definition ram_read :: "u64 \<Rightarrow> u32 \<Rightarrow> (nat \<Rightarrow> bytes) \<Rightarrow> int \<times> bytes \<times> (nat \<Rightarrow> bytes)" where
  "ram_read lba n h = (0, concat (map (ram_sect h) [unat lba..<unat lba + unat n]), h)"

definition ram_write :: "u64 \<Rightarrow> u32 \<Rightarrow> bytes \<Rightarrow> (nat \<Rightarrow> bytes) \<Rightarrow> int \<times> (nat \<Rightarrow> bytes)" where
  "ram_write lba n b h =
     (0, \<lambda>i. if unat lba \<le> i \<and> i < unat lba + unat n then sub b (512 * (i - unat lba)) 512 else h i)"

definition ram_device :: "(nat \<Rightarrow> bytes) blk_device" where
  "ram_device = \<lparr>bd_name = [114, 97, 109] @ replicate 21 0, bd_sectors = 0, bd_sector_size = 512,
     bd_present = True, bd_writable = True, bd_read_sectors = Some ram_read,
     bd_write_sectors = Some ram_write\<rparr>"

definition demo_fs :: "u32 \<Rightarrow> (nat \<Rightarrow> bytes) \<Rightarrow> (nat \<Rightarrow> bytes) ext4" where
  "demo_fs bs h =
     \<lparr>fs_dev = Some ram_device, fs_block_size = bs, fs_sectors_per_block = 1, fs_blocks_count = 64,
      fs_inodes_count = 16, fs_blocks_per_group = 64, fs_inodes_per_group = 16, fs_group_count = 1,
      fs_first_data_block = 0, fs_inode_size = 128, fs_desc_size = 32, fs_first_ino = 11,
      fs_feat_compat = 0, fs_feat_incompat = 0, fs_feat_ro_compat = 0, fs_has_extents = True,
      fs_has_64bit = False, fs_meta_csum = False, fs_gdt_csum = False, fs_csum_seed_feat = False,
      fs_writable = True, fs_csum_seed = 0, fs_uuid = replicate 16 0, fs_sb = replicate 1024 0,
      fs_gdt = Some ([3, 0, 0, 0, 4, 0, 0, 0, 5, 0, 0, 0, 40, 0] @ replicate 18 0),
      scratch1 = Some (replicate (unat bs) 0), scratch2 = Some (replicate (unat bs) 0),
      jin = replicate 256 0, committed = replicate 256 0, n_committed = 0, last_commit_seq = 0,
      revbits = None, uninit = replicate 256 0, hw = h, kheap = heap_boot, clk = clock_boot,
      registry = blkdev_init, klog = []\<rparr>"

lemma length_ram_sect [simp]: "length (ram_sect h i) = 512"
  by (simp add: ram_sect_def)

lemma length_ram_sects: "length (concat (map (ram_sect h) [l..<l + n])) = 512 * n"
  by (induction n) simp_all

lemma disk_ok_ram: "disk_ok ram_sect ram_device"
  unfolding disk_ok_def
proof (intro conjI allI impI)
  show "\<exists>rd. bd_read_sectors ram_device = Some rd \<and>
     (\<forall>lba n h rc b h'. rd lba n h = (rc, b, h') \<longrightarrow> ram_sect h' = ram_sect h \<and>
        length b \<le> 512 * unat n \<and> (rc = 0 \<longrightarrow> b = concat (map (ram_sect h) [unat lba..<unat lba + unat n])))"
    by (auto simp: ram_device_def ram_read_def length_ram_sects)
qed (auto simp: ram_device_def ram_write_def ram_sect_def)

lemma fs_ok_demo: "fs_ok ram_sect (demo_fs 512 h)"
  by (simp add: fs_ok_def demo_fs_def disk_ok_ram)

lemmas demo_defs = demo_fs_def ram_device_def ram_read_def ram_write_def ram_sect_def
  e4_read_block_def e4_write_block_def blk_read_def blk_write_def upd_def sub_def
  rd8_def rd16_def rd32_def le16_def le32_def


lemma img_range_patch:
  "img sect h' = patch (img sect h) a x \<Longrightarrow> img_range sect h' a (length x) = x"
  "img sect h' = patch (img sect h) a x \<Longrightarrow> b + n \<le> a \<or> a + length x \<le> b \<Longrightarrow>
    img_range sect h' b n = img_range sect h b n"
  by (auto simp: img_range_def patch_def intro!: nth_equalityI)

text \<open>C17: an inode written with success is read back byte for byte when the read succeeds, also when it
  straddles two blocks, and every inode at other addresses still reads as it was on the disk before. Both
  calls return in every case.\<close>

theorem e4_write_read_inode:
  assumes ok: "fs_ok sect s" and at: "inode_at ino s a" and at2: "inode_at ino2 s a2"
    and x: "unat (fs_inode_size s) \<le> length x" and out: "unat (fs_inode_size s) \<le> length out"
    and disj: "ino2 = ino \<or> a2 + unat (fs_inode_size s) \<le> a \<or> a + unat (fs_inode_size s) \<le> a2"
  shows "\<exists>rc s1. e4_write_inode ino x s = Some (rc, s1) \<and>
    (rc = 0 \<longrightarrow> (\<exists>rc2 out' s2. e4_read_inode ino2 out s1 = Some (rc2, out', s2) \<and>
       (rc2 = 0 \<longrightarrow> out' = (if ino2 = ino then take (unat (fs_inode_size s)) x
          else img_range sect (hw s) a2 (unat (fs_inode_size s))) @ drop (unat (fs_inode_size s)) out)))"
proof -
  let ?n = "unat (fs_inode_size s)"
  obtain rc s1 where w: "e4_write_inode ino x s = Some (rc, s1)" "io_step s s1"
    "rc = 0 \<longrightarrow> img sect (hw s1) = patch (img sect (hw s)) a (take ?n x)"
    using e4_write_inode_ok [OF ok at x] by auto
  have n: "fs_inode_size s1 = fs_inode_size s" using w(2) by (auto simp: io_step_def)
  obtain rc2 out' s2 where r: "e4_read_inode ino2 out s1 = Some (rc2, out', s2)"
    "rc2 = 0 \<longrightarrow> out' = upd out 0 (img_range sect (hw s1) a2 ?n)"
    using e4_read_inode_ok [OF io_step_fs_ok [OF w(2) ok], of ino2 a2 out] at2 out n w(2)
    by (auto simp: io_step_inode_at)
  have "a2 = a" if "ino2 = ino" using that at at2 by (auto simp: inode_at_def)
  then have "img_range sect (hw s1) a2 ?n = (if ino2 = ino then take ?n x else img_range sect (hw s) a2 ?n)"
    if "rc = 0"
    using img_range_patch(1) [of sect "hw s1" "hw s" a "take ?n x"]
      img_range_patch(2) [of sect "hw s1" "hw s" a "take ?n x" a2 ?n] w(3) that x disj
    by auto
  with w(1) r show ?thesis using x by (auto simp: upd_def)
qed

theorem e4_write_read_inode_witness:
  "\<exists>s1. e4_write_inode 2 (replicate 256 7) (demo_fs 512 (\<lambda>_. [])) = Some (0, s1) \<and>
     (\<exists>rc2 out' s2. e4_read_inode 2 (replicate 256 0) s1 = Some (rc2, out', s2) \<and>
        (rc2 = 0 \<longrightarrow> out' = replicate 128 7 @ replicate 128 0))"
proof -
  let ?s = "demo_fs 512 (\<lambda>_. [])"
  have at: "inode_at 2 ?s (5 * 512 + 128)"
    by (simp add: inode_at_def inode_location_def inode_table_block_def e4_gd_def blk_addr_def demo_defs)
  obtain s1 where s1: "e4_write_inode 2 (replicate 256 7) ?s = Some (0, s1)"
    by (simp add: e4_write_inode_def inode_location_def inode_table_block_def e4_gd_def
        read_scratch1_def write_scratch1_def demo_defs)
  have n: "fs_inode_size ?s = 128" by (simp add: demo_fs_def)
  show ?thesis
    using e4_write_read_inode [OF fs_ok_demo at at, of "replicate 256 7" "replicate 256 0"]
    unfolding s1 n by simp
qed

end
