(* ===== verification/Bitmap.thy ===== *)
theory Bitmap
  imports Prelude
begin

text \<open>
  The interface of a bitmap: a test, and the two updates, of the bit with a given index. A client
  relies on the two laws only. The bitmaps of the kernel are instances: the block and inode bitmaps
  of the ext4 driver, and the frame bitmaps of the physical memory managers.
\<close>

locale bitmap =
  fixes test :: "'b \<Rightarrow> 'i \<Rightarrow> bool option"
    and mark :: "'b \<Rightarrow> 'i \<Rightarrow> 'b option"
    and unmark :: "'b \<Rightarrow> 'i \<Rightarrow> 'b option"
  assumes mark_law:
      "test b i = Some v \<Longrightarrow> \<exists>b'. mark b i = Some b' \<and> (\<forall>j. test b' j = (if j = i then Some True else test b j))"
    and unmark_law:
      "test b i = Some v \<Longrightarrow> \<exists>b'. unmark b i = Some b' \<and> (\<forall>j. test b' j = (if j = i then Some False else test b j))"
    and mark_inside: "mark b i = Some b' \<Longrightarrow> \<exists>v. test b i = Some v"
    and unmark_inside: "unmark b i = Some b' \<Longrightarrow> \<exists>v. test b i = Some v"
begin

lemma test_mark: "mark b i = Some b' \<Longrightarrow> test b' j = (if j = i then Some True else test b j)"
  using mark_inside mark_law by (metis option.inject)

lemma test_unmark: "unmark b i = Some b' \<Longrightarrow> test b' j = (if j = i then Some False else test b j)"
  using unmark_inside unmark_law by (metis option.inject)

text \<open>Taking a free bit and giving it back leaves every test as it was.\<close>

lemma mark_unmark:
  assumes "test b i = Some False"
  shows "\<exists>b' b''. mark b i = Some b' \<and> unmark b' i = Some b'' \<and> test b'' = test b"
proof -
  obtain b' where b': "mark b i = Some b'" "\<And>j. test b' j = (if j = i then Some True else test b j)"
    using mark_law [OF assms] by blast
  obtain b'' where "unmark b' i = Some b''" "\<And>j. test b'' j = (if j = i then Some False else test b' j)"
    using unmark_law [of b' i True] b'(2) by auto
  moreover from this b' assms have "test b'' = test b" by (intro ext) auto
  ultimately show ?thesis using b'(1) by blast
qed

end

end
