(* ===== verification/Ext4_Alloc.thy ===== *)
theory Ext4_Alloc
  imports Ext4_Image Bitmap
begin

text \<open>
  Block and inode allocation of \<open>fs/ext4_core.c\<close>: the bitmaps of the groups, the free counts of the
  group descriptors and of the superblock.
\<close>

section \<open>Bitmaps\<close>

text \<open>\<open>bm[i >> 3] & (1u << (i & 7))\<close> and the two updates.\<close>

definition bm_test :: "bytes \<Rightarrow> u32 \<Rightarrow> bool option" where
  "bm_test bm i = do {
     v \<leftarrow> ld8 bm (unat (drop_bit 3 i));
     Some (bit v (unat (i AND 7))) }"

definition bm_set :: "bytes \<Rightarrow> u32 \<Rightarrow> bytes option" where
  "bm_set bm i = do {
     v \<leftarrow> ld8 bm (unat (drop_bit 3 i));
     st8 bm (unat (drop_bit 3 i)) (v OR push_bit (unat (i AND 7)) 1) }"

definition bm_clear :: "bytes \<Rightarrow> u32 \<Rightarrow> bytes option" where
  "bm_clear bm i = do {
     v \<leftarrow> ld8 bm (unat (drop_bit 3 i));
     st8 bm (unat (drop_bit 3 i)) (v AND NOT (push_bit (unat (i AND 7)) 1)) }"

definition blk_of :: "u32 \<Rightarrow> u32 \<Rightarrow> 'd ext4 \<Rightarrow> u64" where
  "blk_of grp idx s =
     ucast (fs_first_data_block s) + ucast grp * ucast (fs_blocks_per_group s) + ucast idx"

text \<open>On success the bitmap is in the first shared buffer; the result is the descriptor and the
  block of the bitmap.\<close>

definition load_bitmap :: "bool \<Rightarrow> u32 \<Rightarrow> 'd ext4 \<Rightarrow> ((nat \<times> u64) option \<times> 'd ext4) option" where
  "load_bitmap inode_map grp s = (case e4_gd grp s of
     None \<Rightarrow> Some (None, s)
   | Some gd \<Rightarrow> do {
       gdt \<leftarrow> fs_gdt s;
       lo \<leftarrow> ld32 gdt (gd + (if inode_map then GD_inode_bitmap_lo else GD_block_bitmap_lo));
       blk \<leftarrow> (if fs_has_64bit s then do {
                 hi \<leftarrow> ld32 gdt (gd + (if inode_map then GD_inode_bitmap_hi else GD_block_bitmap_hi));
                 Some (ucast lo OR push_bit 32 (ucast hi)) }
               else Some (ucast lo));
       (rc, s) \<leftarrow> read_scratch1 blk s;
       Some (if rc \<noteq> 0 then None else Some (gd, blk), s) })"

section \<open>Free counts\<close>

definition adjust_free_blocks :: "nat \<Rightarrow> int \<Rightarrow> 'd ext4 \<Rightarrow> 'd ext4 option" where
  "adjust_free_blocks gd delta s = do {
     gdt \<leftarrow> fs_gdt s;
     c \<leftarrow> ld16 gdt (gd + GD_free_blocks_count_lo);
     let v = max 0 (uint c + delta);
     gdt \<leftarrow> st16 gdt (gd + GD_free_blocks_count_lo) (of_int v);
     gdt \<leftarrow> (if fs_has_64bit s \<and> fs_desc_size s \<ge> 44
             then st16 gdt (gd + GD_free_blocks_count_hi) (ucast (drop_bit 16 (of_int v :: u32)))
             else Some gdt);
     let hi = rd32 (fs_sb s) SB_free_blocks_count_hi;
     chk (uint hi < 2 ^ 31);
     let total = max 0 (uint (rd32 (fs_sb s) SB_free_blocks_count_lo) + uint hi * 2 ^ 32 + delta);
     let sb = wr32 (fs_sb s) SB_free_blocks_count_lo (of_int total);
     let sb = wr32 sb SB_free_blocks_count_hi (ucast (drop_bit 32 (of_int total :: u64)));
     Some (s\<lparr>fs_gdt := Some gdt, fs_sb := sb\<rparr>) }"

definition adjust_free_inodes :: "nat \<Rightarrow> int \<Rightarrow> 'd ext4 \<Rightarrow> 'd ext4 option" where
  "adjust_free_inodes gd delta s = do {
     gdt \<leftarrow> fs_gdt s;
     c \<leftarrow> ld16 gdt (gd + GD_free_inodes_count_lo);
     let v = max 0 (uint c + delta);
     gdt \<leftarrow> st16 gdt (gd + GD_free_inodes_count_lo) (of_int v);
     gdt \<leftarrow> (if fs_has_64bit s \<and> fs_desc_size s \<ge> 46
             then st16 gdt (gd + GD_free_inodes_count_hi) (ucast (drop_bit 16 (of_int v :: u32)))
             else Some gdt);
     let total = sint (rd32 (fs_sb s) SB_free_inodes_count) + delta;
     chk (int_ok total);
     let sb = wr32 (fs_sb s) SB_free_inodes_count (of_int (max 0 total));
     Some (s\<lparr>fs_gdt := Some gdt, fs_sb := sb\<rparr>) }"

section \<open>Blocks\<close>

text \<open>The two inner loops: the bits of one byte from \<open>b\<close> on, then the bytes from \<open>byte_i\<close> on.\<close>

fun scan_byte :: "u8 \<Rightarrow> u32 \<Rightarrow> u32 \<Rightarrow> nat \<Rightarrow> nat \<Rightarrow> nat option" where
  "scan_byte v byte_i last_bits b 0 = None"
| "scan_byte v byte_i last_bits b (Suc k) =
     (if byte_i * 8 + of_nat b \<ge> last_bits then None
      else if \<not> bit v b then Some b
      else scan_byte v byte_i last_bits (b + 1) k)"

fun scan_bytes :: "bytes \<Rightarrow> u32 \<Rightarrow> u32 \<Rightarrow> nat \<Rightarrow> (u32 \<times> nat) option option" where
  "scan_bytes bm last_bits byte_i 0 = Some None"
| "scan_bytes bm last_bits byte_i (Suc k) = do {
     v \<leftarrow> ld8 bm (unat byte_i);
     case (if v = 0xFF then None else scan_byte v byte_i last_bits 0 8) of
       Some b \<Rightarrow> Some (Some (byte_i, b))
     | None \<Rightarrow> scan_bytes bm last_bits (byte_i + 1) k }"

definition group_bits :: "u32 \<Rightarrow> 'd ext4 \<Rightarrow> u32" where
  "group_bits g s =
     (if g = fs_group_count s - 1
      then ucast (fs_blocks_count s - ucast (fs_first_data_block s) - ucast g * ucast (fs_blocks_per_group s))
      else fs_blocks_per_group s)"

text \<open>Taking the found bit: \<open>e4_sync_gd\<close> and the block writes are called for their effect only.\<close>

definition take_block :: "u32 \<Rightarrow> nat \<Rightarrow> u64 \<Rightarrow> u32 \<Rightarrow> nat \<Rightarrow> 'd ext4 \<Rightarrow> (u64 \<times> 'd ext4) option" where
  "take_block g gd blk byte_i b s = do {
     bm \<leftarrow> scratch1 s;
     v \<leftarrow> ld8 bm (unat byte_i);
     bm \<leftarrow> st8 bm (unat byte_i) (v OR push_bit b 1);
     let s = s\<lparr>scratch1 := Some bm\<rparr>;
     s \<leftarrow> gd_apply gd (\<lambda>d. e4_bitmap_checksum_set bm False d s) s;
     s \<leftarrow> adjust_free_blocks gd (- 1) s;
     (_, s) \<leftarrow> e4_sync_gd g s;
     let (_, s) = write_scratch1 blk s;
     b2 \<leftarrow> scratch2 s;
     b2 \<leftarrow> splice b2 0 (replicate (unat (fs_block_size s)) 0);
     let s = s\<lparr>scratch2 := Some b2\<rparr>;
     let out = blk_of g (byte_i * 8 + of_nat b) s;
     let (_, s) = write_scratch2 out s;
     Some (out, s) }"

fun alloc_block_groups :: "u32 \<Rightarrow> u32 \<Rightarrow> nat \<Rightarrow> 'd ext4 \<Rightarrow> (int \<times> u64 \<times> 'd ext4) option" where
  "alloc_block_groups hint gi 0 s = Some (- 1, 0, s)"
| "alloc_block_groups hint gi (Suc k) s = do {
     let g = (hint + gi) mod fs_group_count s;
     (r, s) \<leftarrow> load_bitmap False g s;
     case r of
       None \<Rightarrow> alloc_block_groups hint (gi + 1) k s
     | Some (gd, blk) \<Rightarrow> do {
         let last_bits = group_bits g s;
         bm \<leftarrow> scratch1 s;
         found \<leftarrow> scan_bytes bm last_bits 0 (unat ((last_bits + 7) div 8));
         case found of
           None \<Rightarrow> alloc_block_groups hint (gi + 1) k s
         | Some (byte_i, b) \<Rightarrow> do {
             (out, s) \<leftarrow> take_block g gd blk byte_i b s;
             Some (0, out, s) } } }"

definition e4_alloc_block_near :: "u32 \<Rightarrow> 'd ext4 \<Rightarrow> (int \<times> u64 \<times> 'd ext4) option" where
  "e4_alloc_block_near hint s =
     (if \<not> fs_writable s then Some (- 1, 0, s)
      else alloc_block_groups hint 0 (unat (fs_group_count s)) s)"

definition e4_free_block :: "u64 \<Rightarrow> 'd ext4 \<Rightarrow> (int \<times> 'd ext4) option" where
  "e4_free_block block s =
     (if \<not> fs_writable s \<or> block < ucast (fs_first_data_block s) \<or> block \<ge> fs_blocks_count s
      then Some (- 1, s)
      else do {
        q \<leftarrow> udiv (block - ucast (fs_first_data_block s)) (ucast (fs_blocks_per_group s));
        r \<leftarrow> umod (block - ucast (fs_first_data_block s)) (ucast (fs_blocks_per_group s));
        let g = ucast q;
        let idx = ucast r;
        (l, s) \<leftarrow> load_bitmap False g s;
        case l of
          None \<Rightarrow> Some (- 1, s)
        | Some (gd, blk) \<Rightarrow> do {
            bm \<leftarrow> scratch1 s;
            set \<leftarrow> bm_test bm idx;
            if \<not> set then Some (- 1, kputs ''ext4 freeing free block'' s)
            else do {
              bm \<leftarrow> bm_clear bm idx;
              let s = s\<lparr>scratch1 := Some bm\<rparr>;
              s \<leftarrow> gd_apply gd (\<lambda>d. e4_bitmap_checksum_set bm False d s) s;
              s \<leftarrow> adjust_free_blocks gd 1 s;
              (_, s) \<leftarrow> e4_sync_gd g s;
              Some (write_scratch1 blk s) } } })"

section \<open>Inodes\<close>

text \<open>The bits of the reserved inodes of group 0, for a bitmap that was never initialised.\<close>

fun mark_reserved :: "bytes \<Rightarrow> u32 \<Rightarrow> u32 \<Rightarrow> u32 \<Rightarrow> nat \<Rightarrow> bytes option" where
  "mark_reserved bm first_ino ipg i 0 = Some bm"
| "mark_reserved bm first_ino ipg i (Suc k) =
     (if i < first_ino - 1 \<and> i < ipg
      then do { bm \<leftarrow> bm_set bm i; mark_reserved bm first_ino ipg (i + 1) k }
      else Some bm)"

definition materialize_bitmap :: "u32 \<Rightarrow> nat \<Rightarrow> 'd ext4 \<Rightarrow> 'd ext4 option" where
  "materialize_bitmap g gd s = do {
     bm \<leftarrow> scratch1 s;
     bm \<leftarrow> splice bm 0 (replicate (unat (fs_block_size s)) 0);
     bm \<leftarrow> (if g = 0 then mark_reserved bm (fs_first_ino s) (fs_inodes_per_group s) 0
                            (unat (fs_inodes_per_group s))
            else Some bm);
     gdt \<leftarrow> fs_gdt s;
     f \<leftarrow> ld16 gdt (gd + GD_flags);
     gdt \<leftarrow> st16 gdt (gd + GD_flags) (f AND NOT 1);
     gdt \<leftarrow> st16 gdt (gd + GD_itable_unused_lo) 0;
     gdt \<leftarrow> (if fs_has_64bit s \<and> fs_desc_size s \<ge> 50
             then st16 gdt (gd + GD_itable_unused_hi) 0 else Some gdt);
     Some (s\<lparr>scratch1 := Some bm, fs_gdt := Some gdt\<rparr>) }"

text \<open>The first free inode of a group, from bit \<open>i\<close> on, with its number.\<close>

fun scan_inodes :: "bytes \<Rightarrow> u32 \<Rightarrow> 'd ext4 \<Rightarrow> u32 \<Rightarrow> nat \<Rightarrow> (u32 \<times> u32) option option" where
  "scan_inodes bm g s i 0 = Some None"
| "scan_inodes bm g s i (Suc k) =
     (if i < fs_inodes_per_group s then do {
        used \<leftarrow> bm_test bm i;
        let ino = g * fs_inodes_per_group s + i + 1;
        if \<not> used \<and> \<not> (ino < fs_first_ino s \<or> ino > fs_inodes_count s) then Some (Some (i, ino))
        else scan_inodes bm g s (i + 1) k }
      else Some None)"

definition count_dir :: "nat \<Rightarrow> 'd ext4 \<Rightarrow> 'd ext4 option" where
  "count_dir gd s = do {
     gdt \<leftarrow> fs_gdt s;
     c \<leftarrow> ld16 gdt (gd + GD_used_dirs_count_lo);
     let d = c + 1;
     gdt \<leftarrow> st16 gdt (gd + GD_used_dirs_count_lo) d;
     gdt \<leftarrow> (if fs_has_64bit s \<and> fs_desc_size s \<ge> 48
             then st16 gdt (gd + GD_used_dirs_count_hi) (ucast (drop_bit 16 (ucast d :: u32)))
             else Some gdt);
     Some (s\<lparr>fs_gdt := Some gdt\<rparr>) }"

definition take_inode :: "u32 \<Rightarrow> nat \<Rightarrow> u64 \<Rightarrow> u32 \<Rightarrow> u32 \<Rightarrow> 'd ext4 \<Rightarrow> 'd ext4 option" where
  "take_inode g gd blk i mode s = do {
     bm \<leftarrow> scratch1 s;
     bm \<leftarrow> bm_set bm i;
     let s = s\<lparr>scratch1 := Some bm\<rparr>;
     s \<leftarrow> gd_apply gd (\<lambda>d. e4_bitmap_checksum_set bm True d s) s;
     s \<leftarrow> adjust_free_inodes gd (- 1) s;
     s \<leftarrow> (if mode AND 0x4000 \<noteq> 0 then count_dir gd s else Some s);
     (_, s) \<leftarrow> e4_sync_gd g s;
     Some (snd (write_scratch1 blk s)) }"

fun alloc_inode_groups :: "u32 \<Rightarrow> u32 \<Rightarrow> u32 \<Rightarrow> nat \<Rightarrow> 'd ext4 \<Rightarrow> (int \<times> u32 \<times> 'd ext4) option" where
  "alloc_inode_groups prefer mode gi 0 s = Some (- 1, 0, s)"
| "alloc_inode_groups prefer mode gi (Suc k) s = do {
     let g = (prefer + gi) mod fs_group_count s;
     (r, s) \<leftarrow> load_bitmap True g s;
     case r of
       None \<Rightarrow> alloc_inode_groups prefer mode (gi + 1) k s
     | Some (gd, blk) \<Rightarrow> do {
         gdt \<leftarrow> fs_gdt s;
         f \<leftarrow> ld16 gdt (gd + GD_flags);
         s \<leftarrow> (if f AND 1 \<noteq> 0 then materialize_bitmap g gd s else Some s);
         bm \<leftarrow> scratch1 s;
         found \<leftarrow> scan_inodes bm g s (fs_first_ino s - 1) (unat (fs_inodes_per_group s));
         case found of
           None \<Rightarrow> alloc_inode_groups prefer mode (gi + 1) k s
         | Some (i, ino) \<Rightarrow> do {
             s \<leftarrow> take_inode g gd blk i mode s;
             Some (0, ino, s) } } }"

definition e4_alloc_inode :: "u32 \<Rightarrow> u32 \<Rightarrow> 'd ext4 \<Rightarrow> (int \<times> u32 \<times> 'd ext4) option" where
  "e4_alloc_inode prefer mode s =
     (if \<not> fs_writable s then Some (- 1, 0, s)
      else alloc_inode_groups prefer mode 0 (unat (fs_group_count s)) s)"

definition e4_free_inode :: "u32 \<Rightarrow> 'd ext4 \<Rightarrow> (int \<times> 'd ext4) option" where
  "e4_free_inode ino s =
     (if \<not> fs_writable s \<or> ino < fs_first_ino s \<or> ino > fs_inodes_count s then Some (- 1, s)
      else do {
        g \<leftarrow> udiv (ino - 1) (fs_inodes_per_group s);
        idx \<leftarrow> umod (ino - 1) (fs_inodes_per_group s);
        (l, s) \<leftarrow> load_bitmap True g s;
        case l of
          None \<Rightarrow> Some (- 1, s)
        | Some (gd, blk) \<Rightarrow> do {
            bm \<leftarrow> scratch1 s;
            set \<leftarrow> bm_test bm idx;
            if \<not> set then Some (- 1, s)
            else do {
              bm \<leftarrow> bm_clear bm idx;
              let s = s\<lparr>scratch1 := Some bm\<rparr>;
              s \<leftarrow> gd_apply gd (\<lambda>d. e4_bitmap_checksum_set bm True d s) s;
              s \<leftarrow> adjust_free_inodes gd 1 s;
              (_, s) \<leftarrow> e4_sync_gd g s;
              Some (write_scratch1 blk s) } } })"

definition e4_count_free :: "'d ext4 \<Rightarrow> u32 \<times> u32" where
  "e4_count_free s = (rd32 (fs_sb s) SB_free_blocks_count_lo, rd32 (fs_sb s) SB_free_inodes_count)"

section \<open>The bits of a bitmap\<close>

definition bit_at :: "bytes \<Rightarrow> nat \<Rightarrow> bool" where
  "bit_at bm n \<longleftrightarrow> bit (bm ! (n div 8)) (n mod 8)"

lemma bm_index: "unat (drop_bit 3 i) = unat i div 8" "unat (i AND 7) = unat i mod 8" for i :: u32
proof -
  show "unat (drop_bit 3 i) = unat i div 8"
    by (simp add: unsigned_drop_bit_eq drop_bit_eq_div unat_div_distrib)
  have "i AND 7 = take_bit 3 i"
    using take_bit_eq_mask [of 3 i] by (simp add: mask_eq_exp_minus_1)
  then show "unat (i AND 7) = unat i mod 8"
    by (simp add: take_bit_eq_mod unat_mod_distrib)
qed

lemma bm_test_eq: "bm_test bm i = (if unat i div 8 < length bm then Some (bit_at bm (unat i)) else None)"
  by (simp add: bm_test_def bm_index ld8_def rd8_def bit_at_def)

lemma bit_at_set:
  assumes "n div 8 < length bm" and "m div 8 < length bm"
  shows "bit_at (wr8 bm (n div 8) (bm ! (n div 8) OR push_bit (n mod 8) 1)) m = (m = n \<or> bit_at bm m)"
    and "bit_at (wr8 bm (n div 8) (bm ! (n div 8) AND NOT (push_bit (n mod 8) 1))) m = (m \<noteq> n \<and> bit_at bm m)"
proof -
  have *: "m = n \<longleftrightarrow> m div 8 = n div 8 \<and> m mod 8 = n mod 8" by (metis mult_div_mod_eq)
  have "m mod 8 < 8" by simp
  then show "bit_at (wr8 bm (n div 8) (bm ! (n div 8) OR push_bit (n mod 8) 1)) m = (m = n \<or> bit_at bm m)"
    "bit_at (wr8 bm (n div 8) (bm ! (n div 8) AND NOT (push_bit (n mod 8) 1))) m = (m \<noteq> n \<and> bit_at bm m)"
    using assms unfolding * by (auto simp: bit_at_def wr8_def upd_single nth_list_update bit_simps)
qed

lemma bm_set_eq:
  "bm_set bm i = (if unat i div 8 < length bm
     then Some (wr8 bm (unat i div 8) (bm ! (unat i div 8) OR push_bit (unat i mod 8) 1)) else None)"
  by (simp add: bm_set_def bm_index ld8_def rd8_def)

lemma bm_clear_eq:
  "bm_clear bm i = (if unat i div 8 < length bm
     then Some (wr8 bm (unat i div 8) (bm ! (unat i div 8) AND NOT (push_bit (unat i mod 8) 1))) else None)"
  by (simp add: bm_clear_def bm_index ld8_def rd8_def)

interpretation bm: bitmap bm_test bm_set bm_clear
proof
  fix b and i :: u32 and v
  assume "bm_test b i = Some v"
  then have i: "unat i div 8 < length b" by (simp add: bm_test_eq split: if_splits)
  show "\<exists>b'. bm_set b i = Some b' \<and> (\<forall>j. bm_test b' j = (if j = i then Some True else bm_test b j))"
    using i bit_at_set(1) [OF i] by (auto simp: bm_set_eq bm_test_eq)
  show "\<exists>b'. bm_clear b i = Some b' \<and> (\<forall>j. bm_test b' j = (if j = i then Some False else bm_test b j))"
    using i bit_at_set(2) [OF i] by (auto simp: bm_clear_eq bm_test_eq)
qed (auto simp: bm_set_eq bm_clear_eq bm_test_eq split: if_splits)

lemma scan_byte_spec:
  assumes "unat byte_i < 2 ^ 29" and "b + k = 8"
  shows "(case scan_byte v byte_i lim b k of
     None \<Rightarrow> \<forall>c. b \<le> c \<and> c < 8 \<and> 8 * unat byte_i + c < unat lim \<longrightarrow> bit v c
   | Some c \<Rightarrow> b \<le> c \<and> c < 8 \<and> 8 * unat byte_i + c < unat lim \<and> \<not> bit v c \<and> (\<forall>e. b \<le> e \<and> e < c \<longrightarrow> bit v e))"
  using assms(2)
proof (induction k arbitrary: b)
  case (Suc k)
  have "unat (byte_i * 8 + of_nat b :: u32) = 8 * unat byte_i + b"
  proof -
    have 1: "unat (of_nat b :: u32) = b" using Suc.prems by (simp add: unat_of_nat)
    have 2: "unat (byte_i * 8) = 8 * unat byte_i" using assms(1) by (subst unat_mult_small) auto
    show ?thesis using assms(1) Suc.prems by (subst unat_add_small) (auto simp: 1 2)
  qed
  then have lim: "lim \<le> byte_i * 8 + of_nat b \<longleftrightarrow> unat lim \<le> 8 * unat byte_i + b"
    by (simp add: word_le_nat_alt)
  show ?case
  proof (cases "lim \<le> byte_i * 8 + of_nat b \<or> \<not> bit v b")
    case True
    then show ?thesis using lim Suc.prems by auto
  next
    case False
    then have "scan_byte v byte_i lim b (Suc k) = scan_byte v byte_i lim (b + 1) k" by simp
    moreover have "b \<le> c \<longleftrightarrow> c = b \<or> b + 1 \<le> c" for c by auto
    ultimately show ?thesis using Suc.IH [of "b + 1"] Suc.prems False
      by (auto split: option.splits)
  qed
qed auto

lemma scan_bytes_spec:
  assumes "unat byte_i + k \<le> length bm" and "unat byte_i + k < 2 ^ 29"
  shows "\<exists>r. scan_bytes bm lim byte_i k = Some r \<and> (case r of
     None \<Rightarrow> \<forall>n. 8 * unat byte_i \<le> n \<and> n < 8 * (unat byte_i + k) \<and> n < unat lim \<longrightarrow> bit_at bm n
   | Some (byt, b) \<Rightarrow> unat byte_i \<le> unat byt \<and> unat byt < unat byte_i + k \<and> b < 8 \<and>
       8 * unat byt + b < unat lim \<and> \<not> bit_at bm (8 * unat byt + b) \<and>
       (\<forall>n. 8 * unat byte_i \<le> n \<and> n < 8 * unat byt + b \<longrightarrow> bit_at bm n))"
  using assms
proof (induction k arbitrary: byte_i)
  case (Suc k)
  let ?v = "bm ! unat byte_i" and ?B = "8 * unat byte_i"
  have nxt: "unat (byte_i + 1) = unat byte_i + 1"
    using Suc.prems by (subst unat_add_small) auto
  have at: "bit_at bm (?B + c) = bit ?v c" if "c < 8" for c
    using that by (simp add: bit_at_def)
  define f where "f = (if ?v = 0xFF then None else scan_byte ?v byte_i lim 0 8)"
  have f: "case f of None \<Rightarrow> \<forall>c. c < 8 \<and> ?B + c < unat lim \<longrightarrow> bit ?v c
      | Some c \<Rightarrow> c < 8 \<and> ?B + c < unat lim \<and> \<not> bit ?v c \<and> (\<forall>e < c. bit ?v e)"
  proof (cases "?v = 0xFF")
    case True
    have "bit (0xFF :: u8) c" if "c < 8" for c
      using that bit_mask_iff [of 8 c, where 'a = "8 word"] by (simp add: mask_eq_exp_minus_1)
    with True show ?thesis by (simp add: f_def)
  next
    case False
    then show ?thesis using scan_byte_spec [of byte_i 0 8 lim ?v] Suc.prems
      by (auto simp: f_def split: option.splits)
  qed
  have eq: "scan_bytes bm lim byte_i (Suc k) = (case f of Some b \<Rightarrow> Some (Some (byte_i, b))
      | None \<Rightarrow> scan_bytes bm lim (byte_i + 1) k)"
    using Suc.prems by (simp add: f_def rd8_def)
  show ?case
  proof (cases f)
    case (Some c)
    have "bit_at bm n" if "?B \<le> n" "n < ?B + c" for n
      using that f Some at [of "n - ?B"] by auto
    with Some f at [of c] show ?thesis using eq by auto
  next
    case None
    have low: "bit_at bm n" if "?B \<le> n" "n < ?B + 8" "n < unat lim" for n
      using that f None at [of "n - ?B"] by auto
    obtain r where r: "scan_bytes bm lim (byte_i + 1) k = Some r" and
      spec: "case r of
     None \<Rightarrow> \<forall>n. 8 * (unat byte_i + 1) \<le> n \<and> n < 8 * (unat byte_i + 1 + k) \<and> n < unat lim \<longrightarrow> bit_at bm n
   | Some (byt, b) \<Rightarrow> unat byte_i + 1 \<le> unat byt \<and> unat byt < unat byte_i + 1 + k \<and> b < 8 \<and>
       8 * unat byt + b < unat lim \<and> \<not> bit_at bm (8 * unat byt + b) \<and>
       (\<forall>n. 8 * (unat byte_i + 1) \<le> n \<and> n < 8 * unat byt + b \<longrightarrow> bit_at bm n)"
      using Suc.IH [of "byte_i + 1"] Suc.prems unfolding nxt by auto
    have "bit_at bm n" if "r = None" "?B \<le> n" "n < 8 * (unat byte_i + Suc k)" "n < unat lim" for n
      using that spec low [of n] by (cases "n < ?B + 8") auto
    moreover have "bit_at bm n" if "r = Some (byt, b)" "?B \<le> n" "n < 8 * unat byt + b" for n byt b
      using that spec low [of n] by (cases "n < ?B + 8") auto
    ultimately show ?thesis using None eq r spec by (auto split: option.splits)
  qed
qed auto

section \<open>What frees and allocations do to the disk\<close>

text \<open>Where the bitmap of a group is.\<close>

definition bitmap_loc :: "bool \<Rightarrow> u32 \<Rightarrow> 'd ext4 \<Rightarrow> (nat \<times> u64) option" where
  "bitmap_loc inode_map g s = do {
     gd \<leftarrow> e4_gd g s;
     gdt \<leftarrow> fs_gdt s;
     lo \<leftarrow> ld32 gdt (gd + (if inode_map then GD_inode_bitmap_lo else GD_block_bitmap_lo));
     blk \<leftarrow> (if fs_has_64bit s then do {
               hi \<leftarrow> ld32 gdt (gd + (if inode_map then GD_inode_bitmap_hi else GD_block_bitmap_hi));
               Some (ucast lo OR push_bit 32 (ucast hi)) }
             else Some (ucast lo));
     Some (gd, blk) }"

abbreviation "bitmap_on_disk sect s blk \<equiv>
  img_range sect (hw s) (blk_addr blk s) (unat (fs_block_size s))"

lemma bitmap_loc_update [simp]:
  "bitmap_loc im g (s\<lparr>hw := h\<rparr>) = bitmap_loc im g s"
  "bitmap_loc im g (s\<lparr>scratch1 := x\<rparr>) = bitmap_loc im g s"
  "bitmap_loc im g (s\<lparr>scratch2 := x\<rparr>) = bitmap_loc im g s"
  "bitmap_loc im g (s\<lparr>fs_sb := y\<rparr>) = bitmap_loc im g s"
  by (simp_all add: bitmap_loc_def e4_gd_def cong: if_cong)

lemma post_load_bitmap:
  assumes ok: "fs_ok sect s"
  shows "post (load_bitmap im g s) (\<lambda>(r, s'). io_step s s' \<and> sect (hw s') = sect (hw s) \<and>
     (\<forall>gd blk. r = Some (gd, blk) \<longrightarrow> bitmap_loc im g s = Some (gd, blk) \<and>
        scratch1 s' = Some (bitmap_on_disk sect s blk)))"
proof -
  have *: "io_step s s' \<and> sect (hw s') = sect (hw s) \<and> (rc = 0 \<longrightarrow> scratch1 s' = Some (bitmap_on_disk sect s blk))"
    if "read_scratch1 blk s = Some (rc, s')" for blk rc s'
    using read_scratch1_ok [OF ok, of blk] that io_stepI(1) [OF ok] by auto
  show ?thesis
    unfolding load_bitmap_def
    by (intro post_intros; use * io_stepI(5) [OF ok] in \<open>force simp: bitmap_loc_def split: if_splits\<close>)
qed

text \<open>What an update of one group descriptor leaves alone: everything outside the counts, flags and
  checksums of the descriptor at \<open>off\<close>.\<close>

definition gdt_keep :: "nat \<Rightarrow> nat \<Rightarrow> bytes \<Rightarrow> bytes \<Rightarrow> bool" where
  "gdt_keep off ds gdt gdt' \<longleftrightarrow> length gdt' = length gdt \<and>
     (\<forall>q < length gdt. \<not> (off + 12 \<le> q \<and> q < off + 32) \<and> \<not> (off + 44 \<le> q \<and> q < off + ds) \<longrightarrow>
        gdt' ! q = gdt ! q)"

lemma gdt_keep_refl [simp]: "gdt_keep off ds b b"
  by (simp add: gdt_keep_def)

lemma gdt_keep_trans: "gdt_keep off ds a b \<Longrightarrow> gdt_keep off ds b c \<Longrightarrow> gdt_keep off ds a c"
  by (simp add: gdt_keep_def)

lemma gdt_keep_st16:
  assumes "st16 gdt (off + k) v = Some gdt'" and "12 \<le> k \<and> k + 2 \<le> 32 \<or> 44 \<le> k \<and> k + 2 \<le> ds"
  shows "gdt_keep off ds gdt gdt'"
  using assms by (auto simp: bind_simps gdt_keep_def wr16_def nth_upd)

lemma gdt_keep_drop:
  assumes "gdt_keep 0 ds (drop off gdt) d"
  shows "gdt_keep off ds gdt (take off gdt @ d)"
  unfolding gdt_keep_def
proof (intro conjI allI impI)
  show "length (take off gdt @ d) = length gdt" using assms by (simp add: gdt_keep_def)
next
  fix q
  assume q: "q < length gdt" "\<not> (off + 12 \<le> q \<and> q < off + 32) \<and> \<not> (off + 44 \<le> q \<and> q < off + ds)"
  show "(take off gdt @ d) ! q = gdt ! q"
  proof (cases "q < off")
    case False
    then obtain p where p: "q = off + p" by (metis le_add_diff_inverse linorder_not_less)
    with assms q have "d ! p = drop off gdt ! p" by (simp add: gdt_keep_def)
    with p q show ?thesis by (simp add: nth_append)
  qed (use q in \<open>simp add: nth_append\<close>)
qed

text \<open>Descriptors of 32 bytes without the 64-bit feature, or of at least 64 bytes.\<close>

definition desc_ok :: "'d ext4 \<Rightarrow> bool" where
  "desc_ok s \<longleftrightarrow> fs_desc_size s = 32 \<and> \<not> fs_has_64bit s \<or> 64 \<le> fs_desc_size s"

lemma desc_ok_size: "desc_ok s \<Longrightarrow> unat (fs_desc_size s) = 32 \<or> 64 \<le> unat (fs_desc_size s)"
  "desc_ok s \<Longrightarrow> fs_has_64bit s \<Longrightarrow> 64 \<le> unat (fs_desc_size s)"
  by (auto simp: desc_ok_def word_le_nat_alt)

lemma post_e4_desc_checksum_set:
  assumes "desc_ok s"
  shows "post (e4_desc_checksum_set g gd s) (gdt_keep 0 (unat (fs_desc_size s)) gd)"
  unfolding e4_desc_checksum_set_def
  by (intro post_intros)
    (auto simp: bind_simps gdt_keep_def wr16_def nth_upd)

lemma post_e4_bitmap_checksum_set:
  assumes "desc_ok s"
  shows "post (e4_bitmap_checksum_set bm im gd s) (gdt_keep 0 (unat (fs_desc_size s)) gd)"
  unfolding e4_bitmap_checksum_set_def
  by (intro post_intros)
    (auto simp: bind_simps gdt_keep_def wr16_def nth_upd word_le_nat_alt)

text \<open>A step that keeps the layout: data transfers, and updates of the descriptors and of the
  superblock that leave every bitmap where it is.\<close>

definition layout :: "'d ext4 \<Rightarrow> 'd ext4" where
  "layout s = s\<lparr>fs_sb := [], fs_gdt := None, scratch1 := None, scratch2 := None, hw := undefined\<rparr>"

lemma layout_update [simp]:
  "layout (s\<lparr>fs_sb := a\<rparr>) = layout s" "layout (s\<lparr>fs_gdt := b\<rparr>) = layout s"
  "layout (s\<lparr>scratch1 := c\<rparr>) = layout s" "layout (s\<lparr>scratch2 := c\<rparr>) = layout s"
  "layout (s\<lparr>hw := h\<rparr>) = layout s"
  by (cases s; simp add: layout_def)+

lemma layout_fields:
  assumes "layout s' = layout s"
  shows "fs_block_size s' = fs_block_size s" "fs_desc_size s' = fs_desc_size s" "fs_writable s' = fs_writable s"
    "fs_first_data_block s' = fs_first_data_block s" "fs_blocks_count s' = fs_blocks_count s"
    "fs_blocks_per_group s' = fs_blocks_per_group s" "fs_group_count s' = fs_group_count s"
    "fs_first_ino s' = fs_first_ino s" "fs_inodes_count s' = fs_inodes_count s"
    "fs_inodes_per_group s' = fs_inodes_per_group s" "fs_sectors_per_block s' = fs_sectors_per_block s"
    "fs_has_64bit s' = fs_has_64bit s" "fs_dev s' = fs_dev s" "blk_addr b s' = blk_addr b s" "desc_ok s' = desc_ok s"
    "group_bits g s' = group_bits g s" "blk_of g i s' = blk_of g i s"
  using assms by (cases s; cases s'; simp add: layout_def blk_addr_def desc_ok_def group_bits_def blk_of_def)+

lemma e4_gd_layout: "layout s' = layout s \<Longrightarrow> e4_gd g s' = e4_gd g s"
  using layout_fields [of s' s] by (simp add: e4_gd_def)

definition meta_step :: "'d ext4 \<Rightarrow> 'd ext4 \<Rightarrow> bool" where
  "meta_step s s' \<longleftrightarrow> layout s' = layout s \<and>
     (\<exists>b. scratch1 s' = Some b \<and> length b = unat (fs_block_size s)) \<and>
     (\<exists>b. scratch2 s' = Some b \<and> length b = unat (fs_block_size s)) \<and>
     (\<forall>im g. bitmap_loc im g s' = bitmap_loc im g s)"

lemma meta_step_fs_ok: "meta_step s s' \<Longrightarrow> fs_ok sect s \<Longrightarrow> fs_ok sect s'"
  using layout_fields [of s' s] by (simp add: meta_step_def fs_ok_def)

lemma meta_step_trans: "meta_step s s' \<Longrightarrow> meta_step s' s'' \<Longrightarrow> meta_step s s''"
  using layout_fields [of s' s] by (simp add: meta_step_def)

lemma io_meta_step: "io_step s s' \<Longrightarrow> meta_step s s'"
  by (auto simp: io_step_def meta_step_def)

lemma meta_step_refl: "fs_ok sect s \<Longrightarrow> meta_step s s"
  by (auto simp: meta_step_def fs_ok_def)

lemma gdt_keep_ld32:
  assumes keep: "gdt_keep (g * ds) ds gdt gdt'" and ds: "32 \<le> ds" and k: "k \<le> 4 \<or> 32 \<le> k \<and> k \<le> 36 \<and> 64 \<le> ds"
  shows "ld32 gdt' (g' * ds + k) = ld32 gdt (g' * ds + k)"
proof -
  have len: "length gdt' = length gdt" using keep by (simp add: gdt_keep_def)
  have "gdt' ! q = gdt ! q" if q: "g' * ds + k \<le> q" "q < g' * ds + k + 4" "q < length gdt" for q
  proof -
    have "\<not> (g * ds + 12 \<le> q \<and> q < g * ds + 32) \<and> \<not> (g * ds + 44 \<le> q \<and> q < g * ds + ds)"
    proof (cases g g' rule: linorder_cases)
      case less
      then have "g * ds + ds \<le> g' * ds" by (metis Suc_leI add.commute mult_Suc mult_le_mono1)
      with q ds show ?thesis by linarith
    next
      case equal
      with q k ds show ?thesis by auto
    next
      case greater
      then have "g' * ds + ds \<le> g * ds" by (metis Suc_leI add.commute mult_Suc mult_le_mono1)
      with q k ds show ?thesis by linarith
    qed
    with keep q(3) show ?thesis by (auto simp: gdt_keep_def)
  qed
  then have "sub gdt' (g' * ds + k) 4 = sub gdt (g' * ds + k) 4" if "g' * ds + k + 4 \<le> length gdt"
    using that len by (intro nth_equalityI) (auto simp: nth_sub)
  then show ?thesis using len by (simp add: ld32_def rd32_def)
qed

lemma bitmap_loc_keep:
  assumes "gdt_keep (g * unat (fs_desc_size s)) (unat (fs_desc_size s)) gdt gdt'" and "desc_ok s" and "fs_gdt s = Some gdt"
  shows "bitmap_loc im g' (s\<lparr>fs_gdt := Some gdt'\<rparr>) = bitmap_loc im g' s"
proof -
  have "32 \<le> unat (fs_desc_size s)" using desc_ok_size [OF assms(2)] by auto
  note ld = gdt_keep_ld32 [OF assms(1) this]
  show ?thesis
    using ld [of 0] ld [of 4] ld [of 32] ld [of 36] desc_ok_size(2) [OF assms(2)] assms(3)
    by (auto simp: bitmap_loc_def e4_gd_def cong: if_cong)
qed

lemma e4_gd_off: "e4_gd g s = Some off \<Longrightarrow> off = unat g * unat (fs_desc_size s)"
  by (simp add: e4_gd_def split: if_splits)

lemma meta_step_gdt:
  assumes "fs_ok sect s" and "desc_ok s" and "fs_gdt s = Some gdt"
    and "gdt_keep (g * unat (fs_desc_size s)) (unat (fs_desc_size s)) gdt gdt'"
  shows "meta_step s (s\<lparr>fs_gdt := Some gdt'\<rparr>)"
  using assms bitmap_loc_keep [OF assms(4,2,3)] by (auto simp: meta_step_def fs_ok_def)

lemma meta_step_gdt_sb:
  assumes "fs_ok sect s" and "desc_ok s" and "fs_gdt s = Some gdt"
    and "gdt_keep (g * unat (fs_desc_size s)) (unat (fs_desc_size s)) gdt gdt'"
  shows "meta_step s (s\<lparr>fs_gdt := Some gdt', fs_sb := b\<rparr>)"
  using meta_step_gdt [OF assms] by (simp add: meta_step_def)

lemma post_gd_apply:
  assumes ok: "fs_ok sect s" and desc: "desc_ok s" and gd: "e4_gd g s = Some off"
    and f: "\<And>d. post (f d) (gdt_keep 0 (unat (fs_desc_size s)) d)"
  shows "post (gd_apply off f s) (\<lambda>s'. meta_step s s' \<and> scratch1 s' = scratch1 s \<and> hw s' = hw s)"
  unfolding gd_apply_def
proof (intro post_intros conjI)
  fix gdt b
  assume "fs_gdt s = Some gdt" "f (drop off gdt) = Some b"
  then show "meta_step s (s\<lparr>fs_gdt := Some (take off gdt @ b)\<rparr>)"
    using gdt_keep_drop [OF postD [OF f], of off gdt b] e4_gd_off [OF gd]
    by (intro meta_step_gdt [OF ok desc]) auto
qed simp_all

lemma post_adjust_free_blocks:
  assumes ok: "fs_ok sect s" and desc: "desc_ok s" and gd: "e4_gd g s = Some off"
  shows "post (adjust_free_blocks off delta s) (\<lambda>s'. meta_step s s' \<and> scratch1 s' = scratch1 s \<and> hw s' = hw s)"
proof -
  have keep: "gdt_keep off (unat (fs_desc_size s)) gdt gdt2"
    if "st16 gdt (off + GD_free_blocks_count_lo) x = Some gdt1"
      "(if fs_has_64bit s \<and> fs_desc_size s \<ge> 44 then st16 gdt1 (off + GD_free_blocks_count_hi) y
        else Some gdt1) = Some gdt2" for gdt x gdt1 y gdt2
  proof (rule gdt_keep_trans)
    show "gdt_keep off (unat (fs_desc_size s)) gdt gdt1"
      by (rule gdt_keep_st16 [OF that(1)]) simp
    show "gdt_keep off (unat (fs_desc_size s)) gdt1 gdt2"
      using that(2) desc_ok_size(2) [OF desc]
      by (auto split: if_splits intro: gdt_keep_st16)
  qed
  show ?thesis
    unfolding adjust_free_blocks_def Let_def
    by (intro post_intros conjI meta_step_gdt_sb [OF ok desc])
      (use keep e4_gd_off [OF gd] in auto)
qed

lemma post_adjust_free_inodes:
  assumes ok: "fs_ok sect s" and desc: "desc_ok s" and gd: "e4_gd g s = Some off"
  shows "post (adjust_free_inodes off delta s) (\<lambda>s'. meta_step s s' \<and> scratch1 s' = scratch1 s \<and> hw s' = hw s)"
proof -
  have keep: "gdt_keep off (unat (fs_desc_size s)) gdt gdt2"
    if "st16 gdt (off + GD_free_inodes_count_lo) x = Some gdt1"
      "(if fs_has_64bit s \<and> fs_desc_size s \<ge> 46 then st16 gdt1 (off + GD_free_inodes_count_hi) y
        else Some gdt1) = Some gdt2" for gdt x gdt1 y gdt2
  proof (rule gdt_keep_trans)
    show "gdt_keep off (unat (fs_desc_size s)) gdt gdt1"
      by (rule gdt_keep_st16 [OF that(1)]) simp
    show "gdt_keep off (unat (fs_desc_size s)) gdt1 gdt2"
      using that(2) desc_ok_size(2) [OF desc]
      by (auto split: if_splits intro: gdt_keep_st16)
  qed
  show ?thesis
    unfolding adjust_free_inodes_def Let_def
    by (intro post_intros conjI meta_step_gdt_sb [OF ok desc])
      (use keep e4_gd_off [OF gd] in auto)
qed

definition gdt_blk :: "u32 \<Rightarrow> 'd ext4 \<Rightarrow> u64" where
  "gdt_blk g s = ucast (fs_first_data_block s + 1 + g div (fs_block_size s div fs_desc_size s))"

lemma post_e4_sync_gd:
  assumes ok: "fs_ok sect s" and desc: "desc_ok s"
  shows "post (e4_sync_gd g s) (\<lambda>(rc, s'). meta_step s s' \<and> scratch1 s' = scratch1 s \<and>
    (\<forall>a. \<not> (blk_addr (gdt_blk g s) s \<le> a \<and> a < blk_addr (gdt_blk g s) s + unat (fs_block_size s)) \<longrightarrow>
       img sect (hw s') a = img sect (hw s) a))"
proof (cases "e4_gd g s")
  case None
  then show ?thesis by (simp add: e4_sync_gd_def post_intros meta_step_refl [OF ok])
next
  case (Some off)
  let ?blk = "gdt_blk g s"
  have step: "meta_step s s' \<and> scratch1 s' = scratch1 s \<and>
    (\<forall>a. \<not> (blk_addr ?blk s \<le> a \<and> a < blk_addr ?blk s + unat (fs_block_size s)) \<longrightarrow>
       img sect (hw s') a = img sect (hw s) a)"
    if s1: "meta_step s s1 \<and> scratch1 s1 = scratch1 s \<and> hw s1 = hw s"
      and r: "read_scratch2 ?blk s1 = Some (rc, s2)"
      and res: "rc \<noteq> 0 \<and> s' = s2 \<or>
        (\<exists>b i d. scratch2 s2 = Some b \<and> i + length d \<le> length b \<and> s' = snd (write_scratch2 ?blk (s2\<lparr>scratch2 := Some (upd b i d)\<rparr>)))"
    for s1 rc s2 s'
  proof -
    note ok1 = meta_step_fs_ok [OF conjunct1 [OF s1] ok]
    have lay: "layout s1 = layout s" using s1 by (simp add: meta_step_def)
    note fld = layout_fields [OF lay]
    obtain b h where s2: "s2 = s1\<lparr>scratch2 := Some b, hw := h\<rparr>" "length b = unat (fs_block_size s1)"
      "sect h = sect (hw s1)"
      using read_scratch2_ok [OF ok1, of ?blk] r by auto
    have img2: "img sect h = img sect (hw s)" using s2(3) s1 by (simp add: img_def [abs_def])
    note st2 = meta_step_trans [OF conjunct1 [OF s1] io_meta_step [OF io_stepI(2) [OF ok1 s2(2)], of h]]
    from res show ?thesis
    proof (elim disjE exE conjE)
      assume "rc \<noteq> 0" "s' = s2"
      then show ?thesis using st2 s1 img2 by (simp add: s2)
    next
      fix b' i d
      assume w: "scratch2 s2 = Some b'" "i + length d \<le> length b'"
        "s' = snd (write_scratch2 ?blk (s2\<lparr>scratch2 := Some (upd b' i d)\<rparr>))"
      let ?b = "upd b i d"
      have b: "length ?b = unat (fs_block_size s1)" "b' = b" using w s2 by auto
      let ?s3 = "s1\<lparr>scratch2 := Some ?b, hw := h\<rparr>"
      have "fs_ok sect ?s3" using ok1 b by simp
      from write_scratch2_ok [OF this, of ?b ?blk] obtain h2 where
        h2: "s' = s1\<lparr>scratch2 := Some ?b, hw := h2\<rparr>"
        "\<forall>a. \<not> (blk_addr ?blk s1 \<le> a \<and> a < blk_addr ?blk s1 + unat (fs_block_size s1)) \<longrightarrow> img sect h2 a = img sect h a"
        using w(3) b s2 by auto
      show ?thesis
        using meta_step_trans [OF conjunct1 [OF s1] io_meta_step [OF io_stepI(2) [OF ok1 b(1)], of h2]] s1 h2 img2
        by (simp add: fld)
    qed
  qed
  show ?thesis
  proof (rule postI)
    fix x
    assume "e4_sync_gd g s = Some x"
    with Some obtain s1 rc s2 where s1: "gd_apply off (\<lambda>gd. e4_desc_checksum_set g gd s) s = Some s1"
      and r: "read_scratch2 (gdt_blk g s1) s1 = Some (rc, s2)"
      and res: "rc \<noteq> 0 \<and> x = (- 1, s2) \<or> (\<exists>gdt b. fs_gdt s2 = Some gdt \<and> scratch2 s2 = Some b \<and>
        off + unat (fs_desc_size s2) \<le> length gdt \<and>
        unat (g mod (fs_block_size s1 div fs_desc_size s1)) * unat (fs_desc_size s2) + unat (fs_desc_size s2) \<le> length b \<and>
        x = write_scratch2 (gdt_blk g s1) (s2\<lparr>scratch2 :=
          Some (upd b (unat (g mod (fs_block_size s1 div fs_desc_size s1)) * unat (fs_desc_size s2))
            (sub gdt off (unat (fs_desc_size s2))))\<rparr>))"
      by (auto simp: e4_sync_gd_def gdt_blk_def bind_simps Let_def split: if_splits)
    from res have res: "rc \<noteq> 0 \<and> snd x = s2 \<or>
        (\<exists>b i d. scratch2 s2 = Some b \<and> i + length d \<le> length b \<and>
           snd x = snd (write_scratch2 (gdt_blk g s1) (s2\<lparr>scratch2 := Some (upd b i d)\<rparr>)))"
      by (metis length_sub snd_conv)
    have m: "meta_step s s1 \<and> scratch1 s1 = scratch1 s \<and> hw s1 = hw s"
      using postD [OF post_gd_apply [OF ok desc Some post_e4_desc_checksum_set [OF desc]] s1] .
    then have "gdt_blk g s1 = ?blk"
      using layout_fields [of s1 s] by (simp add: meta_step_def gdt_blk_def)
    with step [OF m _, of rc s2 "snd x"] r res show "case x of (rc, s') \<Rightarrow> meta_step s s' \<and> scratch1 s' = scratch1 s \<and>
      (\<forall>a. \<not> (blk_addr ?blk s \<le> a \<and> a < blk_addr ?blk s + unat (fs_block_size s)) \<longrightarrow>
         img sect (hw s') a = img sect (hw s) a)"
      by (simp add: case_prod_beta)
  qed
qed

text \<open>The common end of the two frees and of the two allocations: the changed bitmap is in the first
  shared buffer, the descriptor is updated, and both are written.\<close>

lemma bitmap_written:
  assumes ok: "fs_ok sect s" and desc: "desc_ok s" and gd: "e4_gd g s = Some off"
    and bm: "scratch1 s = Some bm"
    and s1: "gd_apply off (\<lambda>d. e4_bitmap_checksum_set bm im d s) s = Some s1"
    and s2: "meta_step s1 s2 \<and> scratch1 s2 = scratch1 s1 \<and> hw s2 = hw s1"
    and s3: "e4_sync_gd g s2 = Some (rc, s3)"
    and s4: "write_scratch1 blk s3 = (rc4, s4)"
  shows "meta_step s s4 \<and> scratch1 s3 = Some bm \<and> layout s3 = layout s \<and>
    (rc4 = 0 \<longrightarrow> bitmap_on_disk sect s4 blk = bm) \<and>
    (\<forall>a. \<not> (blk_addr (gdt_blk g s) s \<le> a \<and> a < blk_addr (gdt_blk g s) s + unat (fs_block_size s)) \<and>
         \<not> (blk_addr blk s \<le> a \<and> a < blk_addr blk s + unat (fs_block_size s)) \<longrightarrow>
       img sect (hw s4) a = img sect (hw s) a)"
proof -
  have m1: "meta_step s s1 \<and> scratch1 s1 = scratch1 s \<and> hw s1 = hw s"
    using postD [OF post_gd_apply [OF ok desc gd post_e4_bitmap_checksum_set [OF desc]] s1] .
  have m2: "meta_step s s2" using m1 s2 meta_step_trans by blast
  have f2: "layout s2 = layout s" using m2 by (simp add: meta_step_def)
  note ok2 = meta_step_fs_ok [OF m2 ok]
  have gb: "gdt_blk g s2 = gdt_blk g s" using layout_fields [OF f2] by (simp add: gdt_blk_def)
  have m3: "meta_step s2 s3" "scratch1 s3 = scratch1 s2"
    "\<forall>a. \<not> (blk_addr (gdt_blk g s) s \<le> a \<and> a < blk_addr (gdt_blk g s) s + unat (fs_block_size s)) \<longrightarrow>
       img sect (hw s3) a = img sect (hw s2) a"
    using postD [OF post_e4_sync_gd [OF ok2] s3] desc by (simp_all add: layout_fields [OF f2] gb)
  note m = meta_step_trans [OF m2 m3(1)]
  note ok3 = meta_step_fs_ok [OF m ok]
  have f3: "layout s3 = layout s" using m by (simp add: meta_step_def)
  have bm3: "scratch1 s3 = Some bm" using m3(2) s2 m1 bm by simp
  have len: "length bm = unat (fs_block_size s)" using ok bm by (auto simp: fs_ok_def)
  obtain h where h: "s4 = s3\<lparr>hw := h\<rparr>"
    "\<forall>a. \<not> (blk_addr blk s \<le> a \<and> a < blk_addr blk s + length bm) \<longrightarrow> img sect h a = img sect (hw s3) a"
    "rc4 = 0 \<longrightarrow> img sect h = patch (img sect (hw s3)) (blk_addr blk s) bm"
    using write_scratch1_ok [OF ok3 bm3, of blk] s4 by (auto simp: layout_fields [OF f3])
  have "rc4 = 0 \<longrightarrow> bitmap_on_disk sect s4 blk = bm"
    using img_range_patch(1) [of sect h "hw s3" "blk_addr blk s" bm] h len by (simp add: layout_fields [OF f3])
  moreover have "meta_step s s4"
    using meta_step_trans [OF m io_meta_step [OF io_stepI(4) [OF ok3]], of h] h(1) by simp
  ultimately show ?thesis
    using h bm3 m3(3) s2 m1 len f3 by simp
qed

abbreviation (input) "group_of b s \<equiv>
  ucast ((b - ucast (fs_first_data_block s)) div ucast (fs_blocks_per_group s) :: u64) :: u32"
abbreviation (input) "index_of b s \<equiv>
  ucast ((b - ucast (fs_first_data_block s)) mod ucast (fs_blocks_per_group s) :: u64) :: u32"

lemma e4_free_block_refused:
  assumes ok: "fs_ok sect s" and loc: "bitmap_loc False (group_of b s) s = Some (gd, blk)"
    and clear: "bm_test (bitmap_on_disk sect s blk) (index_of b s) = Some False"
    and free: "e4_free_block b s = Some (rc, s')"
  shows "rc = - 1"
proof -
  have "post (e4_free_block b s) (\<lambda>(rc, s'). rc = - 1)"
    unfolding e4_free_block_def Let_def
    by (intro post_intros) (use loc clear in \<open>auto simp: bind_simps dest!: postD [OF post_load_bitmap [OF ok]]\<close>)
  with free show ?thesis by (auto dest: postD)
qed

lemma e4_free_block_done:
  assumes ok: "fs_ok sect s" and desc: "desc_ok s" and free: "e4_free_block b s = Some (0, s')"
  shows "\<exists>gd blk bm'. bitmap_loc False (group_of b s) s = Some (gd, blk) \<and> meta_step s s' \<and>
    bm_test (bitmap_on_disk sect s blk) (index_of b s) = Some True \<and>
    bm_clear (bitmap_on_disk sect s blk) (index_of b s) = Some bm' \<and> bitmap_on_disk sect s' blk = bm'"
proof -
  have "\<not> (\<not> fs_writable s \<or> b < ucast (fs_first_data_block s) \<or> b \<ge> fs_blocks_count s)"
    using free by (auto simp: e4_free_block_def split: if_splits)
  with free obtain gd blk s1 bm bm' s2 s3 rc s4 where
    l: "load_bitmap False (group_of b s) s = Some (Some (gd, blk), s1)"
    and bm: "scratch1 s1 = Some bm" "bm_test bm (index_of b s) = Some True" "bm_clear bm (index_of b s) = Some bm'"
    and s2: "gd_apply gd (\<lambda>d. e4_bitmap_checksum_set bm' False d (s1\<lparr>scratch1 := Some bm'\<rparr>)) (s1\<lparr>scratch1 := Some bm'\<rparr>) = Some s2"
    and s3: "adjust_free_blocks gd 1 s2 = Some s3"
    and s4: "e4_sync_gd (group_of b s) s3 = Some (rc, s4)" and s': "write_scratch1 blk s4 = (0, s')"
    by (auto simp: e4_free_block_def bind_simps Let_def split: option.splits if_splits)
  have io: "io_step s s1" "bitmap_loc False (group_of b s) s = Some (gd, blk)" "bm = bitmap_on_disk sect s blk"
    using postD [OF post_load_bitmap [OF ok] l] bm(1) by auto
  let ?s1 = "s1\<lparr>scratch1 := Some bm'\<rparr>"
  have len: "length bm' = unat (fs_block_size s1)"
    using bm(3) io(1,3) by (auto simp: bm_clear_eq io_step_def split: if_splits)
  have m1: "meta_step s ?s1"
    using io_meta_step [OF io(1)] len layout_fields [of s1 s] by (auto simp: meta_step_def)
  note ok1 = meta_step_fs_ok [OF m1 ok]
  have lay: "layout ?s1 = layout s" using m1 by (simp add: meta_step_def)
  have gd: "e4_gd (group_of b s) ?s1 = Some gd"
    using io(2) unfolding e4_gd_layout [OF lay] by (auto simp: bitmap_loc_def bind_simps split: if_splits)
  have desc1: "desc_ok ?s1" using desc layout_fields [OF lay] by simp
  have m2: "meta_step ?s1 s2 \<and> scratch1 s2 = scratch1 ?s1 \<and> hw s2 = hw ?s1"
    using postD [OF post_gd_apply [OF ok1 desc1 gd post_e4_bitmap_checksum_set [OF desc1]] s2] .
  have lay2: "layout s2 = layout ?s1" using m2 by (simp add: meta_step_def)
  have m3: "meta_step s2 s3 \<and> scratch1 s3 = scratch1 s2 \<and> hw s3 = hw s2"
  proof (rule postD [OF post_adjust_free_blocks s3])
    show "fs_ok sect s2" using meta_step_fs_ok [OF conjunct1 [OF m2] ok1] .
    show "desc_ok s2" using desc1 layout_fields(15) [OF lay2] by simp
    show "e4_gd (group_of b s) s2 = Some gd" using gd e4_gd_layout [OF lay2] by simp
  qed
  have "meta_step ?s1 s' \<and> bitmap_on_disk sect s' blk = bm'"
    using bitmap_written [OF ok1 desc1 gd _ s2 m3 s4 s'] by simp
  then show ?thesis
    using io bm m1 meta_step_trans by blast
qed

text \<open>C18: a block freed with success was marked in the bitmap that its group descriptor names on the
  disk; afterwards that bitmap has the bit clear and every other bit as before, and freeing the block
  a second time is refused.\<close>

theorem e4_free_block_frees:
  assumes ok: "fs_ok sect s" and desc: "desc_ok s" and free: "e4_free_block b s = Some (0, s1)"
  shows "\<exists>gd blk. bitmap_loc False (group_of b s) s = Some (gd, blk) \<and>
      bm_test (bitmap_on_disk sect s blk) (index_of b s) = Some True \<and>
      (\<forall>j. bm_test (bitmap_on_disk sect s1 blk) j =
         (if j = index_of b s then Some False else bm_test (bitmap_on_disk sect s blk) j)) \<and>
      (\<forall>rc s2. e4_free_block b s1 = Some (rc, s2) \<longrightarrow> rc = - 1)"
proof -
  obtain gd blk bm' where d: "bitmap_loc False (group_of b s) s = Some (gd, blk)" "meta_step s s1"
    "bm_test (bitmap_on_disk sect s blk) (index_of b s) = Some True"
    "bm_clear (bitmap_on_disk sect s blk) (index_of b s) = Some bm'" "bitmap_on_disk sect s1 blk = bm'"
    using e4_free_block_done [OF ok desc free] by blast
  have lay: "layout s1 = layout s" using d(2) by (simp add: meta_step_def)
  have "bitmap_loc False (group_of b s1) s1 = Some (gd, blk)"
    using d(1,2) layout_fields [OF lay] by (simp add: meta_step_def)
  moreover have "bm_test (bitmap_on_disk sect s1 blk) (index_of b s1) = Some False"
    using bm.test_unmark [OF d(4), of "index_of b s"] d(5) layout_fields [OF lay] by simp
  ultimately have "rc = - 1" if "e4_free_block b s1 = Some (rc, s2)" for rc s2
    using e4_free_block_refused [OF meta_step_fs_ok [OF d(2) ok] _ _ that] by blast
  then show ?thesis
    using d(1,3) bm.test_unmark [OF d(4)] d(5) by auto
qed

lemma bm_set_found:
  assumes "unat byt < length bm" and "b < 8" and "unat byt < 2 ^ 29"
  shows "st8 bm (unat byt) (rd8 bm (unat byt) OR push_bit b 1) = bm_set bm (byt * 8 + of_nat b)"
    and "unat (byt * 8 + of_nat b :: u32) = 8 * unat byt + b"
proof -
  have 1: "unat (of_nat b :: u32) = b" using assms by (simp add: unat_of_nat)
  have 2: "unat (byt * 8) = 8 * unat byt" using assms by (subst unat_mult_small) auto
  show u: "unat (byt * 8 + of_nat b :: u32) = 8 * unat byt + b"
    using assms by (subst unat_add_small) (auto simp: 1 2)
  have "(8 * unat byt + b) div 8 = unat byt" "(8 * unat byt + b) mod 8 = b" using assms(2) by auto
  then show "st8 bm (unat byt) (rd8 bm (unat byt) OR push_bit b 1) = bm_set bm (byt * 8 + of_nat b)"
    unfolding bm_set_eq u using assms by (simp add: rd8_def)
qed

lemma take_block_done:
  assumes ok: "fs_ok sect s" and desc: "desc_ok s" and gd: "e4_gd g s = Some gd"
    and bm: "scratch1 s = Some bm" and byt: "unat byt < length bm" "b < 8" "unat byt < 2 ^ 29"
    and take: "take_block g gd blk byt b s = Some (out, s')"
  shows "out = blk_of g (byt * 8 + of_nat b) s \<and> meta_step s s' \<and>
    ((\<forall>x t. layout t = layout s \<longrightarrow> fst (e4_write_block blk (Some x) t) = 0) \<longrightarrow>
     (blk_addr out s + unat (fs_block_size s) \<le> blk_addr blk s \<or>
      blk_addr blk s + unat (fs_block_size s) \<le> blk_addr out s) \<longrightarrow>
     bm_set bm (byt * 8 + of_nat b) = Some (bitmap_on_disk sect s' blk))"
proof -
  obtain bm' where set: "bm_set bm (byt * 8 + of_nat b) = Some bm'" and len: "length bm' = length bm"
    using byt bm_set_found(2) [OF byt] by (simp add: bm_set_eq)
  let ?s = "s\<lparr>scratch1 := Some bm'\<rparr>"
  obtain s1 s2 r3 s4 b2 where
    s1: "gd_apply gd (\<lambda>d. e4_bitmap_checksum_set bm' False d ?s) ?s = Some s1"
    and s2: "adjust_free_blocks gd (- 1) s1 = Some s2"
    and s3: "e4_sync_gd g s2 = Some r3" and s4: "s4 = snd (write_scratch1 blk (snd r3))"
    and b2: "scratch2 s4 = Some b2" "unat (fs_block_size s4) \<le> length b2"
    and out: "out = blk_of g (byt * 8 + of_nat b) s4"
    and s': "s' = snd (write_scratch2 out (s4\<lparr>scratch2 := Some (upd b2 0 (replicate (unat (fs_block_size s4)) 0))\<rparr>))"
    using take bm set bm_set_found(1) [OF byt] byt(1)
    by (auto simp: take_block_def bind_simps Let_def case_prod_beta blk_of_def)
  obtain rc s3 where r3: "r3 = (rc, s3)" by (cases r3)
  obtain rc4 where w4: "write_scratch1 blk s3 = (rc4, s4)" using s4 r3 by (cases "write_scratch1 blk s3") simp
  have len1: "length bm = unat (fs_block_size s)" using ok bm by (auto simp: fs_ok_def)
  have ok0: "fs_ok sect ?s" and lay0: "layout ?s = layout s" and gd0: "e4_gd g ?s = Some gd" and desc0: "desc_ok ?s"
    using ok desc gd len len1 e4_gd_layout [of ?s s g] by (auto simp: desc_ok_def)
  have m0: "meta_step s ?s" using meta_step_refl [OF ok] len len1 by (auto simp: meta_step_def)
  have m1: "meta_step ?s s1 \<and> scratch1 s1 = scratch1 ?s \<and> hw s1 = hw ?s"
    using postD [OF post_gd_apply [OF ok0 desc0 gd0 post_e4_bitmap_checksum_set [OF desc0]] s1] .
  have lay1: "layout s1 = layout ?s" using m1 by (simp add: meta_step_def)
  have m2: "meta_step s1 s2 \<and> scratch1 s2 = scratch1 s1 \<and> hw s2 = hw s1"
  proof (rule postD [OF post_adjust_free_blocks s2])
    show "fs_ok sect s1" using meta_step_fs_ok [OF conjunct1 [OF m1] ok0] .
    show "desc_ok s1" using desc0 layout_fields(15) [OF lay1] by simp
    show "e4_gd g s1 = Some gd" using gd0 e4_gd_layout [OF lay1] by simp
  qed
  have w: "meta_step ?s s4" "layout s3 = layout s" "scratch1 s3 = Some bm'" "rc4 = 0 \<longrightarrow> bitmap_on_disk sect s4 blk = bm'"
    using bitmap_written [OF ok0 desc0 gd0 _ s1 m2 s3 [unfolded r3] w4] lay0 by simp_all
  note m4 = meta_step_trans [OF m0 w(1)]
  have lay4: "layout s4 = layout s" using m4 by (simp add: meta_step_def)
  note ok4 = meta_step_fs_ok [OF m4 ok]
  let ?b = "upd b2 0 (replicate (unat (fs_block_size s4)) 0)" let ?s5 = "s4\<lparr>scratch2 := Some ?b\<rparr>"
  have b2l: "length ?b = unat (fs_block_size s4)" using b2 ok4 by (auto simp: fs_ok_def)
  have f4: "blk_addr x s4 = blk_addr x s" "fs_block_size s4 = fs_block_size s" for x
    using layout_fields [OF lay4] by simp_all
  have "fs_ok sect ?s5" using ok4 b2l by simp
  from write_scratch2_ok [OF this, of ?b out] obtain h where h: "s' = ?s5\<lparr>hw := h\<rparr>"
    "\<forall>a. \<not> (blk_addr out s \<le> a \<and> a < blk_addr out s + unat (fs_block_size s)) \<longrightarrow> img sect h a = img sect (hw s4) a"
    using s' b2l f4 by auto
  have fin: "meta_step s s'"
    using m4 h(1) b2l f4 by (auto simp: meta_step_def)
  have disk: "bitmap_on_disk sect s' blk = bm'"
    if "\<forall>x t. layout t = layout s \<longrightarrow> fst (e4_write_block blk (Some x) t) = 0"
      "blk_addr out s + unat (fs_block_size s) \<le> blk_addr blk s \<or>
       blk_addr blk s + unat (fs_block_size s) \<le> blk_addr out s"
  proof -
    have "rc4 = 0"
      using that(1) w(2,3) w4 by (metis fst_conv write_scratch1_def)
    moreover have "bitmap_on_disk sect s' blk = bitmap_on_disk sect s4 blk"
      using h that(2) f4 by (auto simp: img_range_def)
    ultimately show ?thesis using w(4) by simp
  qed
  have "out = blk_of g (byt * 8 + of_nat b) s" using out layout_fields(17) [OF lay4] by simp
  with fin disk set show ?thesis by auto
qed

text \<open>The lowest free block of a group was taken: it was free in the bitmap on the disk, and the bitmap
  now has its bit, when the bitmap could be written and does not share sectors with the new block.\<close>

definition block_taken :: "('d \<Rightarrow> nat \<Rightarrow> bytes) \<Rightarrow> 'd ext4 \<Rightarrow> u64 \<Rightarrow> 'd ext4 \<Rightarrow> u32 \<Rightarrow> u64 \<Rightarrow> u32 \<Rightarrow> bool" where
  "block_taken sect s out s' g blk idx \<longleftrightarrow>
     out = blk_of g idx s \<and> idx < group_bits g s \<and> meta_step s s' \<and>
     bm_test (bitmap_on_disk sect s blk) idx = Some False \<and>
     (\<forall>j < idx. bm_test (bitmap_on_disk sect s blk) j = Some True) \<and>
     ((\<forall>x t. layout t = layout s \<longrightarrow> fst (e4_write_block blk (Some x) t) = 0) \<longrightarrow>
      (blk_addr out s + unat (fs_block_size s) \<le> blk_addr blk s \<or>
       blk_addr blk s + unat (fs_block_size s) \<le> blk_addr out s) \<longrightarrow>
      (\<forall>j. bm_test (bitmap_on_disk sect s' blk) j =
         (if j = idx then Some True else bm_test (bitmap_on_disk sect s blk) j)))"

lemma block_taken_io:
  assumes m: "meta_step s s1" and sec: "sect (hw s1) = sect (hw s)"
    and t: "block_taken sect s1 out s' g blk idx"
  shows "block_taken sect s out s' g blk idx"
proof -
  have lay: "layout s1 = layout s" using m by (simp add: meta_step_def)
  have img: "img_range sect (hw s1) a n = img_range sect (hw s) a n" for a n
    using img_range_cong [of sect "hw s1" "hw s", OF sec] .
  show ?thesis
    using t meta_step_trans [OF m]
    unfolding block_taken_def lay img layout_fields(1,14,16,17) [OF lay] by blast
qed

lemma take_block_taken:
  assumes ok: "fs_ok sect s" and desc: "desc_ok s" and gd: "e4_gd g s = Some gd"
    and bm: "scratch1 s = Some (bitmap_on_disk sect s blk)"
    and fit: "unat (group_bits g s) \<le> 8 * unat (fs_block_size s)"
    and scan: "scan_bytes (bitmap_on_disk sect s blk) (group_bits g s) 0 (unat ((group_bits g s + 7) div 8)) =
       Some (Some (byt, b))"
    and take: "take_block g gd blk byt b s = Some (out, s')"
  shows "block_taken sect s out s' g blk (byt * 8 + of_nat b)"
proof -
  let ?n = "unat (group_bits g s)" and ?bm = "bitmap_on_disk sect s blk"
  have bs: "unat (fs_block_size s) \<le> 8192" using ok by (simp add: fs_ok_def)
  have n: "unat ((group_bits g s + 7) div 8) = (?n + 7) div 8"
    using fit bs by (simp add: unat_div_distrib unat_add_small)
  have le: "(?n + 7) div 8 \<le> unat (fs_block_size s)" using fit by linarith
  have spec: "unat byt < (?n + 7) div 8" "b < 8" "8 * unat byt + b < ?n" "\<not> bit_at ?bm (8 * unat byt + b)"
    "\<And>m. m < 8 * unat byt + b \<Longrightarrow> bit_at ?bm m"
    using scan_bytes_spec [of 0 "(?n + 7) div 8" ?bm "group_bits g s"] scan le bs unfolding n by auto
  have byt: "unat byt < length ?bm" "unat byt < 2 ^ 29" using spec(1) le bs by auto
  let ?idx = "byt * 8 + of_nat b :: u32"
  have idx: "unat ?idx = 8 * unat byt + b" using bm_set_found(2) [OF byt(1) spec(2) byt(2)] .
  have "bm_test ?bm ?idx = Some False" "\<forall>j < ?idx. bm_test ?bm j = Some True"
    using spec byt by (auto simp: bm_test_eq idx word_less_nat_alt)
  moreover have "?idx < group_bits g s" using spec(3) by (simp add: word_less_nat_alt idx)
  ultimately show ?thesis
    using take_block_done [OF ok desc gd bm byt(1) spec(2) byt(2) take] bm.test_mark
    unfolding block_taken_def by blast
qed

lemma alloc_block_groups_done:
  assumes "fs_ok sect s" and "desc_ok s"
    and "\<forall>g < fs_group_count s. unat (group_bits g s) \<le> 8 * unat (fs_block_size s)"
    and "fs_group_count s \<noteq> 0"
    and "alloc_block_groups hint gi k s = Some (0, out, s')"
  shows "\<exists>g gd blk idx. g < fs_group_count s \<and> bitmap_loc False g s = Some (gd, blk) \<and>
    block_taken sect s out s' g blk idx"
  using assms
proof (induction k arbitrary: gi s)
  case (Suc k)
  let ?g = "(hint + gi) mod fs_group_count s"
  have g: "?g < fs_group_count s"
    using Suc.prems(4) by (simp add: word_less_nat_alt unat_mod_distrib unat_gt_0)
  obtain r s1 where l: "load_bitmap False ?g s = Some (r, s1)"
    and rest: "(case r of None \<Rightarrow> alloc_block_groups hint (gi + 1) k s1
     | Some (gd, blk) \<Rightarrow> do {
         bm \<leftarrow> scratch1 s1;
         found \<leftarrow> scan_bytes bm (group_bits ?g s1) 0 (unat ((group_bits ?g s1 + 7) div 8));
         case found of
           None \<Rightarrow> alloc_block_groups hint (gi + 1) k s1
         | Some (byte_i, b) \<Rightarrow> do {
             (out, s) \<leftarrow> take_block ?g gd blk byte_i b s1;
             Some (0, out, s) } }) = Some (0, out, s')"
    using Suc.prems(5) [unfolded alloc_block_groups.simps Let_def] by (cases "load_bitmap False ?g s") auto
  note lp = postD [OF post_load_bitmap [OF Suc.prems(1)] l]
  have m: "meta_step s s1" and sec: "sect (hw s1) = sect (hw s)" using lp io_meta_step by auto
  have lay: "layout s1 = layout s" using m by (simp add: meta_step_def)
  note fld = layout_fields [OF lay]
  note ok1 = meta_step_fs_ok [OF m Suc.prems(1)]
  have again: ?case if nx: "alloc_block_groups hint (gi + 1) k s1 = Some (0, out, s')"
  proof -
    obtain g gd blk idx where "g < fs_group_count s1" "bitmap_loc False g s1 = Some (gd, blk)"
      "block_taken sect s1 out s' g blk idx"
      using Suc.IH [OF ok1 _ _ _ nx] Suc.prems(2-4) fld(1,7,15,16) by auto
    moreover from this have "bitmap_loc False g s = Some (gd, blk)" "g < fs_group_count s"
      using m fld(7) by (simp_all add: meta_step_def)
    ultimately show ?thesis using block_taken_io [OF m sec] by blast
  qed
  show ?case
  proof (cases r)
    case None
    then show ?thesis using again rest by simp
  next
    case (Some p)
    then obtain gd blk where r: "r = Some (gd, blk)" by (cases p) simp
    then have loc: "bitmap_loc False ?g s = Some (gd, blk)"
      and bm: "scratch1 s1 = Some (bitmap_on_disk sect s1 blk)"
      using lp fld(1,14) img_range_cong [of sect "hw s1" "hw s", OF sec] by auto
    have gd: "e4_gd ?g s1 = Some gd"
      using loc unfolding e4_gd_layout [OF lay] by (auto simp: bitmap_loc_def bind_simps split: if_splits)
    obtain found where f: "scan_bytes (bitmap_on_disk sect s1 blk) (group_bits ?g s1) 0
        (unat ((group_bits ?g s1 + 7) div 8)) = Some found"
      and rest2: "(case found of None \<Rightarrow> alloc_block_groups hint (gi + 1) k s1
         | Some (byte_i, b) \<Rightarrow> do {
             (out, s) \<leftarrow> take_block ?g gd blk byte_i b s1;
             Some (0, out, s) }) = Some (0, out, s')"
      using rest bm unfolding r by (auto simp: bind_simps)
    show ?thesis
    proof (cases found)
      case None
      then show ?thesis using again rest2 by simp
    next
      case (Some q)
      then obtain byt b where q: "found = Some (byt, b)" by (cases q) simp
      then have take: "take_block ?g gd blk byt b s1 = Some (out, s')"
        using rest2 by (auto simp: bind_simps)
      have "block_taken sect s1 out s' ?g blk (byt * 8 + of_nat b)"
      proof (rule take_block_taken [OF ok1 _ gd bm _ f [unfolded q] take])
        show "desc_ok s1" using Suc.prems(2) fld(15) by simp
        show "unat (group_bits ?g s1) \<le> 8 * unat (fs_block_size s1)"
          using Suc.prems(3) g fld(1,16) by simp
      qed
      from block_taken_io [OF m sec this] show ?thesis using loc g by blast
    qed
  qed
qed simp


section \<open>On a concrete disk\<close>

lemma desc_ok_demo: "desc_ok (demo_fs bs h)"
  by (simp add: desc_ok_def demo_fs_def)

lemmas demo_alloc_defs = load_bitmap_def e4_gd_def gd_apply_def read_scratch1_def read_scratch2_def
  write_scratch1_def write_scratch2_def bm_test_def bm_set_def bm_clear_def e4_bitmap_checksum_set_def
  e4_desc_checksum_set_def adjust_free_blocks_def e4_sync_gd_def blk_of_def group_bits_def
  splice_def

theorem e4_free_block_frees_witness:
  "\<exists>s1. e4_free_block 20 (demo_fs 512 (\<lambda>i. if i = 3 then [0, 0, 16] else [])) = Some (0, s1) \<and>
     (\<exists>gd blk. bitmap_loc False 0 (demo_fs 512 (\<lambda>i. if i = 3 then [0, 0, 16] else [])) = Some (gd, blk) \<and>
        bm_test (bitmap_on_disk ram_sect s1 blk) 20 = Some False)"
proof -
  let ?s = "demo_fs 512 (\<lambda>i. if i = 3 then [0, 0, 16] else [])"
  obtain s1 where s1: "e4_free_block 20 ?s = Some (0, s1)"
    by (simp add: e4_free_block_def demo_alloc_defs demo_defs bind_simps Let_def)
  have "fs_first_data_block ?s = 0" "fs_blocks_per_group ?s = 64" by (simp_all add: demo_fs_def)
  then show ?thesis
    using e4_free_block_frees [OF fs_ok_demo desc_ok_demo s1] s1 by auto
qed

lemma scan_demo: "scan_bytes (255 # 15 # xs) 64 0 8 = Some (Some (1, 4))"
proof -
  have "scan_byte 15 1 64 0 8 = Some 4" by code_simp
  then have "scan_bytes (255 # 15 # xs) 64 0 (Suc (Suc n)) = Some (Some (1, 4))" for n
    by (simp add: rd8_def)
  from this [of 6] show ?thesis by (simp del: scan_bytes.simps)
qed


end
