(* ===== verification/Ext4_Tree.thy ===== *)
theory Ext4_Tree
  imports Ext4_Map Ext4_Alloc
begin

text \<open>
  Growing and emptying files (\<open>fs/ext4_fsops.c\<close>): runs of freshly allocated blocks, the extent tree
  built from them, and truncation to nothing.
\<close>

section \<open>Sector counts\<close>

text \<open>The change is an \<open>s64\<close>; the division by 512 rounds towards zero.\<close>

definition add_iblocks :: "bytes \<Rightarrow> int \<Rightarrow> 'd ext4 \<Rightarrow> bytes option" where
  "add_iblocks inode delta_bytes s = do {
     chk (- (2 ^ 63) \<le> delta_bytes \<and> delta_bytes < 2 ^ 63);
     let sectors = sgn delta_bytes * (\<bar>delta_bytes\<bar> div 512);
     let cur = uint (rd32 inode I_blocks_lo);
     let cur = (if fs_inode_size s > 128 then cur OR push_bit 32 (uint (rd16 inode I_blocks_hi)) else cur);
     let cur = max 0 (cur + sectors);
     let inode = wr32 inode I_blocks_lo (of_int cur);
     Some (if fs_inode_size s > 128
           then wr16 inode I_blocks_hi (ucast (drop_bit 32 (of_int cur :: u64))) else inode) }"

section \<open>Building the extent tree\<close>

record run =
  run_start :: u64
  run_first :: u32
  run_count :: u32

definition ROOT_MAX_ENTRIES :: nat where "ROOT_MAX_ENTRIES = 4"

definition leaf_capacity :: "'d ext4 \<Rightarrow> u32" where
  "leaf_capacity s =
     (let cap = (fs_block_size s - 12 - (if fs_meta_csum s then 4 else 0)) div 12
      in if cap \<noteq> 0 then cap else 1)"

definition put_extent :: "bytes \<Rightarrow> nat \<Rightarrow> run \<Rightarrow> bytes option" where
  "put_extent node i r = do {
     let e = 12 + 12 * i;
     node \<leftarrow> st32 node (e + EX_first_block) (run_first r);
     node \<leftarrow> st16 node (e + EX_count) (if run_count r = 32768 then 32767 else ucast (run_count r));
     node \<leftarrow> st32 node (e + EX_start_lo) (ucast (run_start r));
     st16 node (e + EX_start_hi) (ucast (drop_bit 32 (run_start r))) }"

fun put_extents :: "bytes \<Rightarrow> nat \<Rightarrow> run list \<Rightarrow> bytes option" where
  "put_extents node i [] = Some node"
| "put_extents node i (r # rs) = do { node \<leftarrow> put_extent node i r; put_extents node (i + 1) rs }"

definition put_header :: "bytes \<Rightarrow> u16 \<Rightarrow> u16 \<Rightarrow> u16 \<Rightarrow> bytes option" where
  "put_header node entries mx depth = do {
     node \<leftarrow> st16 node EH_magic EXTENT_MAGIC;
     node \<leftarrow> st16 node EH_entries entries;
     node \<leftarrow> st16 node EH_max mx;
     st16 node EH_depth depth }"

definition write_leaf :: "u32 \<Rightarrow> run list \<Rightarrow> 'd ext4 \<Rightarrow> (int \<times> u64 \<times> 'd ext4) option" where
  "write_leaf ino runs s = do {
     (rc, blk, s) \<leftarrow> e4_alloc_block_near 0 s;
     if rc \<noteq> 0 then Some (- 1, 0, s)
     else do {
       b \<leftarrow> scratch1 s;
       b \<leftarrow> splice b 0 (replicate (unat (fs_block_size s)) 0);
       let mx = ucast ((fs_block_size s - 12 - (if fs_meta_csum s then 4 else 0)) div 12);
       b \<leftarrow> put_header b (of_nat (length runs)) mx 0;
       b \<leftarrow> put_extents b 0 runs;
       s \<leftarrow> e4_extent_block_checksum_set ino Scratch1 (s\<lparr>scratch1 := Some b\<rparr>);
       let (rc, s) = write_scratch1 blk s;
       Some (rc, blk, s) } }"

text \<open>The leaves of a tree of depth one: \<open>k\<close> leaves of at most \<open>cap\<close> runs.\<close>

fun write_leaves ::
  "u32 \<Rightarrow> nat \<Rightarrow> run list \<Rightarrow> nat \<Rightarrow> bytes \<Rightarrow> 'd ext4 \<Rightarrow> (int \<times> u64 list \<times> bytes \<times> 'd ext4) option" where
  "write_leaves ino cap runs 0 inode s = Some (0, [], inode, s)"
| "write_leaves ino cap runs (Suc k) inode s = do {
     (rc, blk, s) \<leftarrow> write_leaf ino (take cap runs) s;
     if rc \<noteq> 0 then Some (- 1, [], inode, s)
     else do {
       inode \<leftarrow> add_iblocks inode (uint (fs_block_size s)) s;
       (rc, blks, inode, s) \<leftarrow> write_leaves ino cap (drop cap runs) k inode s;
       Some (rc, blk # blks, inode, s) } }"

fun put_indexes :: "bytes \<Rightarrow> nat \<Rightarrow> nat \<Rightarrow> run list \<Rightarrow> u64 list \<Rightarrow> bytes option" where
  "put_indexes node i cap runs [] = Some node"
| "put_indexes node i cap runs (blk # blks) = do {
     let e = 12 + 12 * i;
     chk (runs \<noteq> []);
     node \<leftarrow> st32 node (e + IX_first_block) (run_first (hd runs));
     node \<leftarrow> st32 node (e + IX_leaf_lo) (ucast blk);
     node \<leftarrow> st16 node (e + IX_leaf_hi) (ucast (drop_bit 32 blk));
     node \<leftarrow> st16 node (e + IX_unused) 0;
     put_indexes node (i + 1) cap (drop cap runs) blks }"

text \<open>The root header starts at the block array of the inode.\<close>

definition at_root :: "(bytes \<Rightarrow> bytes option) \<Rightarrow> bytes \<Rightarrow> bytes option" where
  "at_root f inode = do { r \<leftarrow> f (drop I_block inode); Some (take I_block inode @ r) }"

definition put_root :: "bytes \<Rightarrow> u16 \<Rightarrow> u16 \<Rightarrow> bytes option" where
  "put_root root entries depth = do {
     root \<leftarrow> put_header root entries (of_nat ROOT_MAX_ENTRIES) depth;
     st32 root EH_generation 0 }"

definition build_tree :: "u32 \<Rightarrow> run list \<Rightarrow> bytes \<Rightarrow> 'd ext4 \<Rightarrow> (int \<times> bytes \<times> 'd ext4) option" where
  "build_tree ino runs inode s =
     (let n = length runs in
      if n \<le> ROOT_MAX_ENTRIES then do {
        inode \<leftarrow> at_root (\<lambda>root. do {
          root \<leftarrow> put_root root (of_nat n) 0;
          put_extents root 0 runs }) inode;
        Some (0, inode, s) }
      else do {
        let cap = leaf_capacity s;
        let leaves = (of_nat n + cap - 1) div cap;
        if unat leaves > ROOT_MAX_ENTRIES then Some (- 1, inode, s)
        else do {
          (rc, blks, inode, s) \<leftarrow> write_leaves ino (unat cap) runs (unat leaves) inode s;
          if rc \<noteq> 0 then Some (- 1, inode, s)
          else do {
            inode \<leftarrow> at_root (\<lambda>root. do {
              root \<leftarrow> put_root root (ucast leaves) 1;
              put_indexes root 0 (unat cap) runs blks }) inode;
            Some (0, inode, s) } } })"

section \<open>Appending\<close>

text \<open>A block joins the last run when it follows it on the disk and in the file.\<close>

definition push_run :: "run list \<Rightarrow> u64 \<Rightarrow> u64 \<Rightarrow> run list" where
  "push_run runs blk fb =
     (if runs \<noteq> [] \<and> run_start (last runs) + ucast (run_count (last runs)) = blk \<and>
         ucast (run_first (last runs) + run_count (last runs)) = fb
      then butlast runs @ [(last runs)\<lparr>run_count := run_count (last runs) + 1\<rparr>]
      else runs @ [\<lparr>run_start = blk, run_first = ucast fb, run_count = 1\<rparr>])"

text \<open>The copy loop; \<open>data\<close> is the caller's buffer, or none for zeroes.\<close>

fun append_loop ::
  "u64 \<Rightarrow> bytes option \<Rightarrow> nat \<Rightarrow> u32 \<Rightarrow> run list \<Rightarrow> 'd ext4 \<Rightarrow> (int \<times> run list \<times> 'd ext4) option" where
  "append_loop start data 0 don runs s = Some (0, runs, s)"
| "append_loop start data (Suc k) don runs s = do {
     q \<leftarrow> udiv (start + ucast don) (ucast (fs_blocks_per_group s));
     (rc, blk, s) \<leftarrow> e4_alloc_block_near (ucast q) s;
     if rc \<noteq> 0 then Some (- 1, runs, s)
     else do {
       b2 \<leftarrow> scratch2 s;
       let bs = unat (fs_block_size s);
       x \<leftarrow> (case data of None \<Rightarrow> Some (replicate bs 0) | Some d \<Rightarrow> slice d (unat don * bs) bs);
       b2 \<leftarrow> splice b2 0 x;
       let (rc, s) = write_scratch2 blk (s\<lparr>scratch2 := Some b2\<rparr>);
       if rc \<noteq> 0 then Some (- 1, runs, s)
       else append_loop start data k (don + 1) (push_run runs blk (start + ucast don)) s } }"

text \<open>The run table is a heap array of \<open>count + 1\<close> runs of 16 bytes; its size is computed in
  64 bits and passed on in 32.\<close>

definition e4_append_blocks ::
  "bytes \<Rightarrow> u32 \<Rightarrow> u64 \<Rightarrow> u32 \<Rightarrow> bytes option \<Rightarrow> 'd ext4 \<Rightarrow> (int \<times> bytes \<times> 'd ext4) option" where
  "e4_append_blocks inode ino start count data s = do {
     ((p, tab), s) \<leftarrow> k_zalloc (ucast (16 * (ucast (count + 1) :: u64))) s;
     case tab of
       None \<Rightarrow> Some (- 1, inode, s)
     | Some tb \<Rightarrow> do {
         (rc, runs, s) \<leftarrow> append_loop start data (unat count) 0 [] s;
         chk (16 * length runs \<le> length tb);
         if rc \<noteq> 0 then do { s \<leftarrow> k_free p s; Some (- 1, inode, s) }
         else do {
           (rc, inode, s) \<leftarrow> build_tree ino runs inode s;
           inode \<leftarrow> (if rc = 0 then add_iblocks inode (uint count * uint (fs_block_size s)) s
                     else Some inode);
           s \<leftarrow> k_free p s;
           Some (rc, inode, s) } } }"

section \<open>Truncation\<close>

fun free_run :: "u64 \<Rightarrow> nat \<Rightarrow> 'd ext4 \<Rightarrow> 'd ext4 option" where
  "free_run start 0 s = Some s"
| "free_run start (Suc k) s = do { (_, s) \<leftarrow> e4_free_block start s; free_run (start + 1) k s }"

fun free_extents :: "bytes \<Rightarrow> nat \<Rightarrow> nat \<Rightarrow> u64 \<Rightarrow> 'd ext4 \<Rightarrow> (u64 \<times> 'd ext4) option" where
  "free_extents root i 0 freed s = Some (freed, s)"
| "free_extents root i (Suc k) freed s = do {
     let e = 12 + 12 * i;
     count \<leftarrow> ld16 root (e + EX_count);
     if count \<ge> 32768 then free_extents root (i + 1) k freed s
     else do {
       hi \<leftarrow> ld16 root (e + EX_start_hi);
       lo \<leftarrow> ld32 root (e + EX_start_lo);
       s \<leftarrow> free_run (ucast lo OR push_bit 32 (ucast hi)) (unat count) s;
       free_extents root (i + 1) k (freed + ucast count) s } }"

fun free_leaves :: "bytes \<Rightarrow> nat \<Rightarrow> nat \<Rightarrow> 'd ext4 \<Rightarrow> 'd ext4 option" where
  "free_leaves root i 0 s = Some s"
| "free_leaves root i (Suc k) s = do {
     let e = 12 + 12 * i;
     lo \<leftarrow> ld32 root (e + IX_leaf_lo);
     hi \<leftarrow> ld16 root (e + IX_leaf_hi);
     let lb = (ucast lo OR push_bit 32 (ucast hi) :: u64);
     s \<leftarrow> (if lb \<noteq> 0 then do { (_, s) \<leftarrow> e4_free_block lb s; Some s } else Some s);
     free_leaves root (i + 1) k s }"

definition free_extent_tree :: "bytes \<Rightarrow> 'd ext4 \<Rightarrow> (bytes \<times> 'd ext4) option" where
  "free_extent_tree inode s =
     (let root = drop I_block inode; entries = rd16 root EH_entries; depth = rd16 root EH_depth in
      if rd16 root EH_magic \<noteq> EXTENT_MAGIC \<or> entries = 0 then Some (inode, s)
      else do {
        (freed, s) \<leftarrow> (if depth = 0 then free_extents root 0 (min (unat entries) 4) 0 s else Some (0, s));
        (freed, s) \<leftarrow> (if depth > 0 then do {
                         s \<leftarrow> free_leaves root 0 (min (unat entries) (unat (rd16 root EH_max))) s;
                         Some (freed + ucast entries, s) }
                       else Some (freed, s));
        inode \<leftarrow> add_iblocks inode (- (sint freed * uint (fs_block_size s))) s;
        inode \<leftarrow> at_root (\<lambda>root. do {
          root \<leftarrow> st16 root EH_entries 0;
          st16 root EH_depth 0 }) inode;
        Some (inode, s) })"

text \<open>The children of an indirect block and the block itself. The loop over the snapshot of the
  block is \<open>free_children\<close>.\<close>

fun free_indirect_tree :: "nat \<Rightarrow> u64 \<Rightarrow> u32 \<Rightarrow> 'd ext4 \<Rightarrow> (u32 \<times> 'd ext4) option"
  and free_children :: "nat \<Rightarrow> bytes \<Rightarrow> nat \<Rightarrow> nat \<Rightarrow> u32 \<Rightarrow> 'd ext4 \<Rightarrow> (u32 \<times> 'd ext4) option" where
  "free_indirect_tree 0 blk freed s =
     (if blk = 0 then Some (freed, s)
      else do { (_, s) \<leftarrow> e4_free_block blk s; Some (freed + 1, s) })"
| "free_indirect_tree (Suc levels) blk freed s =
     (if blk = 0 then Some (freed, s)
      else do {
        ((p, snapshot), s) \<leftarrow> k_alloc (fs_block_size s) s;
        if snapshot = None then Some (freed, s)
        else do {
          (rc, snapshot, s) \<leftarrow> e4_read_block blk snapshot s;
          if rc \<noteq> 0 then do { s \<leftarrow> k_free p s; Some (freed, s) }
          else do {
            snap \<leftarrow> snapshot;
            (freed, s) \<leftarrow> free_children levels snap 0 (unat (fs_block_size s div 4)) freed s;
            s \<leftarrow> k_free p s;
            (_, s) \<leftarrow> e4_free_block blk s;
            Some (freed + 1, s) } } })"
| "free_children levels snap i 0 freed s = Some (freed, s)"
| "free_children levels snap i (Suc k) freed s = do {
     child \<leftarrow> ld32 snap (4 * i);
     (freed, s) \<leftarrow> free_indirect_tree levels (ucast child) freed s;
     free_children levels snap (i + 1) k freed s }"

fun free_direct :: "nat \<Rightarrow> bytes \<Rightarrow> u32 \<Rightarrow> 'd ext4 \<Rightarrow> (bytes \<times> u32 \<times> 'd ext4) option" where
  "free_direct 0 inode freed s = Some (inode, freed, s)"
| "free_direct (Suc i) inode freed s = do {
     let b = rd32 inode (I_block + 4 * i);
     if b \<noteq> 0 then do {
       (_, s) \<leftarrow> e4_free_block (ucast b) s;
       free_direct i (wr32 inode (I_block + 4 * i) 0) (freed + 1) s }
     else free_direct i inode freed s }"

fun free_indirects :: "nat list \<Rightarrow> bytes \<Rightarrow> u32 \<Rightarrow> 'd ext4 \<Rightarrow> (bytes \<times> u32 \<times> 'd ext4) option" where
  "free_indirects [] inode freed s = Some (inode, freed, s)"
| "free_indirects (which # ws) inode freed s = do {
     (freed, s) \<leftarrow> free_indirect_tree (which - 11) (ucast (rd32 inode (I_block + 4 * which))) freed s;
     free_indirects ws (wr32 inode (I_block + 4 * which) 0) freed s }"

definition e4_truncate :: "bytes \<Rightarrow> u64 \<Rightarrow> 'd ext4 \<Rightarrow> (int \<times> bytes \<times> 'd ext4) option" where
  "e4_truncate inode new_size s =
     (if new_size \<noteq> 0 then Some (- 1, inode, s)
      else do {
        (inode, s) \<leftarrow>
          (if rd32 inode I_flags AND INO_FLAG_EXTENTS \<noteq> 0 then free_extent_tree inode s
           else do {
             (inode, freed, s) \<leftarrow> free_direct 12 inode 0 s;
             (inode, freed, s) \<leftarrow> free_indirects [12, 13, 14] inode freed s;
             inode \<leftarrow> add_iblocks inode (- (uint freed * uint (fs_block_size s))) s;
             Some (inode, s) });
        let inode = wr32 inode I_size_lo 0;
        let inode = wr32 inode I_size_or_dir_acl 0;
        Some (0, inode, s) })"

end
