(* ===== verification/Ext4_Dir.thy ===== *)
theory Ext4_Dir
  imports Ext4_Tree
begin

text \<open>
  Directories (the second half of \<open>fs/ext4_fsops.c\<close>): the scan of the records of a block, lookup,
  and the addition and removal of an entry. A record is named by its offset in its block. The
  context of a callback is threaded through the scan.
\<close>

section \<open>Scanning\<close>

text \<open>No caller uses this check.\<close>

definition path_component_ok :: "bytes \<Rightarrow> nat \<Rightarrow> bool option" where
  "path_component_ok p len =
     (if len = 0 \<or> len > 255 then Some False
      else do {
        c \<leftarrow> ld8 p 0;
        if c = 47 then Some False
        else do { x \<leftarrow> slice p 0 len; Some (0 \<notin> set x) } })"

type_synonym 'c dir_cb = "bytes \<Rightarrow> u32 \<Rightarrow> u8 \<Rightarrow> 'c \<Rightarrow> (int \<times> 'c) option"

text \<open>The test at the head of every scan: a record length the driver does not follow.\<close>

definition bad_rec :: "u16 \<Rightarrow> nat \<Rightarrow> nat \<Rightarrow> bool" where
  "bad_rec rl d tp \<longleftrightarrow> rl = 0 \<or> rl AND 3 \<noteq> 0 \<or> d + unat rl > tp"

lemma bad_rec_step: "\<not> bad_rec rl d tp \<Longrightarrow> tp - (d + unat rl) < tp - d"
  by (simp add: bad_rec_def) (metis add_gr_0 diff_less_mono2 less_add_same_cancel1 linorder_not_less
      order_less_le_trans unat_gt_0)

function scan_dirent_block :: "'c dir_cb \<Rightarrow> bytes \<Rightarrow> 'd ext4 \<Rightarrow> nat \<Rightarrow> 'c \<Rightarrow> (int \<times> 'c) option" where
  "scan_dirent_block cb blk s d c =
     (if d + 8 \<le> unat (fs_block_size s) then do {
        rl \<leftarrow> ld16 blk (d + DE_rec_len);
        if bad_rec rl d (unat (fs_block_size s)) then Some (0, c)
        else do {
          nl \<leftarrow> ld8 blk (d + DE_name_len);
          if ucast rl = fs_block_size s \<and> nl = 0 then Some (0, c)
          else do {
            ino \<leftarrow> ld32 blk (d + DE_inode);
            if ino = 0 then scan_dirent_block cb blk s (d + unat rl) c
            else if nl = 0 \<or> uint nl > uint rl - 8 \<or> ino > fs_inodes_count s then Some (0, c)
            else do {
              nm \<leftarrow> slice blk (d + DE_name) (unat nl);
              ft \<leftarrow> ld8 blk (d + DE_file_type);
              (rc, c) \<leftarrow> cb (nm @ [0]) ino ft c;
              if rc \<noteq> 0 then Some (rc, c)
              else scan_dirent_block cb blk s (d + unat rl) c } } } }
      else Some (0, c))"
  by pat_completeness auto
termination
  by (relation "measure (\<lambda>(cb, blk, s, d, c). unat (fs_block_size s) - d)")
    (auto dest: bad_rec_step)

declare scan_dirent_block.simps [simp del]

definition lookup_cb :: "bytes \<Rightarrow> u32 dir_cb" where
  "lookup_cb want nm ino ft found = do {
     r \<leftarrow> k_strcmp nm want;
     Some (if r = 0 then (1, ino) else (0, found)) }"

definition dir_blocks :: "bytes \<Rightarrow> 'd ext4 \<Rightarrow> u64 option" where
  "dir_blocks din s = udiv (e4_inode_size din s + ucast (fs_block_size s) - 1) (ucast (fs_block_size s))"

fun iterate_blocks ::
  "'c dir_cb \<Rightarrow> bytes \<Rightarrow> u64 \<Rightarrow> nat \<Rightarrow> 'c \<Rightarrow> 'd ext4 \<Rightarrow> (int \<times> 'c \<times> 'd ext4) option" where
  "iterate_blocks cb din bi 0 c s = Some (0, c, s)"
| "iterate_blocks cb din bi (Suc k) c s = do {
     (rc, db, s) \<leftarrow> e4_bmap din bi s;
     if rc \<noteq> 0 then Some (- 1, c, s)
     else if db = 0 then iterate_blocks cb din (bi + 1) k c s
     else do {
       (rc, s) \<leftarrow> read_scratch1 db s;
       if rc \<noteq> 0 then Some (- 1, c, s)
       else do {
         blk \<leftarrow> scratch1 s;
         (rc, c) \<leftarrow> scan_dirent_block cb blk s 0 c;
         if rc \<noteq> 0 then Some (rc, c, s)
         else iterate_blocks cb din (bi + 1) k c s } } }"

definition e4_iterate_dir :: "u32 \<Rightarrow> 'c dir_cb \<Rightarrow> 'c \<Rightarrow> 'd ext4 \<Rightarrow> (int \<times> 'c \<times> 'd ext4) option" where
  "e4_iterate_dir dir_ino cb c s = do {
     (rc, din, s) \<leftarrow> e4_read_inode dir_ino (uninit s) s;
     if rc \<noteq> 0 then Some (- 1, c, s)
     else if \<not> e4_is_dir din then Some (- 1, c, s)
     else do {
       nblocks \<leftarrow> dir_blocks din s;
       iterate_blocks cb din 0 (unat nblocks) c s } }"

definition e4_dir_lookup :: "u32 \<Rightarrow> bytes \<Rightarrow> 'd ext4 \<Rightarrow> (int \<times> u32 \<times> 'd ext4) option" where
  "e4_dir_lookup dir_ino name s = do {
     (rc, found, s) \<leftarrow> e4_iterate_dir dir_ino (lookup_cb name) 0 s;
     if rc \<noteq> 0 then Some (- 1, 0, s)
     else if found = 0 then Some (- 1, 0, s)
     else Some (0, found, s) }"

section \<open>Emptiness\<close>

text \<open>The records \<open>.\<close> and \<open>..\<close>.\<close>

definition dot_entry :: "bytes \<Rightarrow> nat \<Rightarrow> bool option" where
  "dot_entry blk d = do {
     nl \<leftarrow> ld8 blk (d + DE_name_len);
     if nl = 1 then do { a \<leftarrow> ld8 blk (d + DE_name); Some (a = 46) }
     else if nl = 2 then do {
       a \<leftarrow> ld8 blk (d + DE_name);
       if a \<noteq> 46 then Some False
       else do { b \<leftarrow> ld8 blk (d + DE_name + 1); Some (b = 46) } }
     else Some False }"

function dirents_empty :: "bytes \<Rightarrow> nat \<Rightarrow> nat \<Rightarrow> bool option" where
  "dirents_empty blk tp d =
     (if d + 8 \<le> tp then do {
        rl \<leftarrow> ld16 blk (d + DE_rec_len);
        if bad_rec rl d tp then Some True
        else do {
          nl \<leftarrow> ld8 blk (d + DE_name_len);
          if unat rl = tp \<and> nl = 0 then Some True
          else do {
            ino \<leftarrow> ld32 blk (d + DE_inode);
            other \<leftarrow> (if ino \<noteq> 0 then do { x \<leftarrow> dot_entry blk d; Some (\<not> x) } else Some False);
            if other then Some False else dirents_empty blk tp (d + unat rl) } } }
      else Some True)"
  by pat_completeness auto
termination
  by (relation "measure (\<lambda>(blk, tp, d). tp - d)") (auto dest: bad_rec_step)

fun empty_blocks :: "bytes \<Rightarrow> u64 \<Rightarrow> nat \<Rightarrow> 'd ext4 \<Rightarrow> (bool \<times> 'd ext4) option" where
  "empty_blocks din bi 0 s = Some (True, s)"
| "empty_blocks din bi (Suc k) s = do {
     (rc, db, s) \<leftarrow> e4_bmap din bi s;
     if rc \<noteq> 0 \<or> db = 0 then empty_blocks din (bi + 1) k s
     else do {
       (rc, s) \<leftarrow> read_scratch1 db s;
       if rc \<noteq> 0 then empty_blocks din (bi + 1) k s
       else do {
         blk \<leftarrow> scratch1 s;
         e \<leftarrow> dirents_empty blk (unat (fs_block_size s)) 0;
         if \<not> e then Some (False, s) else empty_blocks din (bi + 1) k s } } }"

definition e4_dir_empty :: "u32 \<Rightarrow> 'd ext4 \<Rightarrow> (bool \<times> 'd ext4) option" where
  "e4_dir_empty dir_ino s = do {
     (rc, din, s) \<leftarrow> e4_read_inode dir_ino (uninit s) s;
     if rc \<noteq> 0 then Some (False, s)
     else do { nblocks \<leftarrow> dir_blocks din s; empty_blocks din 0 (unat nblocks) s } }"

declare dirents_empty.simps [simp del]

section \<open>Adding an entry\<close>

definition dirent_need :: "u32 \<Rightarrow> u32" where
  "dirent_need nl = (8 + nl + 3) AND NOT 3"

definition put_dirent :: "bytes \<Rightarrow> nat \<Rightarrow> u32 \<Rightarrow> u16 \<Rightarrow> u32 \<Rightarrow> u8 \<Rightarrow> bytes \<Rightarrow> bytes option" where
  "put_dirent blk d ino rl nl ft name = do {
     blk \<leftarrow> st16 blk (d + DE_rec_len) rl;
     blk \<leftarrow> st32 blk (d + DE_inode) ino;
     blk \<leftarrow> st8 blk (d + DE_name_len) (ucast nl);
     blk \<leftarrow> st8 blk (d + DE_file_type) ft;
     nm \<leftarrow> slice name 0 (unat nl);
     splice blk (d + DE_name) nm }"

text \<open>The first record with room: its offset, its length and what it keeps. The subtraction is
  unsigned.\<close>

function find_room :: "bytes \<Rightarrow> u32 \<Rightarrow> u32 \<Rightarrow> nat \<Rightarrow> (nat \<times> u16 \<times> u16) option option" where
  "find_room blk bs need d =
     (if d + 8 \<le> unat bs then do {
        rl \<leftarrow> ld16 blk (d + DE_rec_len);
        if bad_rec rl d (unat bs) then Some None
        else do {
          ino \<leftarrow> ld32 blk (d + DE_inode);
          nl \<leftarrow> ld8 blk (d + DE_name_len);
          let real = (ino \<noteq> 0 \<and> \<not> (ucast rl = bs \<and> nl = 0));
          let minimal = (if real then dirent_need (ucast nl) else 0);
          if ucast rl - minimal \<ge> need then Some (Some (d, rl, ucast minimal))
          else find_room blk bs need (d + unat rl) } }
      else Some None)"
  by pat_completeness auto
termination
  by (relation "measure (\<lambda>(blk, bs, need, d). unat bs - d)") (auto dest: bad_rec_step)

declare find_room.simps [simp del]

text \<open>The result of the first pass, when an entry went in or a read failed.\<close>

fun add_in_blocks ::
  "u32 \<Rightarrow> bytes \<Rightarrow> u32 \<Rightarrow> u32 \<Rightarrow> u8 \<Rightarrow> bytes \<Rightarrow> u64 \<Rightarrow> nat \<Rightarrow> 'd ext4 \<Rightarrow> (int option \<times> 'd ext4) option" where
  "add_in_blocks dir_ino name child nl ft din bi 0 s = Some (None, s)"
| "add_in_blocks dir_ino name child nl ft din bi (Suc k) s = do {
     (rc, db, s) \<leftarrow> e4_bmap din bi s;
     if rc \<noteq> 0 \<or> db = 0 then add_in_blocks dir_ino name child nl ft din (bi + 1) k s
     else do {
       (rc, s) \<leftarrow> read_scratch1 db s;
       if rc \<noteq> 0 then Some (Some (- 1), s)
       else do {
         blk \<leftarrow> scratch1 s;
         r \<leftarrow> find_room blk (fs_block_size s) (dirent_need nl) 0;
         case r of
           None \<Rightarrow> add_in_blocks dir_ino name child nl ft din (bi + 1) k s
         | Some (d, rl, keep) \<Rightarrow> do {
             blk \<leftarrow> st16 blk (d + DE_rec_len) keep;
             blk \<leftarrow> put_dirent blk (d + unat keep) child (rl - keep) nl ft name;
             s \<leftarrow> e4_dir_block_checksum_set dir_ino Scratch1 (s\<lparr>scratch1 := Some blk\<rparr>);
             let (rc, s) = write_scratch1 db s;
             Some (Some rc, s) } } } }"

definition fresh_dir_block :: "u32 \<Rightarrow> u32 \<Rightarrow> u8 \<Rightarrow> bytes \<Rightarrow> bytes \<Rightarrow> 'd ext4 \<Rightarrow> bytes option" where
  "fresh_dir_block child nl ft name b s = do {
     b \<leftarrow> splice b 0 (replicate (unat (fs_block_size s)) 0);
     let span = fs_block_size s - (if fs_meta_csum s then 12 else 0);
     b \<leftarrow> put_dirent b 0 child (ucast span) nl ft name;
     if fs_meta_csum s then do {
       let t = unat span;
       b \<leftarrow> st32 b (t + DE_inode) 0;
       b \<leftarrow> st16 b (t + DE_rec_len) 12;
       b \<leftarrow> st8 b (t + DE_name_len) DIRENT_TAIL_MARKER;
       st8 b (t + DE_file_type) 0 }
     else Some b }"

text \<open>The entry for one block at the end of a node, and the new entry count.\<close>

definition push_extent :: "bytes \<Rightarrow> u64 \<Rightarrow> u64 \<Rightarrow> bytes option" where
  "push_extent node fb blk = do {
     n \<leftarrow> ld16 node EH_entries;
     let e = 12 + 12 * unat n;
     node \<leftarrow> st32 node (e + EX_first_block) (ucast fb);
     node \<leftarrow> st16 node (e + EX_count) 1;
     node \<leftarrow> st32 node (e + EX_start_lo) (ucast blk);
     node \<leftarrow> st16 node (e + EX_start_hi) (ucast (drop_bit 32 blk));
     st16 node EH_entries (n + 1) }"

definition attach_block ::
  "u32 \<Rightarrow> bytes \<Rightarrow> u64 \<Rightarrow> u64 \<Rightarrow> 'd ext4 \<Rightarrow> (int \<times> bytes \<times> 'd ext4) option" where
  "attach_block dir_ino din nblocks newblk s =
     (let root = drop I_block din in
      if rd16 root EH_magic \<noteq> EXTENT_MAGIC then Some (- 1, din, s)
      else if rd16 root EH_depth = 0 then
        (if rd16 root EH_entries \<ge> rd16 root EH_max
         then Some (- 1, din, kputs ''ext4 dir extent table full'' s)
         else do {
           din \<leftarrow> at_root (\<lambda>root. push_extent root nblocks newblk) din;
           Some (0, din, s) })
      else if rd16 root EH_depth = 1 then do {
        let e = 12 + 12 * unat (rd16 root EH_entries - 1);
        lo \<leftarrow> ld32 root (e + IX_leaf_lo);
        hi \<leftarrow> ld16 root (e + IX_leaf_hi);
        let lb = (ucast lo OR push_bit 32 (ucast hi) :: u64);
        (rc, s) \<leftarrow> read_scratch2 lb s;
        if rc \<noteq> 0 then Some (- 1, din, s)
        else do {
          lh \<leftarrow> scratch2 s;
          n \<leftarrow> ld16 lh EH_entries;
          mx \<leftarrow> ld16 lh EH_max;
          if n \<ge> mx then Some (- 1, din, kputs ''ext4 dir leaf full'' s)
          else do {
            lh \<leftarrow> push_extent lh nblocks newblk;
            s \<leftarrow> e4_extent_block_checksum_set dir_ino Scratch2 (s\<lparr>scratch2 := Some lh\<rparr>);
            let (rc, s) = write_scratch2 lb s;
            Some (if rc \<noteq> 0 then - 1 else 0, din, s) } } }
      else Some (- 1, din, s))"

definition add_dir_block ::
  "u32 \<Rightarrow> bytes \<Rightarrow> u32 \<Rightarrow> u32 \<Rightarrow> u8 \<Rightarrow> bytes \<Rightarrow> u64 \<Rightarrow> 'd ext4 \<Rightarrow> (int \<times> 'd ext4) option" where
  "add_dir_block dir_ino name child nl ft din nblocks s =
     (if rd32 din I_flags AND INO_FLAG_EXTENTS = 0
      then Some (- 1, kputs ''ext4 legacy dir too small'' s)
      else do {
        g \<leftarrow> udiv (dir_ino - 1) (fs_inodes_per_group s);
        (rc, newblk, s) \<leftarrow> e4_alloc_block_near g s;
        if rc \<noteq> 0 then Some (- 1, s)
        else do {
          b \<leftarrow> scratch1 s;
          b \<leftarrow> fresh_dir_block child nl ft name b s;
          s \<leftarrow> e4_dir_block_checksum_set dir_ino Scratch1 (s\<lparr>scratch1 := Some b\<rparr>);
          let (rc, s) = write_scratch1 newblk s;
          if rc \<noteq> 0 then Some (- 1, s)
          else do {
            (rc, din, s) \<leftarrow> attach_block dir_ino din nblocks newblk s;
            if rc \<noteq> 0 then Some (- 1, s)
            else do {
              let din = wr32 din I_size_lo (rd32 din I_size_lo + fs_block_size s);
              din \<leftarrow> add_iblocks din (uint (fs_block_size s)) s;
              now \<leftarrow> e4_now s;
              let din = wr32 din I_mtime (ucast now);
              let din = wr32 din I_ctime (ucast now);
              (rc, s) \<leftarrow> e4_write_inode dir_ino din s;
              if rc \<noteq> 0 then Some (- 1, s)
              else do {
                q \<leftarrow> udiv (newblk - ucast (fs_first_data_block s)) (ucast (fs_blocks_per_group s));
                e4_sync_gd (ucast q) s } } } } })"

definition e4_dir_add_entry :: "u32 \<Rightarrow> bytes \<Rightarrow> u32 \<Rightarrow> u8 \<Rightarrow> 'd ext4 \<Rightarrow> (int \<times> 'd ext4) option" where
  "e4_dir_add_entry dir_ino name child ft s = do {
     (rc, din, s) \<leftarrow> e4_read_inode dir_ino (uninit s) s;
     if rc \<noteq> 0 then Some (- 1, s)
     else if rd32 din I_flags AND INO_FLAG_INDEX_FL \<noteq> 0
     then Some (- 1, kputs ''ext4 refusing to modify indexed directory'' s)
     else do {
       l \<leftarrow> k_strlen name;
       let nl = of_nat l;
       if dirent_need nl > fs_block_size s - (if fs_meta_csum s then 12 else 0) then Some (- 1, s)
       else do {
         nblocks \<leftarrow> dir_blocks din s;
         (r, s) \<leftarrow> add_in_blocks dir_ino name child nl ft din 0 (unat nblocks) s;
         case r of
           Some rc \<Rightarrow> Some (rc, s)
         | None \<Rightarrow> add_dir_block dir_ino name child nl ft din nblocks s } } }"

section \<open>Removing an entry\<close>

function find_name :: "bytes \<Rightarrow> nat \<Rightarrow> bytes \<Rightarrow> nat \<Rightarrow> nat option option" where
  "find_name blk tp name d =
     (if d + 8 \<le> tp then do {
        rl \<leftarrow> ld16 blk (d + DE_rec_len);
        if bad_rec rl d tp then Some None
        else do {
          ino \<leftarrow> ld32 blk (d + DE_inode);
          hit \<leftarrow> (if ino = 0 then Some False
                  else do {
                    nl \<leftarrow> ld8 blk (d + DE_name_len);
                    l \<leftarrow> k_strlen name;
                    if unat nl \<noteq> l then Some False
                    else do { r \<leftarrow> mem_cmp (drop (d + DE_name) blk) name l; Some (r = 0) } });
          if hit then Some (Some d) else find_name blk tp name (d + unat rl) } }
      else Some None)"
  by pat_completeness auto
termination
  by (relation "measure (\<lambda>(blk, tp, name, d). tp - d)") (auto dest: bad_rec_step)

declare find_name.simps [simp del]

fun remove_in_blocks :: "u32 \<Rightarrow> bytes \<Rightarrow> bytes \<Rightarrow> u64 \<Rightarrow> nat \<Rightarrow> 'd ext4 \<Rightarrow> (int \<times> 'd ext4) option" where
  "remove_in_blocks dir_ino name din bi 0 s = Some (- 1, s)"
| "remove_in_blocks dir_ino name din bi (Suc k) s = do {
     (rc, db, s) \<leftarrow> e4_bmap din bi s;
     if rc \<noteq> 0 \<or> db = 0 then remove_in_blocks dir_ino name din (bi + 1) k s
     else do {
       (rc, s) \<leftarrow> read_scratch1 db s;
       if rc \<noteq> 0 then Some (- 1, s)
       else do {
         blk \<leftarrow> scratch1 s;
         r \<leftarrow> find_name blk (unat (fs_block_size s)) name 0;
         case r of
           None \<Rightarrow> remove_in_blocks dir_ino name din (bi + 1) k s
         | Some d \<Rightarrow> do {
             blk \<leftarrow> st32 blk (d + DE_inode) 0;
             s \<leftarrow> e4_dir_block_checksum_set dir_ino Scratch1 (s\<lparr>scratch1 := Some blk\<rparr>);
             Some (write_scratch1 db s) } } } }"

definition e4_dir_remove_entry :: "u32 \<Rightarrow> bytes \<Rightarrow> 'd ext4 \<Rightarrow> (int \<times> 'd ext4) option" where
  "e4_dir_remove_entry dir_ino name s = do {
     (rc, din, s) \<leftarrow> e4_read_inode dir_ino (uninit s) s;
     if rc \<noteq> 0 then Some (- 1, s)
     else do { nblocks \<leftarrow> dir_blocks din s; remove_in_blocks dir_ino name din 0 (unat nblocks) s } }"

section \<open>Looking up a name\<close>

lemma scan_lookup_keeps:
  "post (scan_dirent_block (lookup_cb want) blk s d c) (\<lambda>(rc, c'). rc = 0 \<longrightarrow> c' = c)"
proof (induction "lookup_cb want" blk s d c rule: scan_dirent_block.induct)
  case (1 blk s d c)
  show ?case
    by (subst scan_dirent_block.simps, intro post_intros)
      (auto simp: lookup_cb_def bind_simps intro: 1 split: if_splits)
qed

lemma iterate_lookup_keeps:
  "post (iterate_blocks (lookup_cb want) din bi k c s) (\<lambda>(rc, c', s'). rc = 0 \<longrightarrow> c' = c)"
proof (induction k arbitrary: bi c s)
  case (Suc k)
  show ?case
    by (simp only: iterate_blocks.simps, intro post_intros)
      (use Suc postD [OF scan_lookup_keeps] in \<open>fastforce\<close>)+
qed (simp add: post_intros)

lemma e4_dir_lookup_fails: "post (e4_dir_lookup dir_ino name s) (\<lambda>(rc, ino, s'). rc = - 1)"
  unfolding e4_dir_lookup_def e4_iterate_dir_def
  by (intro post_intros) (auto simp: bind_simps split: if_splits dest!: postD [OF iterate_lookup_keeps])

text \<open>C20: a lookup never succeeds, whatever the directory holds. The callback returns 1 for the entry it was
  asked for, \<open>e4_iterate_dir\<close> passes this on, and \<open>e4_dir_lookup\<close> takes every value but 0 for a failure; when
  no entry matches, nothing was found.\<close>

theorem e4_dir_lookup_never_finds:
  assumes "e4_dir_lookup dir_ino name s = Some (rc, ino, s')"
  shows "rc = - 1"
  using postD [OF e4_dir_lookup_fails assms] by simp

text \<open>A root directory with the entry \<open>a\<close> for inode 12.\<close>

definition demo_dir :: "nat \<Rightarrow> bytes" where
  "demo_dir i =
     (if i = 5 then replicate 128 0 @ [0, 64, 0, 0, 0, 2, 0, 0] @ replicate 32 0 @ [7, 0, 0, 0] @ replicate 84 0
      else if i = 7 then [12, 0, 0, 0, 0, 2, 1, 1, 97] @ replicate 119 0 else [])"

lemmas demo_dir_defs = demo_dir_def e4_iterate_dir_def e4_read_inode_def inode_location_def inode_table_block_def
  e4_gd_def read_scratch1_def splice_def dir_blocks_def e4_inode_size_def e4_is_dir_def e4_bmap_def
  indirect_lookup_def scan_dirent_block.simps bad_rec_def

theorem e4_dir_lookup_never_finds_witness:
  "(\<exists>s'. e4_iterate_dir 2 (lookup_cb [97, 0]) 0 (demo_fs 512 demo_dir) = Some (1, 12, s')) \<and>
   (\<exists>rc ino s'. e4_dir_lookup 2 [97, 0] (demo_fs 512 demo_dir) = Some (rc, ino, s') \<and> rc = - 1)"
proof -
  have it: "\<exists>s'. e4_iterate_dir 2 (lookup_cb [97, 0]) 0 (demo_fs 512 demo_dir) = Some (1, 12, s')"
    by (simp add: demo_dir_defs demo_defs lookup_cb_def)
  then obtain rc ino s' where "e4_dir_lookup 2 [97, 0] (demo_fs 512 demo_dir) = Some (rc, ino, s')"
    by (auto simp: e4_dir_lookup_def)
  with e4_dir_lookup_never_finds [OF this] it show ?thesis by blast
qed

end
