(* ===== verification/Ext4_Journal.thy ===== *)
theory Ext4_Journal
  imports Ext4_Alloc Ext4_Map
begin

text \<open>
  Crash recovery (\<open>fs/ext4_journal.c\<close>): the pass that collects the committed sequence numbers and
  the revoked blocks, the pass that replays, and the reset of the journal. Offsets into a block
  and positions in the journal are natural numbers: the block size is at most 8192 and a position
  stays below the number of blocks of the journal.
\<close>

section \<open>Definitions\<close>

definition J_MAGIC :: u32 where "J_MAGIC = 0xC03B3998"
definition JT_DESC :: u32 where "JT_DESC = 1"
definition JT_REVOKE :: u32 where "JT_REVOKE = 2"
definition JT_COMMIT :: u32 where "JT_COMMIT = 3"
definition TAG_ESCAPE :: u32 where "TAG_ESCAPE = 1"
definition TAG_LAST :: u32 where "TAG_LAST = 8"
definition JBD2_FEAT_64BIT :: u32 where "JBD2_FEAT_64BIT = 2"
definition MAX_TRACKED_SEQS :: nat where "MAX_TRACKED_SEQS = 256"

definition be32 :: "bytes \<Rightarrow> nat \<Rightarrow> u32 option" where
  "be32 b i = do { x \<leftarrow> slice b i 4; Some (be32_of x) }"

fun seq_scan :: "u32 list \<Rightarrow> u32 \<Rightarrow> nat \<Rightarrow> nat \<Rightarrow> bool option" where
  "seq_scan xs seq i 0 = Some False"
| "seq_scan xs seq i (Suc k) = do {
     chk (i < length xs);
     if xs ! i = seq then Some True else seq_scan xs seq (i + 1) k }"

definition was_committed :: "u32 \<Rightarrow> 'd ext4 \<Rightarrow> bool option" where
  "was_committed seq s = seq_scan (committed s) seq 0 (unat (n_committed s))"

definition note_commit :: "u32 \<Rightarrow> 'd ext4 \<Rightarrow> 'd ext4 option" where
  "note_commit seq s = do {
     known \<leftarrow> seq_scan (committed s) seq 0 (unat (n_committed s));
     if known then Some s
     else do {
       s \<leftarrow> (if unat (n_committed s) < MAX_TRACKED_SEQS then do {
               chk (unat (n_committed s) < length (committed s));
               Some (s\<lparr>committed := (committed s)[unat (n_committed s) := seq],
                       n_committed := n_committed s + 1\<rparr>) }
             else Some s);
       Some (if seq > last_commit_seq s \<or> n_committed s = 0 then s\<lparr>last_commit_seq := seq\<rparr> else s) } }"

definition jread :: "u64 \<Rightarrow> bytes option \<Rightarrow> 'd ext4 \<Rightarrow> (int \<times> bytes option \<times> 'd ext4) option" where
  "jread jb buf s = do {
     (rc, phys, s) \<leftarrow> e4_bmap (jin s) jb s;
     if rc \<noteq> 0 then Some (- 1, buf, s)
     else if phys = 0 then Some (- 1, buf, s)
     else e4_read_block phys buf s }"

definition e4_journal_pending :: "'d ext4 \<Rightarrow> bool" where
  "e4_journal_pending s \<longleftrightarrow> fs_dev s \<noteq> None \<and> fs_feat_incompat s AND FEAT_INCOMPAT_RECOVER \<noteq> 0"

definition e4_journal_reset :: "'d ext4 \<Rightarrow> 'd ext4 option" where
  "e4_journal_reset s =
     (if fs_dev s = None \<or> rd32 (fs_sb s) SB_journal_inum = 0 then Some s
      else do {
        ((p, buf), s) \<leftarrow> k_alloc (fs_block_size s) s;
        if buf = None then Some s
        else do {
          (rc, x, s) \<leftarrow> e4_read_inode (rd32 (fs_sb s) SB_journal_inum) (jin s) s;
          let s = s\<lparr>jin := x\<rparr>;
          s \<leftarrow> (if rc \<noteq> 0 then Some s
               else do {
                 (rc, phys, s) \<leftarrow> e4_bmap (jin s) 0 s;
                 if rc \<noteq> 0 \<or> phys = 0 then Some s
                 else do {
                   (rc, buf, s) \<leftarrow> e4_read_block phys buf s;
                   if rc \<noteq> 0 then Some s
                   else do {
                     b \<leftarrow> buf;
                     b \<leftarrow> st32 b 24 0;
                     b \<leftarrow> st32 b 28 (last_commit_seq s + 1);
                     Some (snd (e4_write_block phys (Some b) s)) } } });
          s \<leftarrow> k_free p s;
          let s = s\<lparr>fs_feat_incompat := fs_feat_incompat s AND NOT FEAT_INCOMPAT_RECOVER,
                    fs_sb := wr32 (fs_sb s) SB_feature_incompat
                      (rd32 (fs_sb s) SB_feature_incompat AND NOT FEAT_INCOMPAT_RECOVER)\<rparr>;
          let (_, s) = e4_sync_superblock (e4_sb_recompute_checksum s);
          Some (kputs ''jbd2: journal emptied'' s) } })"

text \<open>The revoked blocks of one revoke record, from \<open>off\<close> on.\<close>

function mark_revoked :: "bytes \<Rightarrow> nat \<Rightarrow> u64 \<Rightarrow> nat \<Rightarrow> bytes \<Rightarrow> bytes option" where
  "mark_revoked buf lim nblk off rb =
     (if off + 4 \<le> lim then do {
        x \<leftarrow> be32 buf off;
        rb \<leftarrow> (if (ucast x :: u64) < nblk then bm_set rb x else Some rb);
        mark_revoked buf lim nblk (off + 4) rb }
      else Some rb)"
  by pat_completeness auto
termination
  by (relation "measure (\<lambda>(buf, lim, nblk, off, rb). lim - off)") auto

declare mark_revoked.simps [simp del]

definition collect_record :: "bytes \<Rightarrow> 'd ext4 \<Rightarrow> 'd ext4 option" where
  "collect_record b s = do {
     m \<leftarrow> be32 b 0;
     if m \<noteq> J_MAGIC then Some s
     else do {
       type \<leftarrow> be32 b 4;
       if type = JT_COMMIT then do { seq \<leftarrow> be32 b 8; note_commit seq s }
       else if type = JT_REVOKE then do {
         lim \<leftarrow> ld32 b 12;
         if lim > fs_block_size s then Some s
         else do {
           rb \<leftarrow> revbits s;
           rb \<leftarrow> mark_revoked b (unat lim) (fs_blocks_count s) 16 rb;
           Some (s\<lparr>revbits := Some rb\<rparr>) } }
       else Some s } }"

text \<open>The first pass, from position \<open>i\<close> on; \<open>k\<close> positions are left.\<close>

fun journal_collect :: "nat \<Rightarrow> nat \<Rightarrow> bytes option \<Rightarrow> 'd ext4 \<Rightarrow> (bytes option \<times> 'd ext4) option" where
  "journal_collect i 0 buf s = Some (buf, s)"
| "journal_collect i (Suc k) buf s = do {
     (rc, buf, s) \<leftarrow> jread (of_nat i) buf s;
     if rc \<noteq> 0 then journal_collect (i + 1) k buf s
     else do {
       b \<leftarrow> buf;
       s \<leftarrow> collect_record b s;
       journal_collect (i + 1) k buf s } }"

text \<open>The escape restores the magic number at the start of the block.\<close>

definition unescape :: "u32 \<Rightarrow> bytes \<Rightarrow> bytes option" where
  "unescape flags content =
     (if flags AND TAG_ESCAPE \<noteq> 0
      then splice content 0 [ucast (drop_bit 24 J_MAGIC), ucast (drop_bit 16 J_MAGIC),
                             ucast (drop_bit 8 J_MAGIC), ucast J_MAGIC]
      else Some content)"

text \<open>The tags of one descriptor block: the position of the next content block, the offset of the
  next tag. The result has the position reached.\<close>

function replay_tags ::
  "bytes \<Rightarrow> nat \<Rightarrow> nat \<Rightarrow> nat \<Rightarrow> nat \<Rightarrow> bytes option \<Rightarrow> u32 \<Rightarrow> 'd ext4 \<Rightarrow>
     (nat \<times> bytes option \<times> u32 \<times> 'd ext4) option" where
  "replay_tags buf tagsz cap c off content applied s =
     (if off + tagsz \<le> unat (fs_block_size s) \<and> c < cap then do {
        target \<leftarrow> be32 buf off;
        flags \<leftarrow> be32 buf (off + 4);
        if flags AND TAG_LAST \<noteq> 0 then Some (c, content, applied, s)
        else if target = 0 then Some (c, content, applied, s)
        else do {
          (rc, content, s) \<leftarrow> jread (of_nat c) content s;
          if rc \<noteq> 0 then Some (c, content, applied, s)
          else do {
            x \<leftarrow> content;
            x \<leftarrow> unescape flags x;
            rb \<leftarrow> revbits s;
            revoked \<leftarrow> bm_test rb target;
            if revoked then replay_tags buf tagsz cap (c + 1) (off + tagsz) (Some x) applied s
            else do {
              let (rc, s) = e4_write_block (ucast target) (Some x) s;
              if rc \<noteq> 0 then Some (c, Some x, applied, s)
              else replay_tags buf tagsz cap (c + 1) (off + tagsz) (Some x) (applied + 1) s } } } }
      else Some (c, content, applied, s))"
  by pat_completeness auto
termination
  by (relation "measure (\<lambda>(buf, tagsz, cap, c, off, content, applied, s). cap - c)") auto

declare replay_tags.simps [simp del]

text \<open>The second pass. The loop variable moves past the content blocks that were consumed; \<open>k\<close>
  bounds the number of rounds.\<close>

fun journal_apply ::
  "nat \<Rightarrow> nat \<Rightarrow> nat \<Rightarrow> nat \<Rightarrow> bytes option \<Rightarrow> bytes option \<Rightarrow> u32 \<Rightarrow> 'd ext4 \<Rightarrow>
     (bytes option \<times> bytes option \<times> u32 \<times> 'd ext4) option" where
  "journal_apply 0 tagsz cap i buf content applied s = Some (buf, content, applied, s)"
| "journal_apply (Suc k) tagsz cap i buf content applied s =
     (if i < cap then do {
        (rc, buf, s) \<leftarrow> jread (of_nat i) buf s;
        if rc \<noteq> 0 then journal_apply k tagsz cap (i + 1) buf content applied s
        else do {
          b \<leftarrow> buf;
          m \<leftarrow> be32 b 0;
          if m \<noteq> J_MAGIC then journal_apply k tagsz cap (i + 1) buf content applied s
          else do {
            type \<leftarrow> be32 b 4;
            seq \<leftarrow> be32 b 8;
            ok \<leftarrow> (if type \<noteq> JT_DESC then Some False else was_committed seq s);
            if \<not> ok then journal_apply k tagsz cap (i + 1) buf content applied s
            else do {
              (c, content, applied, s) \<leftarrow> replay_tags b tagsz cap (i + 1) 12 content applied s;
              journal_apply k tagsz cap c buf content applied s } } } }
      else Some (buf, content, applied, s))"

definition klogf :: "string \<Rightarrow> slot list \<Rightarrow> 'd ext4 \<Rightarrow> 'd ext4" where
  "klogf fmt args s = s\<lparr>klog := klog s @ [(fmt, args)]\<rparr>"

text \<open>Both passes, with the revocation bitmap in place.\<close>

definition replay_passes ::
  "nat \<Rightarrow> nat \<Rightarrow> nat \<Rightarrow> bytes option \<Rightarrow> bytes option \<Rightarrow> 'd ext4 \<Rightarrow> 'd ext4 option" where
  "replay_passes tagsz first cap buf content s = do {
     (buf, s) \<leftarrow> journal_collect first (cap - first) buf s;
     if n_committed s = 0 then e4_journal_reset (kputs ''jbd2: no complete transactions'' s)
     else do {
       (buf, content, applied, s) \<leftarrow> journal_apply (cap - first) tagsz cap first buf content 0 s;
       e4_journal_reset (klogf ''jbd2: replayed %u blocks'' [SNum (ucast applied)] s) } }"

text \<open>The fields of the journal superblock, read little-endian.\<close>

definition journal_body :: "u64 \<Rightarrow> bytes option \<Rightarrow> bytes option \<Rightarrow> 'd ext4 \<Rightarrow> (int \<times> nat \<times> 'd ext4) option" where
  "journal_body jblocks buf content s = do {
     (rc, buf, s) \<leftarrow> jread 0 buf s;
     if rc \<noteq> 0 then Some (- 1, 0, kputs ''jbd2: unreadable journal superblock'' s)
     else do {
       b \<leftarrow> buf;
       bs \<leftarrow> ld32 b 12;
       maxlen \<leftarrow> ld32 b 16;
       first \<leftarrow> ld32 b 20;
       start \<leftarrow> ld32 b 24;
       jsb_incompat \<leftarrow> ld32 b 36;
       if bs \<noteq> fs_block_size s \<or> first < 2 \<or> ucast first \<ge> jblocks \<or> ucast start \<ge> jblocks
       then Some (- 1, 0, kputs ''jbd2: bogus journal superblock'' s)
       else do {
         let tagsz = (if jsb_incompat AND JBD2_FEAT_64BIT \<noteq> 0 then 16 else 12);
         let cap = (if maxlen \<noteq> 0 \<and> ucast maxlen \<le> jblocks then ucast maxlen else jblocks);
         ((p, rb), s) \<leftarrow> k_zalloc (ucast ((fs_blocks_count s + 7) div 8)) s;
         let s = s\<lparr>revbits := rb\<rparr>;
         if rb = None then Some (- 1, 0, s)
         else do {
           s \<leftarrow> replay_passes tagsz (unat first) (unat cap) buf content s;
           Some (0, p, s) } } } }"

definition e4_journal_replay :: "'d ext4 \<Rightarrow> (int \<times> 'd ext4) option" where
  "e4_journal_replay s =
     (let s = s\<lparr>n_committed := 0, last_commit_seq := 0, revbits := None\<rparr> in
      if fs_dev s = None \<or> rd32 (fs_sb s) SB_journal_inum = 0 then Some (0, s)
      else if fs_feat_incompat s AND FEAT_INCOMPAT_RECOVER = 0 then Some (0, s)
      else do {
        let s = kputs ''jbd2: journal needs recovery'' s;
        (rc, x, s) \<leftarrow> e4_read_inode (rd32 (fs_sb s) SB_journal_inum) (jin s) s;
        let s = s\<lparr>jin := x\<rparr>;
        if rc \<noteq> 0 then Some (- 1, kputs ''jbd2: cannot read journal inode'' s)
        else if rd32 (jin s) I_flags AND INO_FLAG_EXTENTS = 0
        then Some (- 1, kputs ''jbd2: legacy journal inode unsupported'' s)
        else do {
          jblocks \<leftarrow> udiv (e4_inode_size (jin s) s) (ucast (fs_block_size s));
          ((p1, buf), s) \<leftarrow> k_alloc (fs_block_size s) s;
          ((p2, content), s) \<leftarrow> k_alloc (fs_block_size s) s;
          if buf = None \<or> content = None then do {
            s \<leftarrow> k_free p1 s;
            s \<leftarrow> k_free p2 s;
            Some (- 1, s) }
          else do {
            (rc, p3, s) \<leftarrow> journal_body jblocks buf content s;
            s \<leftarrow> k_free p3 s;
            s \<leftarrow> k_free p1 s;
            s \<leftarrow> k_free p2 s;
            Some (rc, s\<lparr>revbits := None\<rparr>) } } })"

end
