(* ===== verification/Ext4_Mount.thy ===== *)
theory Ext4_Mount
  imports Ext4_Dir Ext4_Journal
begin

text \<open>
  Mounting and the public file interface (\<open>fs/ext4_mount.c\<close>, \<open>fs/ext4.h\<close>). A path is the bytes from
  its first character to the end of its object, none for a null pointer.
\<close>

section \<open>Paths\<close>

definition EXT4_MAX_PATH :: nat where "EXT4_MAX_PATH = 128"
definition EXT4_NAME_MAX :: nat where "EXT4_NAME_MAX = 255"

definition comp_ok :: "bytes \<Rightarrow> nat \<Rightarrow> bool" where
  "comp_ok p len \<longleftrightarrow> len > 0 \<and> len \<le> EXT4_NAME_MAX \<and> hd p \<noteq> 47"

lemma resolve_walk_step:
  assumes "p' = dropWhile (\<lambda>c. c = 47) p" and "q = dropWhile (\<lambda>c. c \<noteq> 0 \<and> c \<noteq> 47) p'"
    and "len = length p' - length q" and "\<not> \<not> comp_ok p' len"
  shows "length (if hd q \<noteq> 0 then tl q else q) < length p"
  using assms length_dropWhile_le [of "\<lambda>c. c = 47" p] by (auto simp: comp_ok_def)

text \<open>One round of the walk over the components; \<open>p\<close> is what is left of the path.\<close>

function resolve_walk :: "bytes \<Rightarrow> u32 \<Rightarrow> 'd ext4 \<Rightarrow> (int \<times> u32 \<times> 'd ext4) option" where
  "resolve_walk p cur s =
     (let p = dropWhile (\<lambda>c. c = 47) p;
          q = dropWhile (\<lambda>c. c \<noteq> 0 \<and> c \<noteq> 47) p;
          len = length p - length q in
      if p = [] \<or> q = [] then None
      else if hd p = 0 then Some (0, cur, s)
      else if \<not> comp_ok p len then Some (- 1, 0, s)
      else do {
        (rc, ci, s) \<leftarrow> e4_read_inode cur (uninit s) s;
        if rc \<noteq> 0 \<or> \<not> e4_is_dir ci then Some (- 1, 0, s)
        else do {
          (rc, cur, s) \<leftarrow> e4_dir_lookup cur (take len p @ [0]) s;
          if rc \<noteq> 0 then Some (- 1, 0, s)
          else resolve_walk (if hd q \<noteq> 0 then tl q else q) cur s } })"
  by pat_completeness auto
termination
  by (relation "measure (\<lambda>(p, cur, s). length p)") (simp, unfold in_measure prod.case, rule resolve_walk_step)

declare resolve_walk.simps [simp del]

definition resolve_full :: "bytes option \<Rightarrow> 'd ext4 \<Rightarrow> (int \<times> u32 \<times> 'd ext4) option" where
  "resolve_full pth s = (case pth of
     None \<Rightarrow> Some (- 1, 0, s)
   | Some p \<Rightarrow> do {
       c \<leftarrow> ld8 p 0;
       if c \<noteq> 47 then Some (- 1, 0, s)
       else do {
         l \<leftarrow> k_strlen p;
         if l \<ge> EXT4_MAX_PATH then Some (- 1, 0, s)
         else resolve_walk (tl p) EXT4_ROOT_INO s } })"

text \<open>The path without its trailing slashes, and the position of its last slash.\<close>

function trim_slashes :: "bytes \<Rightarrow> bytes" where
  "trim_slashes b = (if length b > 1 \<and> last b = 47 then trim_slashes (butlast b) else b)"
  by pat_completeness auto
termination
  by (relation "measure length") auto

declare trim_slashes.simps [simp del]

fun find_cut :: "bytes \<Rightarrow> nat \<Rightarrow> nat option" where
  "find_cut b 0 = None"
| "find_cut b (Suc i) = (if b ! i = 47 then Some i else find_cut b i)"

definition split_path :: "bytes \<Rightarrow> bytes \<times> bytes" where
  "split_path b = (case find_cut b (length b) of
     None \<Rightarrow> ([47], b)
   | Some sl \<Rightarrow> (take (if sl = 0 then 1 else sl) b, drop (sl + 1) b))"

text \<open>The result has the name, terminated, and the inode of the directory.\<close>

definition resolve_parent :: "bytes option \<Rightarrow> 'd ext4 \<Rightarrow> (int \<times> bytes \<times> u32 \<times> 'd ext4) option" where
  "resolve_parent pth s = (case pth of
     None \<Rightarrow> Some (- 1, [], 0, s)
   | Some p \<Rightarrow> do {
       c \<leftarrow> ld8 p 0;
       if c \<noteq> 47 then Some (- 1, [], 0, s)
       else do {
         plen \<leftarrow> k_strlen p;
         if plen \<ge> EXT4_MAX_PATH then Some (- 1, [], 0, s)
         else do {
           let (dirp, nm) = split_path (trim_slashes (take plen p));
           if \<not> comp_ok nm (length nm) then Some (- 1, [], 0, s)
           else do {
             (rc, parent, s) \<leftarrow> resolve_full (Some (dirp @ [0])) s;
             if rc \<noteq> 0 then Some (- 1, [], 0, s)
             else do {
               (rc, pi, s) \<leftarrow> e4_read_inode parent (uninit s) s;
               if rc \<noteq> 0 \<or> \<not> e4_is_dir pi then Some (- 1, [], 0, s)
               else Some (0, nm @ [0], parent, s) } } } } })"

section \<open>Mounting\<close>

definition SUPPORTED_INCOMPAT :: u32 where
  "SUPPORTED_INCOMPAT = FEAT_INCOMPAT_FILETYPE OR FEAT_INCOMPAT_RECOVER OR FEAT_INCOMPAT_EXTENTS OR
     FEAT_INCOMPAT_64BIT OR FEAT_INCOMPAT_FLEX_BG OR FEAT_INCOMPAT_CSUM_SEED"

text \<open>\<open>memset(&e4, 0, sizeof e4)\<close>\<close>

definition e4_zero :: "'d ext4 \<Rightarrow> 'd ext4" where
  "e4_zero s = s\<lparr>fs_dev := None, fs_block_size := 0, fs_sectors_per_block := 0, fs_blocks_count := 0,
     fs_inodes_count := 0, fs_blocks_per_group := 0, fs_inodes_per_group := 0, fs_group_count := 0,
     fs_first_data_block := 0, fs_inode_size := 0, fs_desc_size := 0, fs_first_ino := 0,
     fs_feat_compat := 0, fs_feat_incompat := 0, fs_feat_ro_compat := 0, fs_has_extents := False,
     fs_has_64bit := False, fs_meta_csum := False, fs_gdt_csum := False, fs_csum_seed_feat := False,
     fs_writable := False, fs_csum_seed := 0, fs_uuid := replicate 16 0, fs_sb := replicate 1024 0,
     fs_gdt := None\<rparr>"

text \<open>The fields taken over from a superblock that passed the feature checks.\<close>

definition e4_fill :: "u32 \<Rightarrow> u32 \<Rightarrow> 'd ext4 \<Rightarrow> 'd ext4" where
  "e4_fill log inc s =
     (let sb = fs_sb s;
          bs = push_bit (unat log) 1024;
          cnt = ucast (rd32 sb SB_blocks_count_lo);
          ro = rd32 sb SB_feature_ro_compat;
          first = rd32 sb SB_first_ino;
          w64 = (inc AND FEAT_INCOMPAT_64BIT \<noteq> 0) in
      s\<lparr>fs_block_size := bs, fs_sectors_per_block := bs div 512,
        fs_blocks_count := (if w64 then cnt OR push_bit 32 (ucast (rd32 sb SB_blocks_count_hi)) else cnt),
        fs_inodes_count := rd32 sb SB_inodes_count,
        fs_blocks_per_group := rd32 sb SB_blocks_per_group,
        fs_inodes_per_group := rd32 sb SB_inodes_per_group,
        fs_first_data_block := rd32 sb SB_first_data_block,
        fs_inode_size := ucast (rd16 sb SB_inode_size),
        fs_first_ino := (if first \<noteq> 0 then first else EXT4_GOOD_OLD_FIRST_INO),
        fs_feat_compat := rd32 sb SB_feature_compat,
        fs_feat_incompat := inc,
        fs_feat_ro_compat := ro,
        fs_has_extents := inc AND FEAT_INCOMPAT_EXTENTS \<noteq> 0,
        fs_has_64bit := w64,
        fs_meta_csum := ro AND FEAT_RO_METADATA_CSUM \<noteq> 0,
        fs_gdt_csum := ro AND FEAT_RO_GDT_CSUM \<noteq> 0,
        fs_csum_seed_feat := inc AND FEAT_INCOMPAT_CSUM_SEED \<noteq> 0,
        fs_uuid := sub sb SB_uuid 16,
        fs_desc_size := (if w64 \<and> rd16 sb SB_desc_size \<noteq> 0 then ucast (rd16 sb SB_desc_size) else 32)\<rparr>)"

text \<open>A failed mount: a message and a device pointer set to null.\<close>

definition mount_fail :: "string \<Rightarrow> 'd ext4 \<Rightarrow> (bool \<times> 'd ext4) option" where
  "mount_fail m s = Some (False, (kputs m s)\<lparr>fs_dev := None\<rparr>)"

text \<open>The group descriptors: the table is allocated here and once more by \<open>e4_load_gdt\<close>.\<close>

definition mount_gdt :: "'d ext4 \<Rightarrow> (int \<times> 'd ext4) option" where
  "mount_gdt s = do {
     ((_, b), s) \<leftarrow> k_zalloc (fs_group_count s * fs_desc_size s) s;
     let s = s\<lparr>fs_gdt := b\<rparr>;
     if b = None then Some (- 1, s) else e4_load_gdt s }"

text \<open>From the group descriptors on.\<close>

definition mount_tables :: "bytes \<Rightarrow> u32 \<Rightarrow> 'd ext4 \<Rightarrow> (bool \<times> 'd ext4) option" where
  "mount_tables name inc s = do {
     (rc, s) \<leftarrow> mount_gdt s;
     if rc \<noteq> 0 then mount_fail ''ext4 cannot load group descriptors'' s
     else do {
       s \<leftarrow> (if inc AND FEAT_INCOMPAT_RECOVER \<noteq> 0 \<and> e4_journal_pending s
             then do { (_, s) \<leftarrow> e4_journal_replay s; Some s } else Some s);
       let sb = wr16 (fs_sb s) SB_state (rd16 (fs_sb s) SB_state OR EXT4_VALID_FS);
       let sb = wr16 sb SB_mnt_count (rd16 sb SB_mnt_count + 1);
       let (rc, s) = e4_sync_superblock (e4_sb_recompute_checksum (s\<lparr>fs_sb := sb\<rparr>));
       if rc \<noteq> 0 then mount_fail ''ext4 superblock write failed'' s
       else do {
         d \<leftarrow> udiv 0x100000 (fs_block_size s);
         mib \<leftarrow> udiv (fs_blocks_count s) (ucast d);
         Some (True, klogf ''ext4 rw mounted on %s: %u MiB, %u groups, bs %u''
                       [SStr 1 name, SNum (ucast (ucast mib :: u32)), SNum (ucast (fs_group_count s)),
                        SNum (ucast (fs_block_size s))] s) } } }"

definition mount_super :: "bytes \<Rightarrow> 'd ext4 \<Rightarrow> (bool \<times> 'd ext4) option" where
  "mount_super name s =
     (let sb = fs_sb s; log = rd32 sb SB_log_block_size; inc = rd32 sb SB_feature_incompat;
          bad = inc AND NOT SUPPORTED_INCOMPAT in
      if rd16 sb SB_magic \<noteq> EXT4_MAGIC then Some (False, s)
      else if log > 3 then do {
        chk (log < 32);
        Some (False, (klogf ''ext4 block size %u not supported''
                        [SNum (ucast (push_bit (unat log) 1024 :: u32))] s)\<lparr>fs_dev := None\<rparr>) }
      else if bad \<noteq> 0
      then Some (False, (klogf ''ext4 unsupported features 0x%x'' [SNum (ucast bad)] s)\<lparr>fs_dev := None\<rparr>)
      else if rd32 sb SB_feature_ro_compat AND FEAT_RO_BIGALLOC \<noteq> 0
      then mount_fail ''ext4 bigalloc unsupported'' s
      else do {
        let s = e4_fill log inc s;
        if fs_desc_size s < 32 \<or> fs_desc_size s > 128 \<or> fs_desc_size s AND 3 \<noteq> 0
        then mount_fail ''ext4 bogus group descriptor size'' s
        else do {
          let rem = fs_blocks_count s - ucast (fs_first_data_block s);
          q \<leftarrow> udiv (rem + ucast (fs_blocks_per_group s) - 1) (ucast (fs_blocks_per_group s));
          let s = s\<lparr>fs_group_count := ucast q\<rparr>;
          if fs_group_count s = 0 \<or> fs_group_count s > 65536
          then mount_fail ''ext4 bogus group count'' s
          else do {
            (rc, s) \<leftarrow> e4_init_scratch (fs_block_size s) s;
            if rc \<noteq> 0 then mount_fail ''ext4 out of memory for buffers'' s
            else mount_tables name inc s } } })"

definition ext4_mount :: "'d ext4 \<Rightarrow> (bool \<times> 'd ext4) option" where
  "ext4_mount s =
     (if fs_dev s \<noteq> None then Some (True, s)
      else let s = e4_zero s in
        (case blk_first (registry s) of
           None \<Rightarrow> Some (False, kputs ''ext4 no block device present'' s)
         | Some dev \<Rightarrow> do {
             ((p, img), s) \<leftarrow> k_zalloc 1024 s;
             if img = None then Some (False, s)
             else do {
               (rc, img, h) \<leftarrow> blk_read (Some dev) 2 2 img (hw s);
               let s = s\<lparr>hw := h\<rparr>;
               if rc \<noteq> 0 then do {
                 s \<leftarrow> k_free p s;
                 Some (False, kputs ''ext4 cannot read superblock'' s) }
               else do {
                 x \<leftarrow> img;
                 let s = s\<lparr>fs_sb := x\<rparr>;
                 s \<leftarrow> k_free p s;
                 mount_super (bd_name dev) s } } }))"

definition ext4_ready :: "'d ext4 \<Rightarrow> bool" where
  "ext4_ready s \<longleftrightarrow> fs_dev s \<noteq> None"

definition ext4_devname :: "'d ext4 \<Rightarrow> bytes" where
  "ext4_devname s = (case fs_dev s of Some d \<Rightarrow> bd_name d | None \<Rightarrow> [110, 111, 110, 101, 0])"

section \<open>Reading\<close>

text \<open>The copy loop of \<open>ext4_read\<close>; each round copies at least one byte, so \<open>want\<close> rounds are
  enough.\<close>

fun read_loop :: "nat \<Rightarrow> bytes \<Rightarrow> u32 \<Rightarrow> u32 \<Rightarrow> bytes \<Rightarrow> 'd ext4 \<Rightarrow> (int \<times> bytes \<times> 'd ext4) option" where
  "read_loop 0 inode want don out s = Some (sint don, out, s)"
| "read_loop (Suc k) inode want don out s =
     (if don < want then do {
        lb \<leftarrow> udiv (ucast don) (ucast (fs_block_size s) :: u64);
        r \<leftarrow> umod (ucast don) (ucast (fs_block_size s) :: u64);
        let boff = (ucast r :: u32);
        let chunk = min (fs_block_size s - boff) (want - don);
        (rc, db, s) \<leftarrow> e4_bmap inode lb s;
        if rc \<noteq> 0 then Some (- 1, out, s)
        else if db = 0 then do {
          out \<leftarrow> splice out (unat don) (replicate (unat chunk) 0);
          read_loop k inode want (don + chunk) out s }
        else do {
          (rc, s) \<leftarrow> read_scratch1 db s;
          if rc \<noteq> 0 then Some (- 1, out, s)
          else do {
            b \<leftarrow> scratch1 s;
            x \<leftarrow> slice b (unat boff) (unat chunk);
            out \<leftarrow> splice out (unat don) x;
            read_loop k inode want (don + chunk) out s } } }
      else Some (sint don, out, s))"

definition ext4_read :: "bytes option \<Rightarrow> bytes option \<Rightarrow> u32 \<Rightarrow> 'd ext4 \<Rightarrow> (int \<times> bytes option \<times> 'd ext4) option" where
  "ext4_read pth user_buf max_len s =
     (if fs_dev s = None \<or> user_buf = None then Some (- 1, user_buf, s)
      else do {
        (rc, ino, s) \<leftarrow> resolve_full pth s;
        if rc \<noteq> 0 then Some (- 1, user_buf, s)
        else do {
          (rc, inode, s) \<leftarrow> e4_read_inode ino (uninit s) s;
          if rc \<noteq> 0 \<or> e4_is_dir inode then Some (- 1, user_buf, s)
          else do {
            let sz = e4_inode_size inode s;
            let want = (if sz < ucast max_len then ucast sz else max_len);
            out \<leftarrow> user_buf;
            (rc, out, s) \<leftarrow> read_loop (unat want) inode want 0 out s;
            Some (rc, Some out, s) } } })"

section \<open>Writing\<close>

definition do_replace :: "u32 \<Rightarrow> bytes \<Rightarrow> bytes option \<Rightarrow> u32 \<Rightarrow> 'd ext4 \<Rightarrow> (int \<times> bytes \<times> 'd ext4) option" where
  "do_replace ino inode data len s =
     (if rd32 inode I_flags AND INO_FLAG_EXTENTS = 0
      then Some (- 1, inode, kputs ''ext4 legacy inode layout unwritable'' s)
      else do {
        (rc, inode, s) \<leftarrow> e4_truncate inode 0 s;
        if rc \<noteq> 0 then Some (- 1, inode, s)
        else do {
          nblocks \<leftarrow> udiv (len + fs_block_size s - 1) (fs_block_size s);
          (rc, inode, s) \<leftarrow>
            (if nblocks \<noteq> 0
             then e4_append_blocks inode ino 0 nblocks (if len \<noteq> 0 then data else None) s
             else Some (0, inode, s));
          if rc \<noteq> 0 then Some (- 1, inode, s)
          else do {
            now \<leftarrow> e4_now s;
            let inode = wr32 inode I_size_lo len;
            let inode = wr32 inode I_size_or_dir_acl 0;
            let inode = wr32 inode I_mtime (ucast now);
            let inode = wr32 inode I_ctime (ucast now);
            let inode = wr32 inode I_atime (ucast now);
            (rc, s) \<leftarrow> e4_write_inode ino inode s;
            Some (rc, inode, s) } } })"

definition EXT4_WRITE_CAP :: u32 where "EXT4_WRITE_CAP = 0x1000000"

text \<open>The superblock is written back, its result ignored.\<close>

definition sync_super :: "'d ext4 \<Rightarrow> 'd ext4" where
  "sync_super s = snd (e4_sync_superblock (e4_sb_recompute_checksum s))"

definition fresh_inode :: "u32 \<Rightarrow> u64 \<Rightarrow> 'd ext4 \<Rightarrow> bytes" where
  "fresh_inode newino now s =
     (let nin = replicate 256 0;
          nin = wr16 nin I_mode 0x81A4;
          nin = wr16 nin I_links_count 1;
          nin = wr32 nin I_flags INO_FLAG_EXTENTS;
          nin = wr32 nin I_atime (ucast now);
          nin = wr32 nin I_ctime (ucast now);
          nin = wr32 nin I_mtime (ucast now);
          nin = wr32 nin I_crtime (ucast now);
          nin = wr32 nin I_generation (ucast (now XOR ucast (newino * 2654435761 :: u32)))
      in if fs_inode_size s > 128
         then wr16 nin I_extra_isize (ucast (min 32 (fs_inode_size s - 128)))
         else nin)"

definition write_new :: "u32 \<Rightarrow> bytes \<Rightarrow> bytes option \<Rightarrow> u32 \<Rightarrow> 'd ext4 \<Rightarrow> (int \<times> 'd ext4) option" where
  "write_new parent name data len s = do {
     (rc, _, s) \<leftarrow> e4_read_inode parent (uninit s) s;
     if rc \<noteq> 0 then Some (- 1, s)
     else do {
       pref \<leftarrow> udiv (parent - 1) (fs_inodes_per_group s);
       (rc, newino, s) \<leftarrow> e4_alloc_inode pref 0x81A4 s;
       if rc \<noteq> 0 then Some (- 1, s)
       else do {
         now \<leftarrow> e4_now s;
         (rc, nin, s) \<leftarrow> do_replace newino (fresh_inode newino now s) data len s;
         if rc \<noteq> 0 then do {
           (_, s) \<leftarrow> e4_free_inode newino s;
           (_, s) \<leftarrow> e4_sync_gd pref s;
           Some (- 1, s) }
         else do {
           (rc, s) \<leftarrow> e4_dir_add_entry parent name newino DET_REG s;
           if rc \<noteq> 0 then do {
             (_, _, s) \<leftarrow> e4_truncate nin 0 s;
             (_, s) \<leftarrow> e4_free_inode newino s;
             (_, s) \<leftarrow> e4_sync_gd pref s;
             Some (- 1, s) }
           else Some (0, sync_super s) } } } }"

definition ext4_write :: "bytes option \<Rightarrow> bytes option \<Rightarrow> u32 \<Rightarrow> 'd ext4 \<Rightarrow> (int \<times> 'd ext4) option" where
  "ext4_write pth data len s =
     (if fs_dev s = None then Some (- 1, s)
      else if len > EXT4_WRITE_CAP then Some (- 1, kputs ''ext4 write too large'' s)
      else do {
        (rc, name, parent, s) \<leftarrow> resolve_parent pth s;
        if rc \<noteq> 0 then Some (- 1, s)
        else do {
          (rc, existing, s) \<leftarrow> e4_dir_lookup parent name s;
          if rc = 0 then do {
            (rc, ex, s) \<leftarrow> e4_read_inode existing (uninit s) s;
            if rc \<noteq> 0 then Some (- 1, s)
            else if e4_is_dir ex then Some (- 1, kputs ''ext4 target is a directory'' s)
            else do {
              (rc, _, s) \<leftarrow> do_replace existing ex data len s;
              if rc \<noteq> 0 then Some (- 1, s) else Some (0, sync_super s) } }
          else write_new parent name data len s } })"

section \<open>Unlinking and listing\<close>

definition ext4_unlink :: "bytes option \<Rightarrow> 'd ext4 \<Rightarrow> (int \<times> 'd ext4) option" where
  "ext4_unlink pth s =
     (if fs_dev s = None then Some (- 1, s)
      else do {
        (rc, name, parent, s) \<leftarrow> resolve_parent pth s;
        if rc \<noteq> 0 then Some (- 1, s)
        else do {
          (rc, victim, s) \<leftarrow> e4_dir_lookup parent name s;
          if rc \<noteq> 0 then Some (- 1, s)
          else if victim = EXT4_ROOT_INO then Some (- 1, s)
          else do {
            (rc, v, s) \<leftarrow> e4_read_inode victim (uninit s) s;
            if rc \<noteq> 0 then Some (- 1, s)
            else do {
              (empty, s) \<leftarrow> (if e4_is_dir v then e4_dir_empty victim s else Some (True, s));
              if \<not> empty then Some (- 1, kputs ''ext4 directory not empty'' s)
              else do {
                (rc, s) \<leftarrow> e4_dir_remove_entry parent name s;
                if rc \<noteq> 0 then Some (- 1, s)
                else do {
                  (_, _, s) \<leftarrow> e4_truncate v 0 s;
                  (_, s) \<leftarrow> e4_free_inode victim s;
                  g \<leftarrow> udiv (victim - 1) (fs_inodes_per_group s);
                  (_, s) \<leftarrow> e4_sync_gd g s;
                  Some (0, sync_super s) } } } } } })"

definition ext4_size :: "bytes option \<Rightarrow> 'd ext4 \<Rightarrow> (u64 \<times> 'd ext4) option" where
  "ext4_size pth s =
     (if fs_dev s = None then Some (0, s)
      else do {
        (rc, ino, s) \<leftarrow> resolve_full pth s;
        if rc \<noteq> 0 then Some (0, s)
        else do {
          (rc, inode, s) \<leftarrow> e4_read_inode ino (uninit s) s;
          Some (if rc \<noteq> 0 then 0 else e4_inode_size inode s, s) } })"

record dirent_info =
  di_name :: bytes
  di_type :: u8
  di_inode :: u32

record list_ctx =
  lc_out :: "dirent_info list"
  lc_max :: int
  lc_n :: int

definition list_cb :: "list_ctx dir_cb" where
  "list_cb nm ino ft c =
     (if lc_n c \<ge> lc_max c then Some (1, c)
      else do {
        let i = nat (lc_n c);
        chk (i < length (lc_out c));
        l \<leftarrow> k_strlen nm;
        b \<leftarrow> slice nm 0 (l + 1);
        n \<leftarrow> splice (di_name (lc_out c ! i)) 0 b;
        let e = \<lparr>di_name = n, di_type = ft, di_inode = ino\<rparr>;
        Some (0, c\<lparr>lc_out := (lc_out c)[i := e], lc_n := lc_n c + 1\<rparr>) })"

definition ext4_listdir ::
  "bytes option \<Rightarrow> dirent_info list option \<Rightarrow> int \<Rightarrow> 'd ext4 \<Rightarrow> (int \<times> dirent_info list option \<times> 'd ext4) option" where
  "ext4_listdir pth out mx s =
     (if fs_dev s = None \<or> out = None \<or> mx \<le> 0 then Some (- 1, out, s)
      else do {
        (rc, d, s) \<leftarrow> resolve_full pth s;
        if rc \<noteq> 0 then Some (- 1, out, s)
        else do {
          xs \<leftarrow> out;
          (rc, c, s) \<leftarrow> e4_iterate_dir d list_cb \<lparr>lc_out = xs, lc_max = mx, lc_n = 0\<rparr> s;
          Some (if rc \<noteq> 0 then - 1 else lc_n c, Some (lc_out c), s) } })"

definition ext4_free_blocks :: "'d ext4 \<Rightarrow> u32" where
  "ext4_free_blocks s = fst (e4_count_free s)"

definition ext4_free_inodes :: "'d ext4 \<Rightarrow> u32" where
  "ext4_free_inodes s = snd (e4_count_free s)"

section \<open>What the missing device and the failing lookup do\<close>

lemma post_k_alloc: "post (k_alloc n s) (\<lambda>((p, b), s'). \<exists>h. s' = s\<lparr>kheap := h\<rparr>)"
  unfolding k_alloc_def by (intro post_intros) auto

lemma post_k_zalloc: "post (k_zalloc n s) (\<lambda>((p, b), s'). \<exists>h. s' = s\<lparr>kheap := h\<rparr>)"
  unfolding k_zalloc_def by (intro post_intros) auto

lemma post_k_free: "post (k_free p s) (\<lambda>s'. \<exists>h. s' = s\<lparr>kheap := h\<rparr>)"
  unfolding k_free_def by (intro post_intros) auto

lemma post_e4_init_scratch:
  "post (e4_init_scratch bs s) (\<lambda>(rc, s'). fs_dev s' = fs_dev s \<and> fs_group_count s' = fs_group_count s)"
  unfolding e4_init_scratch_def
  by (intro post_intros) (auto dest!: postD [OF post_k_alloc])

lemma read_without_device: "fs_dev s = None \<Longrightarrow> read_scratch1 b s = Some (- 1, s)"
  by (simp add: read_scratch1_def e4_read_block_def)

lemma load_gdt_groups_without_device:
  assumes "fs_dev s = None" and "n \<noteq> 0"
  shows "load_gdt_groups gb pb g (unat n) s = (if pb = 0 then None else Some (- 1, s))"
proof -
  obtain k where k: "unat n = Suc k"
    using assms(2) by (metis not0_implies_Suc unat_eq_zero)
  show ?thesis
    by (simp add: k read_without_device [OF assms(1)] udiv_def umod_def)
qed

lemma load_gdt_without_device:
  assumes "fs_dev s = None" and "fs_group_count s \<noteq> 0"
  shows "post (e4_load_gdt s) (\<lambda>(rc, s'). rc \<noteq> 0 \<and> fs_dev s' = None)"
  unfolding e4_load_gdt_def Let_def
  by (intro post_intros)
    (use assms in \<open>auto simp: load_gdt_groups_without_device dest!: postD [OF post_k_zalloc] split: if_splits\<close>)

lemma mount_gdt_fails:
  assumes "fs_dev s = None" and "fs_group_count s \<noteq> 0"
  shows "post (mount_gdt s) (\<lambda>(rc, s'). rc \<noteq> 0 \<and> fs_dev s' = None)"
  unfolding mount_gdt_def Let_def
  by (intro post_intros load_gdt_without_device)
    (use assms in \<open>auto dest!: postD [OF post_k_zalloc]\<close>)

lemma mount_tables_fails:
  assumes "fs_dev s = None" and "fs_group_count s \<noteq> 0"
  shows "post (mount_tables name inc s) (\<lambda>(ok, s'). \<not> ok \<and> fs_dev s' = None)"
  unfolding mount_tables_def mount_fail_def Let_def
  by (intro post_intros) (use postD [OF mount_gdt_fails [OF assms]] in auto)

lemma e4_fill_dev [simp]: "fs_dev (e4_fill log inc s) = fs_dev s"
  by (simp add: e4_fill_def Let_def)

lemma mount_super_fails:
  assumes "fs_dev s = None"
  shows "post (mount_super name s) (\<lambda>(ok, s'). \<not> ok \<and> fs_dev s' = None)"
  unfolding mount_super_def mount_fail_def Let_def
  by (intro post_intros post_mono [OF mount_tables_fails])
    (use assms in \<open>auto dest!: postD [OF post_e4_init_scratch]\<close>)

text \<open>C21: a mount never succeeds on a kernel with no file system mounted. No code stores the device that the
  superblock was read from into \<open>e4.dev\<close>, so the first read of the group descriptors fails.\<close>

theorem ext4_mount_never_succeeds:
  assumes "fs_dev s = None" and "ext4_mount s = Some (ok, s')"
  shows "\<not> ok \<and> \<not> ext4_ready s'"
proof -
  have "post (ext4_mount s) (\<lambda>(ok, s'). \<not> ok \<and> fs_dev s' = None)"
    unfolding ext4_mount_def Let_def
    by (intro post_intros post_mono [OF mount_super_fails])
      (use assms(1) in \<open>auto simp: e4_zero_def kputs_def dest!: postD [OF post_k_zalloc] postD [OF post_k_free]\<close>)
  with assms(2) show ?thesis by (auto dest: postD simp: ext4_ready_def)
qed

theorem ext4_mount_never_succeeds_witness:
  "\<exists>ok s'. ext4_mount ((demo_fs 512 (\<lambda>_. []))\<lparr>fs_dev := None\<rparr>) = Some (ok, s') \<and> \<not> ok \<and> \<not> ext4_ready s'"
proof -
  let ?s = "(demo_fs 512 (\<lambda>_. []))\<lparr>fs_dev := None\<rparr>"
  obtain ok s' where "ext4_mount ?s = Some (ok, s')"
    by (auto simp: ext4_mount_def demo_fs_def e4_zero_def blk_first_def blkdev_init_def Let_def)
  moreover have "fs_dev ?s = None" by simp
  ultimately show ?thesis using ext4_mount_never_succeeds by blast
qed

lemma resolve_walk_root:
  "post (resolve_walk p cur s) (\<lambda>(rc, ino, s'). rc = 0 \<longrightarrow> ino = cur \<and> hd (dropWhile (\<lambda>c. c = 47) p) = 0)"
  by (subst resolve_walk.simps, unfold Let_def, intro post_intros)
    (auto dest!: postD [OF e4_dir_lookup_fails])

lemma dropWhile_slashes:
  assumes "dropWhile (\<lambda>c. c = 47) p \<noteq> []" and "hd (dropWhile (\<lambda>c. c = 47) p) = (0 :: u8)"
  shows "\<exists>n r. p = replicate n 47 @ 0 # r"
proof -
  let ?w = "takeWhile (\<lambda>c. c = 47) p"
  have "?w = replicate (length ?w) 47"
    by (metis (mono_tags, lifting) replicate_length_same set_takeWhileD)
  moreover have "p = ?w @ dropWhile (\<lambda>c. c = 47) p" by simp
  ultimately show ?thesis using assms by (metis list.collapse)
qed

lemma post_resolve_full:
  "post (resolve_full (Some p) s)
     (\<lambda>(rc, ino, s'). rc = 0 \<longrightarrow> ino = EXT4_ROOT_INO \<and> (\<exists>n r. p = replicate (Suc n) 47 @ 0 # r))"
proof -
  have "\<exists>n r. p = replicate (Suc n) 47 @ 0 # r" 
    if len: "k_strlen p = Some l" and fst: "hd p = 47" and rest: "hd (dropWhile (\<lambda>c. c = 47) (tl p)) = 0" for l
  proof -
    obtain x r where x: "p = x @ 0 # r" "0 \<notin> set x" using k_strlen_SomeD [OF len] by blast
    then obtain y where y: "x = 47 # y" using fst by (cases x) auto
    have "dropWhile (\<lambda>c. c = 47) (tl p) \<noteq> []" by (simp add: x y)
    from dropWhile_slashes [OF this rest] obtain n r' where "tl p = replicate n 47 @ 0 # r'" by blast
    then have "p = replicate (Suc n) 47 @ 0 # r'" by (simp add: x y)
    then show ?thesis by blast
  qed
  then show ?thesis
    unfolding resolve_full_def option.case
    by (intro post_intros post_mono [OF resolve_walk_root])
      (auto simp: bind_simps rd8_def hd_conv_nth)
qed

lemma ext4_unlink_fails: "post (ext4_unlink pth s) (\<lambda>(rc, s'). rc = - 1)"
  unfolding ext4_unlink_def by (intro post_intros) (auto dest!: postD [OF e4_dir_lookup_fails])

text \<open>The only paths that resolve are sequences of slashes, to the root directory, and no unlink
  succeeds, since each component of a path is looked up.\<close>

theorem ext4_paths_unreachable:
  assumes "resolve_full (Some p) s = Some (0, ino, s1)"
  shows "ino = EXT4_ROOT_INO \<and> (\<exists>n r. p = replicate (Suc n) 47 @ 0 # r) \<and>
    (\<forall>q s2 rc s3. ext4_unlink q s2 = Some (rc, s3) \<longrightarrow> rc = - 1)"
  using postD [OF post_resolve_full assms] postD [OF ext4_unlink_fails] by fastforce

theorem ext4_paths_unreachable_witness:
  "\<exists>ino s1. resolve_full (Some [47, 47, 0]) (demo_fs 512 (\<lambda>_. [])) = Some (0, ino, s1) \<and> ino = EXT4_ROOT_INO"
proof -
  obtain ino s1 where r: "resolve_full (Some [47, 47, 0]) (demo_fs 512 (\<lambda>_. [])) = Some (0, ino, s1)"
    by (simp add: resolve_full_def resolve_walk.simps rd8_def EXT4_MAX_PATH_def)
  from ext4_paths_unreachable [OF r] r show ?thesis by blast
qed

end
