(* ===== verification/Ports.thy ===== *)
theory Ports
  imports Prelude
begin

text \<open>
  The port instructions of \<open>include/io.h\<close>. The hardware behind the ports is a parameter: a state of
  type \<open>'d\<close> and, in a record, what each instruction does to it. A driver takes the record and the
  state of the hardware, and returns the new state.
\<close>

record 'd ports =
  inb :: "u16 \<Rightarrow> 'd \<Rightarrow> u8 \<times> 'd"
  outb :: "u16 \<Rightarrow> u8 \<Rightarrow> 'd \<Rightarrow> 'd"
  inw :: "u16 \<Rightarrow> 'd \<Rightarrow> u16 \<times> 'd"
  outw :: "u16 \<Rightarrow> u16 \<Rightarrow> 'd \<Rightarrow> 'd"
  inl :: "u16 \<Rightarrow> 'd \<Rightarrow> u32 \<times> 'd"
  outl :: "u16 \<Rightarrow> u32 \<Rightarrow> 'd \<Rightarrow> 'd"

definition io_wait :: "'d ports \<Rightarrow> 'd \<Rightarrow> 'd" where
  "io_wait io hw = outb io 0x80 0 hw"

text \<open>Two machines for examples. On the first no device answers: every read gives all ones, as on a
  floating bus. The second has one byte register per port.\<close>

definition floating_bus :: "unit ports" where
  "floating_bus = \<lparr>inb = \<lambda>p hw. (0xFF, hw), outb = \<lambda>p v hw. hw, inw = \<lambda>p hw. (0xFFFF, hw),
     outw = \<lambda>p v hw. hw, inl = \<lambda>p hw. (0xFFFFFFFF, hw), outl = \<lambda>p v hw. hw\<rparr>"

definition port_file :: "(u16 \<Rightarrow> u8) ports" where
  "port_file = \<lparr>inb = \<lambda>p hw. (hw p, hw), outb = \<lambda>p v hw. hw(p := v),
     inw = \<lambda>p hw. (le16 [hw p, hw (p + 1)], hw), outw = \<lambda>p v hw. hw(p := ucast v, p + 1 := ucast (drop_bit 8 v)),
     inl = \<lambda>p hw. (le32 [hw p, hw (p + 1), hw (p + 2), hw (p + 3)], hw),
     outl = \<lambda>p v hw. hw(p := ucast v, p + 1 := ucast (drop_bit 8 v),
       p + 2 := ucast (drop_bit 16 v), p + 3 := ucast (drop_bit 24 v))\<rparr>"

end
