(* ===== verification/Ps2.thy ===== *)
theory Ps2
  imports Ports
begin

text \<open>
  \<open>drivers/input/ps2.c\<close>: the 8042 controller. The waiting loops have a bound and return in every
  case. \<open>flush_output\<close> and \<open>ps2_flush_aux\<close> have none: they are \<open>partial_function\<close>s, and \<open>None\<close>
  means that the loop does not end.
\<close>

section \<open>Operations\<close>

definition DATA_PORT :: u16 where "DATA_PORT = 0x60"
definition STATUS_PORT :: u16 where "STATUS_PORT = 0x64"
definition CMD_PORT :: u16 where "CMD_PORT = 0x64"

definition STAT_OUT_FULL :: u8 where "STAT_OUT_FULL = 0x01"
definition STAT_IN_FULL :: u8 where "STAT_IN_FULL = 0x02"

definition CMD_READ_CFG :: u8 where "CMD_READ_CFG = 0x20"
definition CMD_WRITE_CFG :: u8 where "CMD_WRITE_CFG = 0x60"
definition CMD_SELF_TEST :: u8 where "CMD_SELF_TEST = 0xAA"
definition CMD_PORT1_TEST :: u8 where "CMD_PORT1_TEST = 0xAB"
definition CMD_PORT2_TEST :: u8 where "CMD_PORT2_TEST = 0xA9"
definition CMD_ENABLE_P1 :: u8 where "CMD_ENABLE_P1 = 0xAE"
definition CMD_ENABLE_P2 :: u8 where "CMD_ENABLE_P2 = 0xA8"
definition CMD_DISABLE_P1 :: u8 where "CMD_DISABLE_P1 = 0xAD"
definition CMD_DISABLE_P2 :: u8 where "CMD_DISABLE_P2 = 0xA7"
definition CMD_WRITE_P2 :: u8 where "CMD_WRITE_P2 = 0xD4"

record ps2 =
  port1_ok :: bool
  port2_ok :: bool

fun wait_in_loop :: "'d ports \<Rightarrow> nat \<Rightarrow> 'd \<Rightarrow> bool \<times> 'd" where
  "wait_in_loop io 0 hw = (False, hw)"
| "wait_in_loop io (Suc n) hw =
     (let (v, hw) = inb io STATUS_PORT hw in
      if v AND STAT_IN_FULL = 0 then (True, hw) else wait_in_loop io n hw)"

definition wait_in_ready :: "'d ports \<Rightarrow> 'd \<Rightarrow> bool \<times> 'd" where
  "wait_in_ready io hw = wait_in_loop io 100000 hw"

fun wait_out_loop :: "'d ports \<Rightarrow> nat \<Rightarrow> 'd \<Rightarrow> bool \<times> 'd" where
  "wait_out_loop io 0 hw = (False, hw)"
| "wait_out_loop io (Suc n) hw =
     (let (v, hw) = inb io STATUS_PORT hw in
      if v AND STAT_OUT_FULL \<noteq> 0 then (True, hw) else wait_out_loop io n hw)"

definition wait_out_ready :: "'d ports \<Rightarrow> 'd \<Rightarrow> bool \<times> 'd" where
  "wait_out_ready io hw = wait_out_loop io 100000 hw"

partial_function (option) flush_output :: "'d ports \<Rightarrow> 'd \<Rightarrow> 'd option" where
  "flush_output io hw =
     (let (v, hw) = inb io STATUS_PORT hw in
      if v AND STAT_OUT_FULL \<noteq> 0 then flush_output io (snd (inb io DATA_PORT hw)) else Some hw)"

definition controller_cmd :: "'d ports \<Rightarrow> u8 \<Rightarrow> 'd \<Rightarrow> bool \<times> 'd" where
  "controller_cmd io cmd hw =
     (let (ok, hw) = wait_in_ready io hw in
      if \<not> ok then (False, hw) else (True, outb io CMD_PORT cmd hw))"

definition data_read :: "'d ports \<Rightarrow> 'd \<Rightarrow> u8 \<times> 'd" where
  "data_read io hw =
     (let (ok, hw) = wait_out_ready io hw in
      if \<not> ok then (0xFF, hw) else inb io DATA_PORT hw)"

definition data_write :: "'d ports \<Rightarrow> u8 \<Rightarrow> 'd \<Rightarrow> bool \<times> 'd" where
  "data_write io val hw =
     (let (ok, hw) = wait_in_ready io hw in
      if \<not> ok then (False, hw) else (True, outb io DATA_PORT val hw))"

definition aux_write :: "'d ports \<Rightarrow> u8 \<Rightarrow> 'd \<Rightarrow> bool \<times> 'd" where
  "aux_write io val hw =
     (let (ok, hw) = wait_in_ready io hw in
      if \<not> ok then (False, hw)
      else
        let hw = outb io CMD_PORT CMD_WRITE_P2 hw;
            (ok, hw) = wait_in_ready io hw in
        if \<not> ok then (False, hw) else (True, outb io DATA_PORT val hw))"

text \<open>The results of \<open>controller_cmd\<close> and \<open>data_write\<close> are not looked at.\<close>

definition send_cmd :: "'d ports \<Rightarrow> u8 \<Rightarrow> 'd \<Rightarrow> 'd" where
  "send_cmd io c hw = snd (controller_cmd io c hw)"

definition test_ports :: "'d ports \<Rightarrow> u8 \<Rightarrow> 'd \<Rightarrow> bool \<times> ps2 \<times> 'd" where
  "test_ports io cfg hw =
     (let hw = send_cmd io CMD_PORT1_TEST hw;
          (v, hw) = data_read io hw;
          p1 = (v = 0x00);
          hw = send_cmd io CMD_PORT2_TEST hw;
          (v, hw) = data_read io hw;
          p2 = (v = 0x00);
          (cfg, hw) = (if p1 then (cfg OR 0x01, send_cmd io CMD_ENABLE_P1 hw) else (cfg, hw));
          (cfg, hw) = (if p2 then (cfg OR 0x02, send_cmd io CMD_ENABLE_P2 hw) else (cfg, hw));
          hw = send_cmd io CMD_WRITE_CFG hw;
          (_, hw) = data_write io cfg hw
      in (p1 \<or> p2, \<lparr>port1_ok = p1, port2_ok = p2\<rparr>, hw))"

definition ps2_controller_init :: "'d ports \<Rightarrow> ps2 \<Rightarrow> 'd \<Rightarrow> (bool \<times> ps2 \<times> 'd) option" where
  "ps2_controller_init io st hw = do {
     let st = \<lparr>port1_ok = False, port2_ok = False\<rparr>;
     let hw = send_cmd io CMD_DISABLE_P1 hw;
     let hw = send_cmd io CMD_DISABLE_P2 hw;
     hw \<leftarrow> flush_output io hw;
     let hw = send_cmd io CMD_SELF_TEST hw;
     let (v, hw) = data_read io hw;
     if v \<noteq> 0x55 then Some (False, st, hw)
     else do {
       let hw = send_cmd io CMD_READ_CFG hw;
       let (cfg, hw) = data_read io hw;
       let cfg = cfg AND NOT (push_bit 6 1);
       let hw = send_cmd io CMD_WRITE_CFG hw;
       let (_, hw) = data_write io cfg hw;
       Some (test_ports io cfg hw) } }"

definition ps2_port1_present :: "ps2 \<Rightarrow> bool" where "ps2_port1_present st = port1_ok st"
definition ps2_port2_present :: "ps2 \<Rightarrow> bool" where "ps2_port2_present st = port2_ok st"

definition ps2_aux_write :: "'d ports \<Rightarrow> u8 \<Rightarrow> 'd \<Rightarrow> bool \<times> 'd" where
  "ps2_aux_write io val hw =
     (let (ok, hw) = wait_in_ready io hw in
      if \<not> ok then (False, hw)
      else data_write io val (outb io CMD_PORT CMD_WRITE_P2 hw))"

definition ps2_poll_scancode :: "'d ports \<Rightarrow> 'd \<Rightarrow> int \<times> 'd" where
  "ps2_poll_scancode io hw =
     (let (v, hw) = inb io STATUS_PORT hw in
      if v AND STAT_OUT_FULL = 0 then (- 1, hw)
      else let (c, hw) = inb io DATA_PORT hw in (uint c, hw))"

fun aux_read_loop :: "'d ports \<Rightarrow> nat \<Rightarrow> 'd \<Rightarrow> int \<times> 'd" where
  "aux_read_loop io 0 hw = (- 1, hw)"
| "aux_read_loop io (Suc n) hw =
     (let (v, hw) = inb io 0x64 hw in
      if v AND 0x01 = 0 then (- 1, hw)
      else if v AND 0x20 = 0 then aux_read_loop io n hw
      else let (c, hw) = inb io 0x60 hw in (uint c, hw))"

definition ps2_aux_read :: "'d ports \<Rightarrow> 'd \<Rightarrow> int \<times> 'd" where
  "ps2_aux_read io hw = aux_read_loop io 1000 hw"

partial_function (option) ps2_flush_aux :: "'d ports \<Rightarrow> 'd \<Rightarrow> 'd option" where
  "ps2_flush_aux io hw =
     (let (r, hw) = ps2_aux_read io hw in
      if r \<ge> 0 then ps2_flush_aux io hw else Some hw)"

section \<open>A missing controller\<close>

lemma flush_output_full:
  assumes full: "\<And>hw. fst (inb io STATUS_PORT hw) AND STAT_OUT_FULL \<noteq> 0"
  shows "flush_output io hw = None"
proof -
  have "i \<noteq> io" if "flush_output i hw = Some hw'" for i hw'
    by (rule flush_output.raw_induct [where P = "\<lambda>i _ _. i \<noteq> io", OF _ that])
      (use full in \<open>auto simp: case_prod_beta split: if_splits\<close>)
  then show ?thesis by (cases "flush_output io hw") auto
qed

text \<open>C22: where nothing answers at the status port, so that every read of it has the output-full bit,
  the initialisation never returns: the draining loop has no bound.\<close>

theorem ps2_init_hangs_on_floating_bus:
  assumes "\<And>hw. fst (inb io STATUS_PORT hw) AND STAT_OUT_FULL \<noteq> 0"
  shows "ps2_controller_init io st hw = None"
  by (simp add: ps2_controller_init_def flush_output_full [OF assms])

theorem ps2_init_hangs_on_floating_bus_witness: 
  "ps2_controller_init floating_bus \<lparr>port1_ok = False, port2_ok = False\<rparr> () = None"
  by (rule ps2_init_hangs_on_floating_bus) (simp add: floating_bus_def STAT_OUT_FULL_def)

end
