(* ===== verification/Isr.thy ===== *)
theory Isr
  imports Ports Clock
begin

text \<open>
  \<open>arch/x86/isr.c\<close>: the two interrupt controllers, the timer chip and the dispatcher. A handler is
  a function on the hardware and on the state \<open>'s\<close> of the drivers; it may fail to return
  (\<open>None\<close>). A processor exception ends in \<open>panic\<close>, which does not come back: the dispatcher then
  gives the arguments of the message.
\<close>

section \<open>Interrupt controllers and timer\<close>

definition PIC1_CMD :: u16 where "PIC1_CMD = 0x20"
definition PIC1_DATA :: u16 where "PIC1_DATA = 0x21"
definition PIC2_CMD :: u16 where "PIC2_CMD = 0xA0"
definition PIC2_DATA :: u16 where "PIC2_DATA = 0xA1"
definition PIC_EOI :: u8 where "PIC_EOI = 0x20"
definition PIT_CH0 :: u16 where "PIT_CH0 = 0x40"
definition PIT_CMD :: u16 where "PIT_CMD = 0x43"

type_synonym ('d, 's) irq_handler = "'d \<Rightarrow> 's \<Rightarrow> ('d \<times> 's) option"

record ('d, 's) irqs =
  irq_handlers :: "('d, 's) irq_handler option list"

definition irqs_boot :: "('d, 's) irqs" where
  "irqs_boot = \<lparr>irq_handlers = replicate 16 None\<rparr>"

definition irq_install :: "u8 \<Rightarrow> ('d, 's) irq_handler \<Rightarrow> ('d, 's) irqs \<Rightarrow> ('d, 's) irqs" where
  "irq_install irq handler t =
     (if irq < 16 then t\<lparr>irq_handlers := (irq_handlers t)[unat irq := Some handler]\<rparr> else t)"

definition pic_send_eoi :: "'d ports \<Rightarrow> u8 \<Rightarrow> 'd \<Rightarrow> 'd" where
  "pic_send_eoi io irq hw =
     (let hw = (if irq \<ge> 8 then outb io PIC2_CMD PIC_EOI hw else hw)
      in outb io PIC1_CMD PIC_EOI hw)"

definition pic_line :: "u8 \<Rightarrow> u16 \<times> u8" where
  "pic_line irq = (if irq < 8 then (PIC1_DATA, irq) else (PIC2_DATA, irq - 8))"

text \<open>A shift of \<open>1u\<close> by 32 or more is undefined.\<close>

definition pic_unmask_irq :: "'d ports \<Rightarrow> u8 \<Rightarrow> 'd \<Rightarrow> 'd option" where
  "pic_unmask_irq io irq hw = do {
     let (port, b) = pic_line irq;
     chk (b < 32);
     let (v, hw) = inb io port hw;
     Some (outb io port (v AND NOT (ucast (push_bit (unat b) 1 :: u32))) hw) }"

definition pic_mask_irq :: "'d ports \<Rightarrow> u8 \<Rightarrow> 'd \<Rightarrow> 'd option" where
  "pic_mask_irq io irq hw = do {
     let (port, b) = pic_line irq;
     chk (b < 32);
     let (v, hw) = inb io port hw;
     Some (outb io port (v OR ucast (push_bit (unat b) 1 :: u32)) hw) }"

text \<open>A write of an initialisation word, with the delay after it.\<close>

definition pic_icw :: "'d ports \<Rightarrow> u16 \<times> u8 \<Rightarrow> 'd \<Rightarrow> 'd" where
  "pic_icw io w hw = io_wait io (outb io (fst w) (snd w) hw)"

definition pic_init :: "'d ports \<Rightarrow> 'd \<Rightarrow> 'd" where
  "pic_init io hw =
     (let hw = fold (pic_icw io)
            [(PIC1_CMD, 0x11), (PIC2_CMD, 0x11), (PIC1_DATA, 0x20), (PIC2_DATA, 0x28),
             (PIC1_DATA, 0x04), (PIC2_DATA, 0x02), (PIC1_DATA, 0x01), (PIC2_DATA, 0x01)] hw;
          hw = outb io PIC1_DATA 0xFF hw
      in outb io PIC2_DATA 0xFF hw)"

definition pit_init :: "'d ports \<Rightarrow> u32 \<Rightarrow> 'd \<Rightarrow> 'd option" where
  "pit_init io hz hw = do {
     divisor \<leftarrow> udiv 1193182 hz;
     let hw = outb io PIT_CMD 0x36 hw;
     let hw = outb io PIT_CH0 (ucast (divisor AND 0xFF)) hw;
     Some (outb io PIT_CH0 (ucast (drop_bit 8 divisor AND 0xFF)) hw) }"

section \<open>The dispatcher\<close>

definition exception_names :: "string list" where
  "exception_names =
     [''divide error'', ''debug'', ''NMI'', ''breakpoint'', ''overflow'', ''bound range exceeded'',
      ''invalid opcode'', ''device not available'', ''double fault'', ''coprocessor segment overrun'',
      ''invalid TSS'', ''segment not present'', ''stack-segment fault'', ''general protection fault'',
      ''page fault'', ''reserved'', ''x87 floating-point exception'', ''alignment check'',
      ''machine check'', ''SIMD floating-point exception'']"

definition exception_name :: "u32 \<Rightarrow> string" where
  "exception_name vector =
     (if unat vector < length exception_names then exception_names ! unat vector
      else ''unknown exception'')"

datatype ('d, 's) trap =
  Panic u32 string u32
| Resume clock 'd 's

definition isr_handler ::
  "'d ports \<Rightarrow> ('d, 's) irqs \<Rightarrow> u32 \<Rightarrow> u32 \<Rightarrow> clock \<Rightarrow> 'd \<Rightarrow> 's \<Rightarrow> ('d, 's) trap option" where
  "isr_handler io t int_no err_code c hw s =
     (if int_no < 32 then Some (Panic int_no (exception_name int_no) err_code)
      else do {
        let irq = (ucast (int_no - 32) :: u8);
        let c = (if irq = 0 then time_tick c else c);
        (hw, s) \<leftarrow> (if irq < 16
           then (case irq_handlers t ! unat irq of Some f \<Rightarrow> f hw s | None \<Rightarrow> Some (hw, s))
           else Some (hw, s));
        Some (Resume c (pic_send_eoi io irq hw) s) })"

section \<open>Masks\<close>

text \<open>On a controller whose mask registers read back what was written, unmasking a line clears its
  bit only, and masking it again restores the register.\<close>

lemma pic_unmask_bit:
  assumes "irq < 16" and "pic_line irq = (port, b)"
  shows "pic_unmask_irq port_file irq hw = Some (hw(port := unset_bit (unat b) (hw port)))"
proof -
  have b: "unat b < 8"
  proof (cases "irq < 8")
    case True
    then show ?thesis using assms(2) by (auto simp: pic_line_def word_less_nat_alt)
  next
    case False
    then have "unat irq - unat (8 :: u8) = unat (irq - 8)"
      by (simp add: unat_sub word_le_nat_alt word_less_nat_alt)
    then show ?thesis using assms False by (auto simp: pic_line_def word_less_nat_alt)
  qed
  have "ucast (push_bit (unat b) 1 :: u32) = (push_bit (unat b) 1 :: u8)"
    by (rule bit_word_eqI) (auto simp: bit_simps)
  with b show ?thesis
    by (simp add: pic_unmask_irq_def assms(2) port_file_def word_less_nat_alt unset_bit_eq_and_not)
qed

end
