(* ===== verification/Keyboard.thy ===== *)
theory Keyboard
  imports Ps2 Isr
begin

text \<open>
  \<open>drivers/input/keyboard.c\<close>: scancodes of set 1 are decoded in the interrupt handler into a ring of
  64 characters, which \<open>keyboard_try_getchar\<close> empties. A \<open>char\<close> is a byte, read back as a signed
  number.
\<close>

section \<open>Operations\<close>

record keyboard =
  put_idx :: u32
  get_idx :: u32
  keybuf :: bytes
  shift_down :: bool

definition keyboard_boot :: keyboard where
  "keyboard_boot = \<lparr>put_idx = 0, get_idx = 0, keybuf = replicate 64 0, shift_down = False\<rparr>"

text \<open>A run of consecutive scancodes, and the value of a table at a scancode: entries that are not
  given are 0.\<close>

definition key_row :: "nat \<Rightarrow> string \<Rightarrow> (u8 \<times> u8) list" where
  "key_row from cs = zip (map of_nat [from..<from + length cs]) (map of_char cs)"

definition key_at :: "(u8 \<times> u8) list \<Rightarrow> u8 \<Rightarrow> u8" where
  "key_at tab sc = (case map_of tab sc of Some c \<Rightarrow> c | None \<Rightarrow> 0)"

definition keymap_normal :: "(u8 \<times> u8) list" where
  "keymap_normal =
     key_row 0x02 ''1234567890-='' @ [(0x0E, 8), (0x0F, 9)] @
     key_row 0x10 ''qwertyuiop[]'' @ key_row 0x1E ''asdfghjkl;'' @ [(0x28, 0x27), (0x29, 0x60)] @
     [(0x2B, 0x5C)] @ key_row 0x2C ''zxcvbnm,./'' @ [(0x39, 0x20)]"

definition keymap_shift :: "(u8 \<times> u8) list" where
  "keymap_shift =
     key_row 0x02 ''!@#$%^&*()_+'' @
     key_row 0x10 ''QWERTYUIOP{}'' @ key_row 0x1E ''ASDFGHJKL:'' @ [(0x28, 0x22), (0x29, 0x7E)] @
     [(0x2B, 0x7C)] @ key_row 0x2C ''ZXCVBNM<>?''"

definition push_char :: "u8 \<Rightarrow> keyboard \<Rightarrow> keyboard option" where
  "push_char c k = do {
     let nxt = (put_idx k + 1) mod 64;
     if nxt \<noteq> get_idx k then Some k
     else do {
       b \<leftarrow> st8 (keybuf k) (unat (put_idx k)) c;
       Some (k\<lparr>keybuf := b, put_idx := nxt\<rparr>) } }"

partial_function (option) wait_scancode :: "'d ports \<Rightarrow> 'd \<Rightarrow> 'd option" where
  "wait_scancode io hw =
     (let (v, hw) = inb io 0x64 hw in
      if v AND 0x01 = 0 then wait_scancode io hw else Some hw)"

text \<open>The second byte of an extended key: only the arrows give a character, \<open>'A' - 0x40\<close> and so on.\<close>

definition extended_key :: "u8 \<Rightarrow> keyboard \<Rightarrow> keyboard option" where
  "extended_key sc k =
     (if sc = 0x48 then push_char 1 k
      else if sc = 0x50 then push_char 2 k
      else if sc = 0x4B then push_char 3 k
      else if sc = 0x4D then push_char 4 k
      else Some k)"

definition handle_scancode :: "'d ports \<Rightarrow> u8 \<Rightarrow> 'd \<Rightarrow> keyboard \<Rightarrow> ('d \<times> keyboard) option" where
  "handle_scancode io sc hw k =
     (if sc = 0xE0 then do {
        hw \<leftarrow> wait_scancode io hw;
        let (sc, hw) = inb io DATA_PORT hw;
        k \<leftarrow> extended_key sc k;
        Some (hw, k) }
      else if sc AND 0x80 \<noteq> 0 then do {
        let sc = sc AND 0x7F;
        Some (hw, if sc = 0x2A \<or> sc = 0x36 then k\<lparr>shift_down := False\<rparr> else k) }
      else if sc = 0x2A \<or> sc = 0x36 then Some (hw, k\<lparr>shift_down := True\<rparr>)
      else do {
        let c = (if shift_down k then key_at keymap_shift sc else key_at keymap_normal sc);
        k \<leftarrow> (if c \<noteq> 0 then push_char c k else Some k);
        Some (hw, k) })"

definition keyboard_try_getchar :: "keyboard \<Rightarrow> (int \<times> keyboard) option" where
  "keyboard_try_getchar k =
     (if get_idx k = put_idx k then Some (- 1, k)
      else do {
        c \<leftarrow> ld8 (keybuf k) (unat (get_idx k));
        Some (sint c, k\<lparr>get_idx := (get_idx k + 1) mod 64\<rparr>) })"

definition keyboard_irq_handler :: "'d ports \<Rightarrow> 'd \<Rightarrow> keyboard \<Rightarrow> ('d \<times> keyboard) option" where
  "keyboard_irq_handler io hw k = (let (sc, hw) = inb io DATA_PORT hw in handle_scancode io sc hw k)"

text \<open>\<open>keyboard_getchar\<close> halts until a character is there. Each halt ends with a keyboard interrupt;
  the fuel is the number of interrupts that arrive, and \<open>None\<close> says that the caller still
  waits.\<close>

fun keyboard_getchar :: "nat \<Rightarrow> 'd ports \<Rightarrow> 'd \<Rightarrow> keyboard \<Rightarrow> (int \<times> 'd \<times> keyboard) option" where
  "keyboard_getchar 0 io hw k = do {
     (c, k) \<leftarrow> keyboard_try_getchar k;
     if c < 0 then None else Some (c, hw, k) }"
| "keyboard_getchar (Suc n) io hw k = do {
     (c, k) \<leftarrow> keyboard_try_getchar k;
     if c < 0 then do {
       (hw, k) \<leftarrow> keyboard_irq_handler io hw k;
       keyboard_getchar n io hw k }
     else Some (c, hw, k) }"

definition keyboard_init ::
  "'d ports \<Rightarrow> ps2 \<Rightarrow> ('d, keyboard) irqs \<Rightarrow> 'd \<Rightarrow> keyboard \<Rightarrow>
    (bool \<times> ('d, keyboard) irqs \<times> 'd \<times> keyboard) option" where
  "keyboard_init io p t hw k =
     (if \<not> ps2_port1_present p then Some (False, t, hw, k)
      else do {
        let k = k\<lparr>put_idx := 0, get_idx := 0\<rparr>;
        let t = irq_install 1 (keyboard_irq_handler io) t;
        hw \<leftarrow> pic_unmask_irq io 1 hw;
        Some (True, t, hw, k) })"

section \<open>No key is ever delivered\<close>

text \<open>What can happen to an initialised keyboard: interrupts, which decode whatever the controller
  holds, and readers.\<close>

inductive kb_reach :: "'d ports \<Rightarrow> keyboard \<Rightarrow> bool" for io where
  init: "keyboard_init io p t hw k = Some (True, t', hw', k') \<Longrightarrow> kb_reach io k'"
| irq: "kb_reach io k \<Longrightarrow> keyboard_irq_handler io hw k = Some (hw', k') \<Longrightarrow> kb_reach io k'"
| get: "kb_reach io k \<Longrightarrow> keyboard_try_getchar k = Some (c, k') \<Longrightarrow> kb_reach io k'"

lemma push_char_drops: "put_idx k = 0 \<Longrightarrow> get_idx k = 0 \<Longrightarrow> push_char c k = Some k"
  by (simp add: push_char_def)

lemma handle_scancode_drops:
  assumes "put_idx k = 0" and "get_idx k = 0"
  shows "post (handle_scancode io sc hw k) (\<lambda>(hw', k'). put_idx k' = 0 \<and> get_idx k' = 0)"
  unfolding handle_scancode_def extended_key_def
  by (intro post_intros) (use assms in \<open>auto simp: push_char_drops split: if_splits\<close>)

lemma kb_reach_empty: "kb_reach io k \<Longrightarrow> put_idx k = 0 \<and> get_idx k = 0"
proof (induction rule: kb_reach.induct)
  case (irq k hw hw' k')
  then have "handle_scancode io (fst (inb io DATA_PORT hw)) (snd (inb io DATA_PORT hw)) k = Some (hw', k')"
    by (simp add: keyboard_irq_handler_def case_prod_beta)
  from postD [OF handle_scancode_drops this] irq.IH show ?case by simp
qed (auto simp: keyboard_init_def keyboard_try_getchar_def bind_simps split: if_splits)

text \<open>C23: from its initialisation on the ring stays empty, whatever keys are pressed: the test for a full
  ring in \<open>push_char\<close> is inverted, so every character is dropped. \<open>keyboard_try_getchar\<close> always
  answers -1 and \<open>keyboard_getchar\<close> never returns.\<close>

theorem keyboard_never_delivers:
  assumes "kb_reach io k"
  shows "keyboard_try_getchar k = Some (- 1, k) \<and> keyboard_getchar n io hw k = None"
  using assms
proof (induction n arbitrary: hw k)
  case 0
  then show ?case using kb_reach_empty [OF 0] by (simp add: keyboard_try_getchar_def)
next
  case (Suc n)
  have e: "keyboard_try_getchar k = Some (- 1, k)"
    using kb_reach_empty [OF Suc.prems] by (simp add: keyboard_try_getchar_def)
  then show ?case
    using Suc.IH kb_reach.irq [OF Suc.prems] by (cases "keyboard_irq_handler io hw k") auto
qed

text \<open>The key \<open>a\<close> pressed on a machine whose data port holds its scancode.\<close>

theorem keyboard_never_delivers_witness:
  "\<exists>hw k. keyboard_irq_handler port_file (\<lambda>_. 0x1E) keyboard_boot = Some (hw, k) \<and>
     key_at keymap_normal 0x1E = of_char CHR ''a'' \<and> keyboard_try_getchar k = Some (- 1, k)"
proof -
  have "\<exists>t' hw'. keyboard_init port_file \<lparr>port1_ok = True, port2_ok = False\<rparr> irqs_boot (\<lambda>_. 0) keyboard_boot =
      Some (True, t', hw', keyboard_boot)"
    by (simp add: keyboard_init_def ps2_port1_present_def keyboard_boot_def pic_unmask_irq_def pic_line_def
        port_file_def)
  then have boot: "kb_reach port_file keyboard_boot" by (auto intro: kb_reach.init)
  have a: "key_at keymap_normal 0x1E = of_char CHR ''a''" by code_simp
  obtain hw k where irq: "keyboard_irq_handler port_file (\<lambda>_. 0x1E) keyboard_boot = Some (hw, k)"
    by (cases "key_at keymap_normal 0x1E = 0")
      (simp_all add: keyboard_irq_handler_def port_file_def handle_scancode_def keyboard_boot_def push_char_drops)
  from keyboard_never_delivers [OF kb_reach.irq [OF boot irq]] irq a show ?thesis by blast
qed

end
