(* ===== verification/Pointer.thy ===== *)
theory Pointer
  imports Ps2 Isr Printk
begin

text \<open>
  The pointing devices: \<open>drivers/input/mouse.c\<close> on the second PS/2 port, \<open>uart8250.c\<close> and
  \<open>serial_mouse.c\<close>, \<open>touchpad_synaptics.c\<close> and \<open>gameport.c\<close>. Output parameters that may be null are
  options; loops that wait on a device without a bound are \<open>partial_function\<close>s.
\<close>

section \<open>The PS/2 mouse\<close>

definition s32_ok :: "int \<Rightarrow> bool" where
  "s32_ok x \<longleftrightarrow> - (2 ^ 31) \<le> x \<and> x < 2 ^ 31"

record mouse =
  pkt_count :: u32
  acc_x :: int
  acc_y :: int
  buttons :: u8
  pkt_state :: u8
  pkt_bytes :: bytes
  seen_first :: bool
  mouse_log :: messages

definition mouse_boot :: mouse where
  "mouse_boot = \<lparr>pkt_count = 0, acc_x = 0, acc_y = 0, buttons = 0, pkt_state = 0,
     pkt_bytes = [0, 0, 0], seen_first = False, mouse_log = []\<rparr>"

text \<open>The third byte completes a packet. A sum outside \<open>s32\<close> is a signed overflow.\<close>

definition mouse_packet :: "mouse \<Rightarrow> mouse option" where
  "mouse_packet m = do {
     b0 \<leftarrow> ld8 (pkt_bytes m) 0; b1 \<leftarrow> ld8 (pkt_bytes m) 1; b2 \<leftarrow> ld8 (pkt_bytes m) 2;
     chk (s32_ok (acc_x m + sint b1));
     chk (s32_ok (acc_y m + sint b2));
     let m = m\<lparr>buttons := b0 AND 0x07, acc_x := acc_x m + sint b1, acc_y := acc_y m + sint b2,
       pkt_count := pkt_count m + 1\<rparr>;
     Some (if seen_first m then m
       else m\<lparr>seen_first := True,
         mouse_log := mouse_log m @ [(''input TrackPoint/mouse detected on aux port'', [])]\<rparr>) }"

definition mouse_byte :: "u8 \<Rightarrow> mouse \<Rightarrow> mouse option" where
  "mouse_byte b m = do {
     bs \<leftarrow> st8 (pkt_bytes m) (unat (pkt_state m)) b;
     let m = m\<lparr>pkt_bytes := bs\<rparr>;
     if pkt_state m = 0 \<and> b AND 0x08 = 0 then Some (m\<lparr>pkt_state := 0\<rparr>)
     else do {
       let m = m\<lparr>pkt_state := (pkt_state m + 1) mod 3\<rparr>;
       if pkt_state m \<noteq> 0 then Some m else mouse_packet m } }"

definition mouse_irq_handler :: "'d ports \<Rightarrow> 'd \<Rightarrow> mouse \<Rightarrow> ('d \<times> mouse) option" where
  "mouse_irq_handler io hw m = do {
     let (b, hw) = inb io DATA_PORT hw;
     m \<leftarrow> mouse_byte b m;
     Some (hw, m) }"

definition mouse_packets :: "mouse \<Rightarrow> u32" where "mouse_packets m = pkt_count m"
definition mouse_dx_total :: "mouse \<Rightarrow> int" where "mouse_dx_total m = acc_x m"
definition mouse_dy_total :: "mouse \<Rightarrow> int" where "mouse_dy_total m = acc_y m"
definition mouse_buttons :: "mouse \<Rightarrow> u8" where "mouse_buttons m = buttons m"

definition mouse_init ::
  "'d ports \<Rightarrow> ps2 \<Rightarrow> ('d, mouse) irqs \<Rightarrow> 'd \<Rightarrow> (bool \<times> ('d, mouse) irqs \<times> 'd) option" where
  "mouse_init io p t hw =
     (if \<not> ps2_port2_present p then Some (False, t, hw)
      else do {
        let (_, hw) = ps2_aux_write io 0xF3 hw;
        let (_, hw) = ps2_aux_write io 100 hw;
        let (_, hw) = ps2_aux_write io 0xE6 hw;
        let (_, hw) = ps2_aux_write io 0xF4 hw;
        let t = irq_install 12 (mouse_irq_handler io) t;
        hw \<leftarrow> pic_unmask_irq io 12 hw;
        Some (True, t, hw) })"

section \<open>The serial port\<close>

definition REG_DATA :: u16 where "REG_DATA = 0"
definition REG_IER :: u16 where "REG_IER = 1"
definition REG_FCR :: u16 where "REG_FCR = 2"
definition REG_LCR :: u16 where "REG_LCR = 3"
definition REG_MCR :: u16 where "REG_MCR = 4"
definition REG_LSR :: u16 where "REG_LSR = 5"
definition LSR_RX_READY :: u8 where "LSR_RX_READY = 0x01"
definition LSR_TX_EMPTY :: u8 where "LSR_TX_EMPTY = 0x20"

definition uart_init :: "'d ports \<Rightarrow> u16 \<Rightarrow> u32 \<Rightarrow> 'd \<Rightarrow> bool \<times> 'd" where
  "uart_init io port baud hw =
     (if baud = 0 \<or> baud > 115200 then (False, hw)
      else
        let dv = (ucast (115200 div baud) :: u16);
            hw = fold (\<lambda>(r, v). outb io (port + r) v)
              [(REG_IER, 0x00), (REG_LCR, 0x80), (0, ucast (dv AND 0xFF)), (1, ucast (drop_bit 8 dv)),
               (REG_LCR, 0x03), (REG_FCR, 0xC7), (REG_MCR, 0x0B)] hw;
            (v, hw) = inb io (port + REG_LSR) hw
        in (v AND 0x60 \<noteq> 0, hw))"

definition uart_read :: "'d ports \<Rightarrow> u16 \<Rightarrow> 'd \<Rightarrow> int \<times> 'd" where
  "uart_read io port hw =
     (let (v, hw) = inb io (port + REG_LSR) hw in
      if v AND LSR_RX_READY = 0 then (- 1, hw)
      else let (c, hw) = inb io (port + REG_DATA) hw in (uint c, hw))"

partial_function (option) uart_wait_tx :: "'d ports \<Rightarrow> u16 \<Rightarrow> 'd \<Rightarrow> 'd option" where
  "uart_wait_tx io port hw =
     (let (v, hw) = inb io (port + REG_LSR) hw in
      if v AND LSR_TX_EMPTY = 0 then uart_wait_tx io port hw else Some hw)"

definition uart_write :: "'d ports \<Rightarrow> u16 \<Rightarrow> u8 \<Rightarrow> 'd \<Rightarrow> 'd option" where
  "uart_write io port c hw = do {
     hw \<leftarrow> uart_wait_tx io port hw;
     Some (outb io (port + REG_DATA) c hw) }"

section \<open>The serial mouse\<close>

definition COM1 :: u16 where "COM1 = 0x3F8"

record serial_mouse =
  sm_present :: bool
  sm_log :: messages

definition serial_mouse_probe :: "'d ports \<Rightarrow> 'd \<Rightarrow> serial_mouse \<Rightarrow> bool \<times> 'd \<times> serial_mouse" where
  "serial_mouse_probe io hw m =
     (let (ok, hw) = uart_init io COM1 1200 hw in
      if \<not> ok then (False, hw, m)
      else (True, hw, m\<lparr>sm_present := True,
        sm_log := sm_log m @ [(''input microsoft serial mouse on com1'', [])]\<rparr>))"

text \<open>The movement and the buttons a packet adds to; each output may be absent. The sums of
  the callers are taken to stay within \<open>int\<close>.\<close>

record pointer_out =
  out_dx :: "int option"
  out_dy :: "int option"
  out_left :: "bool option"
  out_right :: "bool option"

text \<open>Bitwise operations of C on the non-negative \<open>int\<close> values of bytes.\<close>

definition serial_packet :: "int \<Rightarrow> int \<Rightarrow> int \<Rightarrow> pointer_out \<Rightarrow> pointer_out" where
  "serial_packet b0 b1 b2 p =
     (let sx = push_bit 6 (b0 AND 0x03) OR (b1 AND 0x3F);
          sy = push_bit 4 (b0 AND 0x0C) OR (b2 AND 0x3F);
          sx = (if b1 AND 0x40 \<noteq> 0 then sx - 64 else sx);
          sy = (if b2 AND 0x40 \<noteq> 0 then sy - 64 else sy)
      in p\<lparr>out_dx := map_option (\<lambda>v. v + sx) (out_dx p), out_dy := map_option (\<lambda>v. v + sy) (out_dy p),
           out_left := map_option (\<lambda>v. v \<or> b0 AND 0x20 \<noteq> 0) (out_left p),
           out_right := map_option (\<lambda>v. v \<or> b0 AND 0x10 \<noteq> 0) (out_right p)\<rparr>)"

partial_function (option) serial_drain ::
  "'d ports \<Rightarrow> 'd \<Rightarrow> pointer_out \<Rightarrow> ('d \<times> pointer_out) option" where
  "serial_drain io hw p =
     (let (b0, hw) = uart_read io COM1 hw in
      if b0 < 0 then Some (hw, p)
      else if b0 AND 0xE0 \<noteq> 0x40 then serial_drain io hw p
      else
        let (b1, hw) = uart_read io COM1 hw;
            (b2, hw) = uart_read io COM1 hw in
        if b1 < 0 \<or> b2 < 0 then Some (hw, p)
        else serial_drain io hw (serial_packet b0 b1 b2 p))"

definition serial_mouse_poll ::
  "'d ports \<Rightarrow> 'd \<Rightarrow> serial_mouse \<Rightarrow> pointer_out \<Rightarrow> ('d \<times> pointer_out) option" where
  "serial_mouse_poll io hw m p = (if \<not> sm_present m then Some (hw, p) else serial_drain io hw p)"

section \<open>The touchpad\<close>

record touchpad =
  tp_present :: bool
  tp_log :: messages

fun ack_loop :: "'d ports \<Rightarrow> nat \<Rightarrow> 'd \<Rightarrow> int \<times> 'd" where
  "ack_loop io 0 hw = (- 1, hw)"
| "ack_loop io (Suc n) hw =
     (let (r, hw) = ps2_aux_read io hw in
      if r = 0xFA then (0, hw) else if r \<ge> 0 then (- 1, hw) else ack_loop io n hw)"

definition aux_write_ack :: "'d ports \<Rightarrow> u8 \<Rightarrow> 'd \<Rightarrow> int \<times> 'd" where
  "aux_write_ack io cmd hw =
     (let (ok, hw) = ps2_aux_write io cmd hw in
      if \<not> ok then (- 1, hw) else ack_loop io 1000 hw)"

fun read_byte_loop :: "'d ports \<Rightarrow> nat \<Rightarrow> 'd \<Rightarrow> u8 option \<times> 'd" where
  "read_byte_loop io 0 hw = (None, hw)"
| "read_byte_loop io (Suc n) hw =
     (let (r, hw) = ps2_aux_read io hw in
      if r \<ge> 0 then (Some (of_int r), hw) else read_byte_loop io n hw)"

definition aux_read_byte :: "'d ports \<Rightarrow> 'd \<Rightarrow> u8 option \<times> 'd" where
  "aux_read_byte io hw = read_byte_loop io 1000 hw"

definition read_packet_byte :: "'d ports \<Rightarrow> 'd \<Rightarrow> u8 option \<times> 'd" where
  "read_packet_byte io hw = read_byte_loop io 200 hw"

text \<open>A chain of commands joined by \<open>||\<close>: it stops at the first that fails.\<close>

fun knock :: "'d ports \<Rightarrow> u8 list \<Rightarrow> 'd \<Rightarrow> bool \<times> 'd" where
  "knock io [] hw = (True, hw)"
| "knock io (c # cs) hw =
     (let (r, hw) = aux_write_ack io c hw in if r \<noteq> 0 then (False, hw) else knock io cs hw)"

definition synaptics_probe :: "'d ports \<Rightarrow> 'd \<Rightarrow> touchpad \<Rightarrow> bool \<times> 'd \<times> touchpad" where
  "synaptics_probe io hw t =
     (let (ok, hw) = knock io [0xF3, 0x64, 0xEA, 0xF3, 0x28, 0xEA, 0xF3, 0x14] hw in
      if \<not> ok then (False, hw, t)
      else
        let (ok, hw) = knock io [0xF2] hw in
        if \<not> ok then (False, hw, t)
        else (case aux_read_byte io hw of
            (None, hw) \<Rightarrow> (False, hw, t)
          | (Some id_lo, hw) \<Rightarrow> (case aux_read_byte io hw of
              (None, hw) \<Rightarrow> (False, hw, t)
            | (Some id_hi, hw) \<Rightarrow>
                let model = push_bit 8 (ucast (id_hi AND 0x0F)) OR (ucast id_lo :: u16);
                    t = (if id_hi = 0x47 \<or> drop_bit 8 model = 0x4B
                         then t\<lparr>tp_present := True, tp_log := tp_log t @
                           [(''input synaptics touchpad detected (model %04x)'', [SNum (ucast model)])]\<rparr>
                         else t)
                in (tp_present t, hw, t))))"

fun read_packet :: "'d ports \<Rightarrow> nat \<Rightarrow> 'd \<Rightarrow> u8 list option \<times> 'd" where
  "read_packet io 0 hw = (Some [], hw)"
| "read_packet io (Suc n) hw = (case read_packet_byte io hw of
     (None, hw) \<Rightarrow> (None, hw)
   | (Some b, hw) \<Rightarrow> (case read_packet io n hw of
       (None, hw) \<Rightarrow> (None, hw)
     | (Some bs, hw) \<Rightarrow> (Some (b # bs), hw)))"

definition set_out :: "'a \<Rightarrow> 'a option \<Rightarrow> 'a option" where
  "set_out v p = map_option (\<lambda>_. v) p"

definition synaptics_packet :: "u8 list \<Rightarrow> pointer_out \<Rightarrow> pointer_out" where
  "synaptics_packet b p =
     (let w = (b ! 0 AND 0x04 \<noteq> 0);
          x = push_bit 8 (uint (b ! 3) AND 0x10) OR push_bit 4 (uint (b ! 1)) OR (uint (b ! 3) AND 0x0F);
          y = push_bit 7 (uint (b ! 3) AND 0x20) OR push_bit 4 (uint (b ! 2)) OR (uint (b ! 4) AND 0x0F)
      in p\<lparr>out_dx := (if w then out_dx p else set_out x (out_dx p)),
           out_dy := (if w then out_dy p else set_out y (out_dy p)),
           out_left := set_out (b ! 0 AND 0x01 \<noteq> 0) (out_left p),
           out_right := set_out (b ! 0 AND 0x02 \<noteq> 0) (out_right p)\<rparr>)"

definition synaptics_poll ::
  "'d ports \<Rightarrow> 'd \<Rightarrow> touchpad \<Rightarrow> pointer_out \<Rightarrow> ('d \<times> pointer_out) option" where
  "synaptics_poll io hw t p =
     (if \<not> tp_present t then Some (hw, p)
      else (case read_packet_byte io hw of
          (None, hw) \<Rightarrow> Some (hw, p)
        | (Some b0, hw) \<Rightarrow>
            if b0 AND 0x40 = 0 then do { hw \<leftarrow> ps2_flush_aux io hw; Some (hw, p) }
            else (case read_packet io 5 hw of
                (None, hw) \<Rightarrow> Some (hw, p)
              | (Some bs, hw) \<Rightarrow> Some (hw, synaptics_packet (b0 # bs) p))))"

section \<open>The game port\<close>

definition GAMEPORT :: u16 where "GAMEPORT = 0x201"
definition TIMEOUT :: u32 where "TIMEOUT = 20000"

fun axis_loop :: "'d ports \<Rightarrow> u8 \<Rightarrow> nat \<Rightarrow> u32 \<Rightarrow> 'd \<Rightarrow> u32 \<times> 'd" where
  "axis_loop io m 0 ticks hw = (ticks, hw)"
| "axis_loop io m (Suc n) ticks hw =
     (let (v, hw) = inb io GAMEPORT hw in
      if v AND m = 0 then (ticks, hw) else axis_loop io m n (ticks + 1) hw)"

definition measure_axis :: "'d ports \<Rightarrow> u8 \<Rightarrow> 'd \<Rightarrow> int \<times> 'd" where
  "measure_axis io m hw =
     (let hw = outb io GAMEPORT 0xFF hw;
          (ticks, hw) = axis_loop io m (unat TIMEOUT) 0 hw
      in (if ticks \<ge> TIMEOUT then - 1 else uint ticks, hw))"

definition gameport_probe :: "'d ports \<Rightarrow> 'd \<Rightarrow> bool \<times> 'd" where
  "gameport_probe io hw =
     (let (x, hw) = measure_axis io 0x01 hw in (x > 10 \<and> x < uint TIMEOUT, hw))"

text \<open>The six outputs, each possibly null; \<open>present\<close> is the flag that the probe stored.\<close>

record joystick =
  js_x :: "int option"
  js_y :: "int option"
  js_a :: "bool option"
  js_b :: "bool option"
  js_c :: "bool option"
  js_d :: "bool option"

definition gameport_read :: "'d ports \<Rightarrow> bool \<Rightarrow> 'd \<Rightarrow> joystick \<Rightarrow> bool \<times> 'd \<times> joystick" where
  "gameport_read io present hw j =
     (if \<not> present then (False, hw, j)
      else
        let (bs, hw) = inb io GAMEPORT hw;
            (vx, hw) = measure_axis io 0x01 hw;
            (vy, hw) = measure_axis io 0x02 hw in
        if vx < 0 \<or> vy < 0 then (False, hw, j)
        else (True, hw, \<lparr>js_x = set_out vx (js_x j), js_y = set_out vy (js_y j),
          js_a = set_out (bs AND 0x10 = 0) (js_a j), js_b = set_out (bs AND 0x20 = 0) (js_b j),
          js_c = set_out (bs AND 0x40 = 0) (js_c j), js_d = set_out (bs AND 0x80 = 0) (js_d j)\<rparr>))"

section \<open>Streams of packets\<close>

text \<open>The bytes of a stream, one interrupt each.\<close>

fun mouse_feed :: "bytes \<Rightarrow> mouse \<Rightarrow> mouse option" where
  "mouse_feed [] m = Some m"
| "mouse_feed (b # bs) m = do { m \<leftarrow> mouse_byte b m; mouse_feed bs m }"

lemma mouse_feed_append: "mouse_feed (xs @ ys) m = do { m \<leftarrow> mouse_feed xs m; mouse_feed ys m }"
  by (induction xs arbitrary: m) (auto intro!: Option.bind_cong)

definition between_packets :: "mouse \<Rightarrow> bool" where
  "between_packets m \<longleftrightarrow> pkt_state m = 0 \<and> length (pkt_bytes m) = 3"

lemma length_3: "length b = 3 \<Longrightarrow> \<exists>x y z. b = [x, y, z]"
  by (auto simp: numeral_eq_Suc length_Suc_conv)

lemma mouse_feed_junk:
  assumes "between_packets m" and "\<forall>b \<in> set bs. b AND 0x08 = 0"
  shows "\<exists>xs. mouse_feed bs m = Some (m\<lparr>pkt_bytes := xs\<rparr>) \<and> length xs = 3"
  using assms
proof (induction bs arbitrary: m)
  case (Cons b bs)
  let ?m = "m\<lparr>pkt_bytes := wr8 (pkt_bytes m) 0 b\<rparr>"
  have "mouse_byte b m = Some ?m"
    using Cons.prems by (simp add: mouse_byte_def between_packets_def)
  moreover have "between_packets ?m" using Cons.prems by (simp add: between_packets_def)
  ultimately show ?case using Cons.IH [of ?m] Cons.prems(2) by auto
next
  case Nil
  then show ?case by (intro exI [of _ "pkt_bytes m"]) (simp add: between_packets_def)
qed

lemma mouse_feed_packet:
  assumes "between_packets m" and "a AND 0x08 \<noteq> 0" and "s32_ok (acc_x m + sint b)" and "s32_ok (acc_y m + sint c)"
  shows "\<exists>m'. mouse_feed [a, b, c] m = Some m' \<and> between_packets m' \<and> acc_x m' = acc_x m + sint b \<and>
    acc_y m' = acc_y m + sint c \<and> pkt_count m' = pkt_count m + 1 \<and> buttons m' = a AND 0x07"
proof -
  obtain x y z where "pkt_bytes m = [x, y, z]" using assms(1) length_3 [of "pkt_bytes m"] by (auto simp: between_packets_def)
  then show ?thesis
    using assms
    by (simp add: between_packets_def mouse_byte_def mouse_packet_def wr8_def upd_def rd8_def Let_def)
qed

lemma mouse_stream:
  assumes "between_packets m"
    and "\<forall>(junk, a, b, c) \<in> set pkts. a AND 0x08 \<noteq> 0 \<and> (\<forall>j \<in> set junk. j AND 0x08 = 0)"
    and "\<bar>acc_x m\<bar> + 128 * int (length pkts) < 2 ^ 31" and "\<bar>acc_y m\<bar> + 128 * int (length pkts) < 2 ^ 31"
  shows "\<exists>m'. mouse_feed (concat (map (\<lambda>(junk, a, b, c). junk @ [a, b, c]) pkts)) m = Some m' \<and>
    between_packets m' \<and> acc_x m' = acc_x m + (\<Sum>(junk, a, b, c) \<leftarrow> pkts. sint b) \<and>
    acc_y m' = acc_y m + (\<Sum>(junk, a, b, c) \<leftarrow> pkts. sint c) \<and>
    pkt_count m' = pkt_count m + of_nat (length pkts)"
  using assms
proof (induction pkts arbitrary: m)
  case (Cons p pkts)
  obtain junk a b c where p: "p = (junk, a, b, c)" by (cases p) auto
  have sb: "- 128 \<le> sint b" "sint b < 128" "- 128 \<le> sint c" "sint c < 128"
    using sint_range_size [of b] sint_range_size [of c] by (simp_all add: word_size)
  obtain xs where j: "mouse_feed junk m = Some (m\<lparr>pkt_bytes := xs\<rparr>)" "length xs = 3"
    using mouse_feed_junk [OF Cons.prems(1), of junk] Cons.prems(2) p by auto
  let ?m = "m\<lparr>pkt_bytes := xs\<rparr>"
  have ok: "s32_ok (acc_x m + sint b)" "s32_ok (acc_y m + sint c)"
    using Cons.prems(3,4) sb unfolding s32_ok_def by auto
  obtain m1 where m1: "mouse_feed [a, b, c] ?m = Some m1" "between_packets m1" "acc_x m1 = acc_x m + sint b"
    "acc_y m1 = acc_y m + sint c" "pkt_count m1 = pkt_count m + 1"
    using mouse_feed_packet [of ?m a b c] Cons.prems(1,2) p j(2) ok by (auto simp: between_packets_def)
  have "\<bar>acc_x m1\<bar> + 128 * int (length pkts) < 2 ^ 31" "\<bar>acc_y m1\<bar> + 128 * int (length pkts) < 2 ^ 31"
    using Cons.prems(3,4) sb m1(3,4) by auto
  moreover have "mouse_feed (junk @ [a, b, c] @ rest) m = mouse_feed rest m1" for rest
    by (simp only: mouse_feed_append j(1) m1(1) bind.bind_lunit)
  ultimately show ?case
    using Cons.IH [OF m1(2)] Cons.prems(2) m1(3-5) by (simp add: p add.assoc)
qed simp

text \<open>C24: from a packet boundary the handler decodes any stream of three-byte packets, also with bytes lost
  or inserted between them: bytes that cannot start a packet are skipped, every packet is counted, and the
  totals are the sums of the signed displacements.\<close>

theorem mouse_stream_decoded:
  assumes "pkt_state m = 0" and "length (pkt_bytes m) = 3"
    and "\<forall>(junk, a, b, c) \<in> set pkts. a AND 0x08 \<noteq> 0 \<and> (\<forall>j \<in> set junk. j AND 0x08 = 0)"
    and "\<bar>acc_x m\<bar> + 128 * int (length pkts) < 2 ^ 31" and "\<bar>acc_y m\<bar> + 128 * int (length pkts) < 2 ^ 31"
  shows "\<exists>m'. mouse_feed (concat (map (\<lambda>(junk, a, b, c). junk @ [a, b, c]) pkts)) m = Some m' \<and>
    pkt_state m' = 0 \<and> mouse_packets m' = mouse_packets m + of_nat (length pkts) \<and>
    mouse_dx_total m' = mouse_dx_total m + (\<Sum>(junk, a, b, c) \<leftarrow> pkts. sint b) \<and>
    mouse_dy_total m' = mouse_dy_total m + (\<Sum>(junk, a, b, c) \<leftarrow> pkts. sint c)"
  using mouse_stream [OF _ assms(3-5)] assms(1,2)
  by (auto simp: between_packets_def mouse_packets_def mouse_dx_total_def mouse_dy_total_def)

theorem mouse_stream_decoded_witness:
  "\<exists>m'. mouse_feed [0x40, 0x01, 0x09, 0x05, 0xFE] mouse_boot = Some m' \<and>
    mouse_packets m' = 1 \<and> mouse_dx_total m' = 5 \<and> mouse_dy_total m' = - 2"
  using mouse_stream_decoded [of mouse_boot "[([0x40, 0x01], 0x09, 0x05, 0xFE)]"]
  by (simp add: mouse_boot_def mouse_packets_def mouse_dx_total_def mouse_dy_total_def) blast

section \<open>The left button of the serial mouse\<close>

lemma serial_packet_left:
  assumes "b0 AND 0xE0 = (0x40 :: int)"
  shows "out_left (serial_packet b0 b1 b2 p) = out_left p"
proof -
  have "b0 AND 0x20 = (b0 AND 0xE0) AND 0x20" by (simp add: and.assoc)
  also have "\<dots> = 0" by (simp add: assms)
  finally show ?thesis by (simp add: serial_packet_def Let_def option.map_ident)
qed

lemma serial_drain_left: "serial_drain io hw p = Some (hw', p') \<Longrightarrow> out_left p' = out_left p"
proof -
  have "out_left (snd r) = out_left p" if "serial_drain io hw p = Some r" for r
    by (rule serial_drain.raw_induct [where P = "\<lambda>_ _ p r. out_left (snd r) = out_left p", OF _ that])
      (fastforce simp: case_prod_beta Let_def serial_packet_left split: if_splits)
  then show "serial_drain io hw p = Some (hw', p') \<Longrightarrow> out_left p' = out_left p" by force
qed

text \<open>Polling the serial mouse never reports the left button, whatever the mouse sends: a header byte with
  the bit of that button set fails the test for a header and is skipped.\<close>

theorem serial_mouse_left_never:
  assumes "serial_mouse_poll io hw m p = Some (hw', p')"
  shows "out_left p' = out_left p"
  using assms serial_drain_left by (auto simp: serial_mouse_poll_def split: if_splits)

text \<open>A port whose receiver holds a list of bytes: a click of the left button without movement.\<close>

definition uart_queue :: "u8 list ports" where
  "uart_queue = \<lparr>inb = \<lambda>p q. if p = COM1 + REG_LSR then (if q = [] then 0 else LSR_RX_READY, q) else (hd q, tl q),
     outb = \<lambda>p v q. q, inw = \<lambda>p q. (0, q), outw = \<lambda>p v q. q, inl = \<lambda>p q. (0, q), outl = \<lambda>p v q. q\<rparr>"

theorem serial_mouse_left_never_witness:
  "\<exists>hw p. serial_mouse_poll uart_queue [0x60, 0x00, 0x00] \<lparr>sm_present = True, sm_log = []\<rparr>
       \<lparr>out_dx = Some 0, out_dy = Some 0, out_left = Some False, out_right = None\<rparr> = Some (hw, p) \<and>
     out_left p = Some False"
proof -
  let ?p = "\<lparr>out_dx = Some 0, out_dy = Some 0, out_left = Some False, out_right = None\<rparr>"
  obtain hw p where r: "serial_mouse_poll uart_queue [0x60, 0x00, 0x00] \<lparr>sm_present = True, sm_log = []\<rparr> ?p = Some (hw, p)"
    by (simp add: serial_mouse_poll_def serial_drain.simps uart_read_def uart_queue_def COM1_def REG_LSR_def
        REG_DATA_def LSR_RX_READY_def)
  from serial_mouse_left_never [OF r] r show ?thesis by auto
qed

end
