(* ===== verification/Pmm.thy ===== *)
theory Pmm
  imports Kstring Bitmap
begin

text \<open>
  The physical memory managers \<open>arch/x86/pmm.c\<close> and \<open>arch/x86_64/pmm.c\<close>. The two files have the same
  text over 32-bit and 64-bit words, with different limits and boot information: the frame bitmap and
  the operations on it are written once over words of any length, the limit being an argument, and
  the two files are their instances. The memory that the boot loader filled is a function from
  addresses to bytes.
\<close>

section \<open>The frame bitmap\<close>

record 'w pmm =
  frame_map :: "'w list"
  highest_frame :: 'w

definition bitmap_set :: "'w::len word list \<Rightarrow> 'w word \<Rightarrow> 'w word list option" where
  "bitmap_set bm f =
     (let i = unat f div LENGTH('w) in
      if i < length bm then Some (bm[i := bm ! i OR push_bit (unat f mod LENGTH('w)) 1]) else None)"

definition bitmap_clear :: "'w::len word list \<Rightarrow> 'w word \<Rightarrow> 'w word list option" where
  "bitmap_clear bm f =
     (let i = unat f div LENGTH('w) in
      if i < length bm then Some (bm[i := bm ! i AND NOT (push_bit (unat f mod LENGTH('w)) 1)]) else None)"

definition bitmap_test :: "'w::len word list \<Rightarrow> 'w word \<Rightarrow> bool option" where
  "bitmap_test bm f =
     (let i = unat f div LENGTH('w) in
      if i < length bm then Some (drop_bit (unat f mod LENGTH('w)) (bm ! i) AND 1 \<noteq> 0) else None)"

definition frame_size :: "'w::len word" where "frame_size = 4096"

text \<open>The loop from \<open>f\<close> on for \<open>n\<close> frames.\<close>

fun reserve_frames :: "nat \<Rightarrow> 'w::len word \<Rightarrow> 'w word pmm \<Rightarrow> 'w word pmm option" where
  "reserve_frames 0 f p = Some p"
| "reserve_frames (Suc n) f p = do {
     bm \<leftarrow> bitmap_set (frame_map p) f;
     reserve_frames n (f + 1) (p\<lparr>frame_map := bm\<rparr>) }"

definition reserve_range_of ::
  "'w::len word \<Rightarrow> 'w word \<Rightarrow> 'w word \<Rightarrow> 'w word pmm \<Rightarrow> 'w word pmm option" where
  "reserve_range_of max_frames phys_start phys_end p =
     (let fst_f = phys_start div frame_size;
          last_f = (phys_end + frame_size - 1) div frame_size;
          last_f = (if last_f > max_frames then max_frames else last_f)
      in reserve_frames (unat last_f - unat fst_f) fst_f p)"

fun free_frames :: "nat \<Rightarrow> 'w::len word \<Rightarrow> 'w word pmm \<Rightarrow> 'w word pmm option" where
  "free_frames 0 f p = Some p"
| "free_frames (Suc n) f p = do {
     bm \<leftarrow> bitmap_clear (frame_map p) f;
     free_frames n (f + 1) (p\<lparr>frame_map := bm,
       highest_frame := (if f > highest_frame p then f else highest_frame p)\<rparr>) }"

definition free_range_of ::
  "'w::len word \<Rightarrow> 'w word \<Rightarrow> 'w word \<Rightarrow> 'w word pmm \<Rightarrow> 'w word pmm option" where
  "free_range_of max_frames phys_start phys_end p =
     (let fst_f = phys_start div frame_size;
          last_f = phys_end div frame_size;
          last_f = (if last_f > max_frames then max_frames else last_f)
      in free_frames (unat last_f - unat fst_f) fst_f p)"

fun alloc_scan :: "nat \<Rightarrow> 'w::len word \<Rightarrow> 'w word pmm \<Rightarrow> ('w word \<times> 'w word pmm) option" where
  "alloc_scan 0 f p = Some (0, p)"
| "alloc_scan (Suc n) f p = do {
     t \<leftarrow> bitmap_test (frame_map p) f;
     if \<not> t then do {
       bm \<leftarrow> bitmap_set (frame_map p) f;
       Some (f * frame_size, p\<lparr>frame_map := bm\<rparr>) }
     else alloc_scan n (f + 1) p }"

text \<open>The loop runs over the frames up to \<open>highest_frame\<close>, included.\<close>

definition alloc_frame_of :: "'w::len word pmm \<Rightarrow> ('w word \<times> 'w word pmm) option" where
  "alloc_frame_of p = alloc_scan (unat (highest_frame p) + 1) 0 p"

definition free_frame_of :: "'w::len word \<Rightarrow> 'w word pmm \<Rightarrow> 'w word pmm option" where
  "free_frame_of phys_addr p = do {
     bm \<leftarrow> bitmap_clear (frame_map p) (phys_addr div frame_size);
     Some (p\<lparr>frame_map := bm\<rparr>) }"

section \<open>arch/x86\<close>

definition MAX_FRAMES :: u32 where "MAX_FRAMES = 131072"
definition BITMAP_WORDS :: nat where "BITMAP_WORDS = 4096"

record multiboot_info =
  mb_flags :: u32
  mem_lower :: u32
  mem_upper :: u32
  mmap_length :: u32
  mmap_addr :: u32

definition MB_FLAG_MEM :: u32 where "MB_FLAG_MEM = push_bit 0 1"
definition MB_FLAG_MMAP :: u32 where "MB_FLAG_MMAP = push_bit 6 1"
definition MB_MMAP_AVAILABLE :: u32 where "MB_MMAP_AVAILABLE = 1"

definition mem32 :: "memory \<Rightarrow> nat \<Rightarrow> u32" where
  "mem32 mem a = rd32 (load_bytes mem a 4) 0"

definition mem64 :: "memory \<Rightarrow> nat \<Rightarrow> u64" where
  "mem64 mem a = ucast (mem32 mem a) OR push_bit 32 (ucast (mem32 mem (a + 4)))"

text \<open>An entry of the memory map is at its physical address: \<open>size\<close>, \<open>addr_low\<close>, \<open>addr_high\<close>,
  \<open>len_low\<close>, \<open>len_high\<close>, \<open>type\<close>.\<close>

partial_function (option) walk_mmap ::
  "memory \<Rightarrow> u32 \<Rightarrow> u32 \<Rightarrow> u32 \<Rightarrow> u32 pmm \<Rightarrow> (u32 \<times> u32 pmm) option" where
  "walk_mmap mem lim off usable_kb p =
     (if off < lim then
        let e = unat off in
        if mem32 mem (e + 20) = MB_MMAP_AVAILABLE \<and> mem32 mem (e + 8) = 0 then
          (let start = mem32 mem (e + 4); len = mem32 mem (e + 12) in
           do { p \<leftarrow> free_range_of MAX_FRAMES start (start + len) p;
                walk_mmap mem lim (off + (mem32 mem e + 4)) (usable_kb + len div 1024) p })
        else walk_mmap mem lim (off + (mem32 mem e + 4)) usable_kb p
      else Some (usable_kb, p))"

definition pmm_init :: "memory \<Rightarrow> u32 \<Rightarrow> multiboot_info \<Rightarrow> u32 pmm \<Rightarrow> (u32 \<times> u32 pmm) option" where
  "pmm_init mem kernel_end mbi p = do {
     let p = p\<lparr>frame_map := replicate BITMAP_WORDS 0xFFFFFFFF\<rparr>;
     (usable_kb, p) \<leftarrow>
       (if mb_flags mbi AND MB_FLAG_MMAP \<noteq> 0
        then walk_mmap mem (mmap_addr mbi + mmap_length mbi) (mmap_addr mbi) 0 p
        else if mb_flags mbi AND MB_FLAG_MEM \<noteq> 0 then do {
          p \<leftarrow> free_range_of MAX_FRAMES 0 (mem_lower mbi * 1024) p;
          p \<leftarrow> free_range_of MAX_FRAMES (1024 * 1024) (1024 * 1024 + mem_upper mbi * 1024) p;
          Some (mem_lower mbi + mem_upper mbi, p) }
        else Some (0, p));
     p \<leftarrow> reserve_range_of MAX_FRAMES 0 (1024 * 1024) p;
     p \<leftarrow> reserve_range_of MAX_FRAMES (1024 * 1024) kernel_end p;
     Some (usable_kb, p) }"

definition pmm_reserve :: "u32 \<Rightarrow> u32 \<Rightarrow> u32 pmm \<Rightarrow> u32 pmm option" where
  "pmm_reserve phys_start phys_end p = reserve_range_of MAX_FRAMES phys_start phys_end p"

definition pmm_alloc_frame :: "u32 pmm \<Rightarrow> (u32 \<times> u32 pmm) option" where
  "pmm_alloc_frame p = alloc_frame_of p"

definition pmm_free_frame :: "u32 \<Rightarrow> u32 pmm \<Rightarrow> u32 pmm option" where
  "pmm_free_frame phys_addr p = free_frame_of phys_addr p"

section \<open>arch/x86_64\<close>

definition MAX_FRAMES64 :: u64 where "MAX_FRAMES64 = 512 * 1024"
definition BITMAP_WORDS64 :: nat where "BITMAP_WORDS64 = 8192"

definition MB2_TAG_END :: u32 where "MB2_TAG_END = 0"
definition MB2_TAG_MMAP :: u32 where "MB2_TAG_MMAP = 6"
definition MB2_MMAP_AVAILABLE :: u32 where "MB2_MMAP_AVAILABLE = 1"

text \<open>The entries of a memory-map tag: \<open>base_addr\<close>, \<open>length\<close>, \<open>type\<close>, in steps of \<open>entry_size\<close>.\<close>

partial_function (option) walk_entries64 ::
  "memory \<Rightarrow> u64 \<Rightarrow> u32 \<Rightarrow> u64 \<Rightarrow> u64 \<Rightarrow> u64 pmm \<Rightarrow> (u64 \<times> u64 pmm) option" where
  "walk_entries64 mem lim entry_size e usable_kb p =
     (if e < lim then
        if mem32 mem (unat e + 16) = MB2_MMAP_AVAILABLE then
          (let base = mem64 mem (unat e); len = mem64 mem (unat e + 8) in
           do { p \<leftarrow> free_range_of MAX_FRAMES64 base (base + len) p;
                walk_entries64 mem lim entry_size (e + ucast entry_size) (usable_kb + len div 1024) p })
        else walk_entries64 mem lim entry_size (e + ucast entry_size) usable_kb p
      else Some (usable_kb, p))"

partial_function (option) walk_tags64 ::
  "memory \<Rightarrow> u64 \<Rightarrow> u64 \<Rightarrow> u64 pmm \<Rightarrow> (u64 \<times> u64 pmm) option" where
  "walk_tags64 mem tag usable_kb p =
     (let ty = mem32 mem (unat tag); sz = mem32 mem (unat tag + 4) in
      if ty \<noteq> MB2_TAG_END then do {
        (usable_kb, p) \<leftarrow>
          (if ty = MB2_TAG_MMAP
           then walk_entries64 mem (tag + ucast sz) (mem32 mem (unat tag + 8)) (tag + 16) usable_kb p
           else Some (usable_kb, p));
        walk_tags64 mem ((tag + ucast sz + 7) AND NOT 7) usable_kb p }
      else Some (usable_kb, p))"

definition pmm_init64 :: "memory \<Rightarrow> u64 \<Rightarrow> u64 \<Rightarrow> u64 pmm \<Rightarrow> (u64 \<times> u64 pmm) option" where
  "pmm_init64 mem kernel_end mbi p = do {
     let p = p\<lparr>frame_map := replicate BITMAP_WORDS64 (NOT 0)\<rparr>;
     (usable_kb, p) \<leftarrow> walk_tags64 mem (mbi + 8) 0 p;
     p \<leftarrow> reserve_range_of MAX_FRAMES64 0 (1024 * 1024) p;
     p \<leftarrow> reserve_range_of MAX_FRAMES64 (1024 * 1024) kernel_end p;
     Some (usable_kb, p) }"

definition pmm_reserve64 :: "u64 \<Rightarrow> u64 \<Rightarrow> u64 pmm \<Rightarrow> u64 pmm option" where
  "pmm_reserve64 start finish p = reserve_range_of MAX_FRAMES64 start finish p"

definition pmm_alloc_frame64 :: "u64 pmm \<Rightarrow> (u64 \<times> u64 pmm) option" where
  "pmm_alloc_frame64 p = alloc_frame_of p"

definition pmm_free_frame64 :: "u64 \<Rightarrow> u64 pmm \<Rightarrow> u64 pmm option" where
  "pmm_free_frame64 phys_addr p = free_frame_of phys_addr p"

section \<open>The bitmap keeps its laws\<close>

lemma bitmap_test_eq:
  "bitmap_test bm f = (if unat f div LENGTH('w) < length bm
     then Some (bit (bm ! (unat f div LENGTH('w))) (unat f mod LENGTH('w))) else None)"
  for f :: "'w::len word"
  by (simp add: bitmap_test_def Let_def bit_iff_and_drop_bit_eq_1 and_one_eq odd_iff_mod_2_eq_one)

lemma frame_eq_iff:
  "f = g \<longleftrightarrow> unat f div LENGTH('w) = unat g div LENGTH('w) \<and> unat f mod LENGTH('w) = unat g mod LENGTH('w)"
  for f g :: "'w::len word"
  by (metis mult_div_mod_eq unat_eq_iff_word)

interpretation frames: bitmap bitmap_test bitmap_set bitmap_clear
proof
  fix b :: "'w::len word list" and i v
  assume "bitmap_test b i = Some v"
  then have i: "unat i div LENGTH('w) < length b" by (simp add: bitmap_test_eq split: if_splits)
  have m: "unat j mod LENGTH('w) < LENGTH('w)" for j :: "'w word" by simp
  show "\<exists>b'. bitmap_set b i = Some b' \<and> (\<forall>j. bitmap_test b' j = (if j = i then Some True else bitmap_test b j))"
    using i m by (auto simp: bitmap_set_def Let_def bitmap_test_eq nth_list_update bit_simps frame_eq_iff [of _ i])
  show "\<exists>b'. bitmap_clear b i = Some b' \<and> (\<forall>j. bitmap_test b' j = (if j = i then Some False else bitmap_test b j))"
    using i m by (auto simp: bitmap_clear_def Let_def bitmap_test_eq nth_list_update bit_simps frame_eq_iff [of _ i])
qed (auto simp: bitmap_set_def bitmap_clear_def bitmap_test_eq Let_def split: if_splits)

section \<open>What the loops do\<close>

definition pmm_ok :: "'w::len word \<Rightarrow> 'w word pmm \<Rightarrow> bool" where
  "pmm_ok max_frames p \<longleftrightarrow>
     LENGTH('w) * length (frame_map p) = unat max_frames \<and> highest_frame p < max_frames"

abbreviation frame_bit :: "'w::len word pmm \<Rightarrow> 'w word \<Rightarrow> bool option" where
  "frame_bit p f \<equiv> bitmap_test (frame_map p) f"

lemma frame_inside:
  assumes "pmm_ok m p" and "f < m"
  shows "\<exists>v. frame_bit p f = Some v"
  using assms by (auto simp: bitmap_test_eq pmm_ok_def word_less_nat_alt div_less_iff_less_mult mult.commute)

lemma frame_outside:
  assumes "pmm_ok m p" and "\<not> f < m"
  shows "frame_bit p f = None"
  using assms by (auto simp: bitmap_test_eq pmm_ok_def word_less_nat_alt div_less_iff_less_mult mult.commute)

lemma length_bitmap_set: "bitmap_set bm f = Some bm' \<Longrightarrow> length bm' = length bm"
  by (auto simp: bitmap_set_def Let_def split: if_splits)

lemma length_bitmap_clear: "bitmap_clear bm f = Some bm' \<Longrightarrow> length bm' = length bm"
  by (auto simp: bitmap_clear_def Let_def split: if_splits)

lemma unat_Suc: "unat f + Suc n \<le> unat (m :: 'w::len word) \<Longrightarrow> unat (f + 1 :: 'w word) = unat f + 1"
proof -
  assume "unat f + Suc n \<le> unat m"
  moreover have "unat m < 2 ^ LENGTH('w)" by (rule unsigned_less)
  ultimately have "unat f + 1 < 2 ^ LENGTH('w)" by linarith
  then show ?thesis by (subst unat_add_small) (auto simp: unat_1)
qed

lemma reserve_frames_spec:
  assumes "pmm_ok m p" and "unat f + n \<le> unat m"
  shows "\<exists>p'. reserve_frames n f p = Some p' \<and> pmm_ok m p' \<and> highest_frame p' = highest_frame p \<and>
    (\<forall>g. frame_bit p' g = (if unat f \<le> unat g \<and> unat g < unat f + n then Some True else frame_bit p g))"
  using assms
proof (induction n arbitrary: f p)
  case (Suc n)
  have "f < m" using Suc.prems(2) by (simp add: word_less_nat_alt)
  then obtain v bm where bm: "frame_bit p f = Some v" "bitmap_set (frame_map p) f = Some bm"
    using frame_inside [OF Suc.prems(1)] frames.mark_law by metis
  let ?p = "p\<lparr>frame_map := bm\<rparr>"
  have ok: "pmm_ok m ?p" using Suc.prems(1) length_bitmap_set [OF bm(2)] by (simp add: pmm_ok_def)
  note s = unat_Suc [OF Suc.prems(2)]
  obtain p' where p': "reserve_frames n (f + 1) ?p = Some p'" "pmm_ok m p'" "highest_frame p' = highest_frame p"
    "\<forall>g. frame_bit p' g = (if unat f + 1 \<le> unat g \<and> unat g < unat f + 1 + n then Some True else frame_bit ?p g)"
    using Suc.IH [OF ok, of "f + 1"] Suc.prems(2) s by auto
  have "frame_bit p' g = (if unat f \<le> unat g \<and> unat g < unat f + Suc n then Some True else frame_bit p g)" for g
    using p'(4) frames.test_mark [OF bm(2), of g] by (cases rule: linorder_cases [of "unat f" "unat g"]) auto
  with p' bm(2) show ?case by simp
qed auto

lemma free_frames_spec:
  assumes "pmm_ok m p" and "unat f + n \<le> unat m"
  shows "\<exists>p'. free_frames n f p = Some p' \<and> pmm_ok m p' \<and>
    (\<forall>g. frame_bit p' g = (if unat f \<le> unat g \<and> unat g < unat f + n then Some False else frame_bit p g))"
  using assms
proof (induction n arbitrary: f p)
  case (Suc n)
  have f: "f < m" using Suc.prems(2) by (simp add: word_less_nat_alt)
  then obtain v bm where bm: "frame_bit p f = Some v" "bitmap_clear (frame_map p) f = Some bm"
    using frame_inside [OF Suc.prems(1)] frames.unmark_law by metis
  let ?p = "p\<lparr>frame_map := bm, highest_frame := (if f > highest_frame p then f else highest_frame p)\<rparr>"
  have ok: "pmm_ok m ?p" using Suc.prems(1) length_bitmap_clear [OF bm(2)] f by (simp add: pmm_ok_def)
  note s = unat_Suc [OF Suc.prems(2)]
  obtain p' where p': "free_frames n (f + 1) ?p = Some p'" "pmm_ok m p'"
    "\<forall>g. frame_bit p' g = (if unat f + 1 \<le> unat g \<and> unat g < unat f + 1 + n then Some False else frame_bit ?p g)"
    using Suc.IH [OF ok, of "f + 1"] Suc.prems(2) s by auto
  have "frame_bit p' g = (if unat f \<le> unat g \<and> unat g < unat f + Suc n then Some False else frame_bit p g)" for g
    using p'(3) frames.test_unmark [OF bm(2), of g] by (cases rule: linorder_cases [of "unat f" "unat g"]) auto
  with p' bm(2) show ?case by simp
qed auto

lemma alloc_scan_spec:
  assumes "pmm_ok m p" and "unat f + n \<le> unat m"
  shows "\<exists>a p'. alloc_scan n f p = Some (a, p') \<and>
    (a = 0 \<and> p' = p \<and> (\<forall>g. unat f \<le> unat g \<and> unat g < unat f + n \<longrightarrow> frame_bit p g = Some True) \<or>
     (\<exists>g bm. a = g * frame_size \<and> unat f \<le> unat g \<and> unat g < unat f + n \<and> frame_bit p g = Some False \<and>
       bitmap_set (frame_map p) g = Some bm \<and> p' = p\<lparr>frame_map := bm\<rparr> \<and>
       (\<forall>k. unat f \<le> unat k \<and> k < g \<longrightarrow> frame_bit p k = Some True)))"
  using assms
proof (induction n arbitrary: f)
  case (Suc n)
  have "f < m" using Suc.prems(2) by (simp add: word_less_nat_alt)
  then obtain v bm where bm: "frame_bit p f = Some v" "bitmap_set (frame_map p) f = Some bm"
    using frame_inside [OF Suc.prems(1)] frames.mark_law by metis
  note s = unat_Suc [OF Suc.prems(2)]
  show ?case
  proof (cases v)
    case False
    then show ?thesis
      by (rule_tac x = "f * frame_size" in exI, rule_tac x = "p\<lparr>frame_map := bm\<rparr>" in exI,
          intro conjI disjI2 exI [of _ f] exI [of _ bm]) (use bm in \<open>auto simp: word_less_nat_alt\<close>)
  next
    case True
    have step: "frame_bit p k = Some True" if "unat f \<le> unat k" "unat f + 1 \<le> unat k \<longrightarrow> frame_bit p k = Some True" for k
      using that bm(1) True by (cases rule: linorder_cases [of "unat f" "unat k"]) auto
    have nxt: "unat (f + 1) + n \<le> unat m" using Suc.prems(2) s by simp
    have scan: "alloc_scan (Suc n) f p = alloc_scan n (f + 1) p" using bm(1) True by simp
    obtain a p' where "alloc_scan n (f + 1) p = Some (a, p')" and
      "a = 0 \<and> p' = p \<and> (\<forall>g. unat f + 1 \<le> unat g \<and> unat g < unat f + 1 + n \<longrightarrow> frame_bit p g = Some True) \<or>
       (\<exists>g bm. a = g * frame_size \<and> unat f + 1 \<le> unat g \<and> unat g < unat f + 1 + n \<and> frame_bit p g = Some False \<and>
         bitmap_set (frame_map p) g = Some bm \<and> p' = p\<lparr>frame_map := bm\<rparr> \<and>
         (\<forall>k. unat f + 1 \<le> unat k \<and> k < g \<longrightarrow> frame_bit p k = Some True))"
      using Suc.IH [OF Suc.prems(1) nxt] unfolding s by blast
    then show ?thesis
    proof (elim disjE exE conjE)
      assume "alloc_scan n (f + 1) p = Some (a, p')" "a = 0" "p' = p"
        "\<forall>g. unat f + 1 \<le> unat g \<and> unat g < unat f + 1 + n \<longrightarrow> frame_bit p g = Some True"
      then have "frame_bit p g = Some True" if "unat f \<le> unat g" "unat g < unat f + Suc n" for g
        using step [of g] that by auto
      with \<open>a = 0\<close> \<open>p' = p\<close> \<open>alloc_scan n (f + 1) p = Some (a, p')\<close> show ?thesis
        unfolding scan by blast
    next
      fix g bm
      assume *: "alloc_scan n (f + 1) p = Some (a, p')" "a = g * frame_size" "unat f + 1 \<le> unat g"
        "unat g < unat f + 1 + n" "frame_bit p g = Some False" "bitmap_set (frame_map p) g = Some bm"
        "p' = p\<lparr>frame_map := bm\<rparr>" "\<forall>k. unat f + 1 \<le> unat k \<and> k < g \<longrightarrow> frame_bit p k = Some True"
      have below: "\<forall>k. unat f \<le> unat k \<and> k < g \<longrightarrow> frame_bit p k = Some True"
        using step *(8) by blast
      show ?thesis
        unfolding scan
        by (rule exI [of _ a], rule exI [of _ p'], intro conjI disjI2 exI [of _ g] exI [of _ bm])
          (use * below in simp_all)
    qed
  qed
qed auto

section \<open>Frames that are handed out\<close>

lemma unat_frame_size: "12 < LENGTH('w) \<Longrightarrow> unat (frame_size :: 'w::len word) = 4096"
proof -
  assume "12 < LENGTH('w)"
  then have "unat (2 ^ 12 :: 'w word) = 2 ^ 12" by (rule unat_pow2)
  then show ?thesis by (simp add: frame_size_def)
qed

lemma frame_of: "12 < LENGTH('w) \<Longrightarrow> unat (a div frame_size) = unat a div 4096" for a :: "'w::len word"
  by (simp add: unat_div_distrib unat_frame_size)

lemma reserve_range_spec:
  fixes lo hi :: "'w::len word"
  assumes ok: "pmm_ok m p" and len: "12 < LENGTH('w)" and hi: "unat hi + 4095 < 2 ^ LENGTH('w)"
  shows "\<exists>p'. reserve_range_of m lo hi p = Some p' \<and> pmm_ok m p' \<and>
    (\<forall>g. frame_bit p' g = (if unat lo div 4096 \<le> unat g \<and> unat g < (unat hi + 4095) div 4096 \<and> g < m
       then Some True else frame_bit p g))"
proof -
  let ?l = "(hi + frame_size - 1) div frame_size"
  have e: "hi + frame_size - 1 = hi + of_nat 4095" by (simp add: frame_size_def)
  have t: "take_bit LENGTH('w) (4095 :: nat) = 4095" using hi by (intro take_bit_nat_eq_self) linarith
  have "unat (hi + of_nat 4095) = unat hi + 4095"
    using hi by (subst unat_add_small) (auto simp: t)
  then have l: "unat ?l = (unat hi + 4095) div 4096" unfolding e frame_of [OF len] by simp
  let ?last = "if ?l > m then m else ?l"
  have last: "unat ?last = min ((unat hi + 4095) div 4096) (unat m)"
    using l by (simp add: word_less_nat_alt)
  let ?n = "unat ?last - unat (lo div frame_size)"
  have n: "?n = min ((unat hi + 4095) div 4096) (unat m) - unat lo div 4096"
    by (simp only: last frame_of [OF len])
  have eq: "(unat lo div 4096 \<le> unat g \<and> unat g < unat lo div 4096 + ?n) \<longleftrightarrow>
      (unat lo div 4096 \<le> unat g \<and> unat g < (unat hi + 4095) div 4096 \<and> g < m)" for g
    unfolding n unfolding word_less_nat_alt by linarith
  consider "?n = 0" | "unat (lo div frame_size) + ?n \<le> unat m" unfolding n unfolding frame_of [OF len] by linarith
  then have "\<exists>p'. reserve_frames ?n (lo div frame_size) p = Some p' \<and> pmm_ok m p' \<and>
    (\<forall>g. frame_bit p' g = (if unat lo div 4096 \<le> unat g \<and> unat g < unat lo div 4096 + ?n then Some True else frame_bit p g))"
  proof cases
    case 1
    then show ?thesis using ok by (simp only: 1 reserve_frames.simps) auto
  next
    case 2
    from reserve_frames_spec [OF ok 2] show ?thesis unfolding frame_of [OF len] by blast
  qed
  then show ?thesis unfolding reserve_range_of_def Let_def eq .
qed

lemma reserve_range_keeps:
  fixes p :: "'w::len word pmm"
  assumes ok: "pmm_ok m p" and res: "reserve_range_of m lo hi p = Some p'"
  shows "pmm_ok m p' \<and> (\<forall>g. frame_bit p g = Some True \<longrightarrow> frame_bit p' g = Some True)"
proof -
  have "pmm_ok m p' \<and> (\<forall>g. frame_bit p g = Some True \<longrightarrow> frame_bit p' g = Some True)"
    if "reserve_frames n f p = Some p'" "pmm_ok m p" for n f p
    using that
  proof (induction n arbitrary: f p)
    case (Suc n)
    then obtain bm where bm: "bitmap_set (frame_map p) f = Some bm"
      "reserve_frames n (f + 1) (p\<lparr>frame_map := bm\<rparr>) = Some p'" by (auto simp: bind_simps)
    have ok: "pmm_ok m (p\<lparr>frame_map := bm\<rparr>)"
      using Suc.prems(2) length_bitmap_set [OF bm(1)] by (simp add: pmm_ok_def)
    from Suc.IH [OF bm(2) ok] frames.test_mark [OF bm(1)] show ?case by auto
  qed simp
  then show ?thesis using res ok unfolding reserve_range_of_def Let_def by blast
qed

lemma free_range_ok:
  fixes p :: "'w::len word pmm"
  assumes ok: "pmm_ok m p" and len: "12 < LENGTH('w)"
  shows "\<exists>p'. free_range_of m lo hi p = Some p' \<and> pmm_ok m p'"
proof -
  let ?l = "hi div frame_size"
  let ?last = "if ?l > m then m else ?l"
  let ?n = "unat ?last - unat (lo div frame_size)"
  have "unat ?last \<le> unat m" by (simp add: word_less_nat_alt)
  then consider "?n = 0" | "unat (lo div frame_size) + ?n \<le> unat m" by linarith
  then have "\<exists>p'. free_frames ?n (lo div frame_size) p = Some p' \<and> pmm_ok m p'"
  proof cases
    case 1
    then show ?thesis using ok by (simp only: 1 free_frames.simps) auto
  next
    case 2
    from free_frames_spec [OF ok 2] show ?thesis by blast
  qed
  then show ?thesis unfolding free_range_of_def Let_def .
qed

text \<open>The states that a booted manager can reach, with the addresses that are handed out and not yet
  given back.\<close>

inductive frames_reach :: "'w::len word \<Rightarrow> ('w word pmm \<Rightarrow> bool) \<Rightarrow> 'w word pmm \<Rightarrow> 'w word set \<Rightarrow> bool"
  for m booted where
  boot: "booted p \<Longrightarrow> frames_reach m booted p {}"
| reserve: "frames_reach m booted p live \<Longrightarrow> reserve_range_of m lo hi p = Some p' \<Longrightarrow>
    frames_reach m booted p' live"
| alloc: "frames_reach m booted p live \<Longrightarrow> alloc_frame_of p = Some (a, p') \<Longrightarrow> a \<noteq> 0 \<Longrightarrow>
    frames_reach m booted p' (insert a live)"
| free: "frames_reach m booted p live \<Longrightarrow> a \<in> live \<Longrightarrow> free_frame_of a p = Some p' \<Longrightarrow>
    frames_reach m booted p' (live - {a})"

text \<open>The invariant, for a limit \<open>m\<close> and a number \<open>kl\<close> of frames that are never free: these frames
  are marked, and so are the live ones, which lie above.\<close>

definition pool_inv :: "'w::len word \<Rightarrow> nat \<Rightarrow> 'w word pmm \<Rightarrow> 'w word set \<Rightarrow> bool" where
  "pool_inv m kl p live \<longleftrightarrow> pmm_ok m p \<and>
     (\<forall>f. f < m \<and> unat f < kl \<longrightarrow> frame_bit p f = Some True) \<and>
     (\<forall>a \<in> live. a = (a div frame_size) * frame_size \<and> kl * 4096 \<le> unat a \<and>
        frame_bit p (a div frame_size) = Some True)"

lemma alloc_frame_spec:
  fixes p :: "'w::len word pmm"
  assumes inv: "pool_inv m kl p live" and kl: "0 < kl" and len: "12 < LENGTH('w)"
    and m: "unat m * 4096 \<le> 2 ^ LENGTH('w)"
  shows "\<exists>a p'. alloc_frame_of p = Some (a, p') \<and>
    (a = 0 \<and> p' = p \<and> (\<forall>f. f \<le> highest_frame p \<longrightarrow> frame_bit p f = Some True) \<or>
     a \<noteq> 0 \<and> a \<notin> live \<and> kl * 4096 \<le> unat a \<and> unat a mod 4096 = 0 \<and> pool_inv m kl p' (insert a live))"
proof -
  have ok: "pmm_ok m p" and low: "\<And>f. f < m \<Longrightarrow> unat f < kl \<Longrightarrow> frame_bit p f = Some True"
    using inv by (auto simp: pool_inv_def)
  have hf: "highest_frame p < m" using ok by (simp add: pmm_ok_def)
  then have "unat (0 :: 'w word) + (unat (highest_frame p) + 1) \<le> unat m" by (simp add: word_less_nat_alt)
  from alloc_scan_spec [OF ok this] obtain a p' where al: "alloc_frame_of p = Some (a, p')" and
    cs: "a = 0 \<and> p' = p \<and> (\<forall>g. unat g < unat (highest_frame p) + 1 \<longrightarrow> frame_bit p g = Some True) \<or>
     (\<exists>g bm. a = g * frame_size \<and> unat g < unat (highest_frame p) + 1 \<and> frame_bit p g = Some False \<and>
       bitmap_set (frame_map p) g = Some bm \<and> p' = p\<lparr>frame_map := bm\<rparr>)"
    unfolding alloc_frame_of_def by auto
  show ?thesis
    using cs
  proof (elim disjE exE conjE)
    assume "a = 0" "p' = p" "\<forall>g. unat g < unat (highest_frame p) + 1 \<longrightarrow> frame_bit p g = Some True"
    then show ?thesis using al by (auto simp: word_le_nat_alt)
  next
    fix g bm
    assume g: "a = g * frame_size" "unat g < unat (highest_frame p) + 1" "frame_bit p g = Some False"
      "bitmap_set (frame_map p) g = Some bm" "p' = p\<lparr>frame_map := bm\<rparr>"
    have gm: "g < m" using g(2) hf by (simp add: word_less_nat_alt)
    have gk: "kl \<le> unat g" using low [OF gm] g(3) by fastforce
    have ua: "unat a = unat g * 4096"
    proof -
      have "unat g * 4096 < unat m * 4096" using gm by (simp add: word_less_nat_alt)
      then show ?thesis using m by (simp add: g(1) unat_mult_small unat_frame_size [OF len])
    qed
    have div: "a div frame_size = g"
      by (rule word_unat_eq_iff [THEN iffD2]) (simp add: frame_of [OF len] ua)
    have ok': "pmm_ok m p'" using ok length_bitmap_set [OF g(4)] by (simp add: g(5) pmm_ok_def)
    have bits: "frame_bit p' f = (if f = g then Some True else frame_bit p f)" for f
      using frames.test_mark [OF g(4)] by (simp add: g(5))
    have nl: "a \<notin> live" using inv g(3) div by (auto simp: pool_inv_def)
    have "a = (a div frame_size) * frame_size \<and> kl * 4096 \<le> unat a \<and>
        frame_bit p' (a div frame_size) = Some True" using div g(1) ua gk bits by simp
    moreover have "\<forall>f. f < m \<and> unat f < kl \<longrightarrow> frame_bit p' f = Some True" using low bits by simp
    moreover have "\<forall>b \<in> live. b = (b div frame_size) * frame_size \<and> kl * 4096 \<le> unat b \<and>
        frame_bit p' (b div frame_size) = Some True" using inv bits by (simp add: pool_inv_def)
    ultimately have "pool_inv m kl p' (insert a live)"
      using ok' unfolding pool_inv_def by blast
    moreover have "a \<noteq> 0" using ua kl gk by auto
    ultimately show ?thesis using nl al ua gk by (intro exI [of _ a] exI [of _ p']) auto
  qed
qed

lemma pool_inv_reach:
  fixes p :: "'w::len word pmm"
  assumes "frames_reach m booted p live" and boot: "\<And>p. booted p \<Longrightarrow> pool_inv m kl p {}"
    and kl: "0 < kl" and len: "12 < LENGTH('w)" and m: "unat m * 4096 \<le> 2 ^ LENGTH('w)"
  shows "pool_inv m kl p live"
  using assms(1)
proof induction
  case (boot p)
  then show ?case using assms(2) by simp
next
  case (reserve p live lo hi p')
  then have "pmm_ok m p" by (simp add: pool_inv_def)
  from reserve_range_keeps [OF this reserve.hyps(2)] reserve.IH show ?case
    by (auto simp: pool_inv_def)
next
  case (alloc p live a p')
  from alloc_frame_spec [OF alloc.IH kl len m] alloc.hyps show ?case by auto
next
  case (free p live a p')
  then obtain bm where bm: "bitmap_clear (frame_map p) (a div frame_size) = Some bm" "p' = p\<lparr>frame_map := bm\<rparr>"
    by (auto simp: free_frame_of_def bind_simps)
  have bits: "frame_bit p' f = (if f = a div frame_size then Some False else frame_bit p f)" for f
    using frames.test_unmark [OF bm(1)] by (simp add: bm(2))
  have ok: "pmm_ok m p'"
    using free.IH length_bitmap_clear [OF bm(1)] by (simp add: pool_inv_def pmm_ok_def bm(2))
  have live: "b = (b div frame_size) * frame_size \<and> kl * 4096 \<le> unat b \<and> frame_bit p (b div frame_size) = Some True"
    if "b \<in> live" for b using that free.IH by (auto simp: pool_inv_def)
  have high: "kl \<le> unat (a div frame_size)"
    using live [OF free.hyps(2)] by (simp add: frame_of [OF len] div_le_mono [of "kl * 4096" _ 4096, simplified])
  have ne: "b div frame_size \<noteq> a div frame_size" if "b \<in> live" "b \<noteq> a" for b
    using live [OF that(1)] live [OF free.hyps(2)] that(2) by metis
  show ?case
    using free.IH ok bits high live ne by (auto simp: pool_inv_def)
qed

lemma reserved_pool:
  fixes p :: "'w::len word pmm"
  assumes ok: "pmm_ok m p" and len: "20 < LENGTH('w)" and k: "unat kend + 4095 < 2 ^ LENGTH('w)"
    and r1: "reserve_range_of m 0 (1024 * 1024) p = Some p1" and r2: "reserve_range_of m (1024 * 1024) kend p1 = Some p2"
  shows "pool_inv m (max 256 ((unat kend + 4095) div 4096)) p2 {}"
proof -
  have mb: "unat (1024 * 1024 :: 'w word) = 1048576"
  proof -
    have "unat (2 ^ 20 :: 'w word) = 2 ^ 20" using len by (rule unat_pow2)
    then show ?thesis by simp
  qed
  have "(2 :: nat) ^ 21 \<le> 2 ^ LENGTH('w)" using len by (intro power_increasing) auto
  then have small: "unat (1024 * 1024 :: 'w word) + 4095 < 2 ^ LENGTH('w)" unfolding mb by simp
  have len12: "12 < LENGTH('w)" using len by simp
  obtain q where q: "reserve_range_of m 0 (1024 * 1024) p = Some q" "pmm_ok m q"
    "\<forall>g. frame_bit q g = (if unat g < (1048576 + 4095) div 4096 \<and> g < m then Some True else frame_bit p g)"
    using reserve_range_spec [OF ok len12 small, of 0] unfolding mb by auto
  have p1: "p1 = q" using q(1) r1 by simp
  obtain q2 where q2: "reserve_range_of m (1024 * 1024) kend q = Some q2" "pmm_ok m q2"
    "\<forall>g. frame_bit q2 g = (if 1048576 div 4096 \<le> unat g \<and> unat g < (unat kend + 4095) div 4096 \<and> g < m
      then Some True else frame_bit q g)"
    using reserve_range_spec [OF q(2) len12 k, of "1024 * 1024"] unfolding mb by auto
  have "p2 = q2" using q2(1) r2 p1 by simp
  then show ?thesis using q(3) q2(2,3) by (auto simp: pool_inv_def)
qed

lemma free_range_keeps:
  fixes p :: "'w::len word pmm"
  shows "free_range_of m lo hi p = Some p' \<Longrightarrow> pmm_ok m p \<Longrightarrow> 12 < LENGTH('w) \<Longrightarrow> pmm_ok m p'"
  using free_range_ok [of m p lo hi] by auto

lemma walk_mmap_ok:
  assumes walk: "walk_mmap mem lim off kb p = Some r" and ok: "pmm_ok MAX_FRAMES p"
  shows "pmm_ok MAX_FRAMES (snd r)"
proof -
  have "pmm_ok MAX_FRAMES p \<longrightarrow> pmm_ok MAX_FRAMES (snd r)"
    by (rule walk_mmap.raw_induct [where P = "\<lambda>_ _ _ _ p r. pmm_ok MAX_FRAMES p \<longrightarrow> pmm_ok MAX_FRAMES (snd r)", OF _ walk])
      (auto simp: Let_def bind_simps split: if_splits dest!: free_range_keeps)
  with ok show ?thesis by simp
qed

lemma walk_entries64_ok:
  assumes walk: "walk_entries64 mem lim es e kb p = Some r" and ok: "pmm_ok MAX_FRAMES64 p"
  shows "pmm_ok MAX_FRAMES64 (snd r)"
proof -
  have "pmm_ok MAX_FRAMES64 p \<longrightarrow> pmm_ok MAX_FRAMES64 (snd r)"
    by (rule walk_entries64.raw_induct [where P = "\<lambda>_ _ _ _ _ p r. pmm_ok MAX_FRAMES64 p \<longrightarrow> pmm_ok MAX_FRAMES64 (snd r)", OF _ walk])
      (auto simp: Let_def bind_simps split: if_splits dest!: free_range_keeps)
  with ok show ?thesis by simp
qed

lemma walk_tags64_ok:
  assumes walk: "walk_tags64 mem tag kb p = Some r" and ok: "pmm_ok MAX_FRAMES64 p"
  shows "pmm_ok MAX_FRAMES64 (snd r)"
proof -
  have "pmm_ok MAX_FRAMES64 p \<longrightarrow> pmm_ok MAX_FRAMES64 (snd r)"
    by (rule walk_tags64.raw_induct [where P = "\<lambda>_ _ _ p r. pmm_ok MAX_FRAMES64 p \<longrightarrow> pmm_ok MAX_FRAMES64 (snd r)", OF _ walk])
      (auto simp: Let_def bind_simps split: if_splits dest!: walk_entries64_ok)
  with ok show ?thesis by simp
qed

text \<open>The number of frames that the boot code keeps: the first megabyte and the image of the kernel.\<close>

abbreviation kernel_frames :: "'w::len word \<Rightarrow> nat" where
  "kernel_frames kend \<equiv> max 256 ((unat kend + 4095) div 4096)"

lemma pmm_init_pool:
  assumes init: "pmm_init mem kend mbi p0 = Some (kb, p)" and hf: "highest_frame p0 = 0"
    and k: "unat kend + 4095 < 2 ^ 32"
  shows "pool_inv MAX_FRAMES (kernel_frames kend) p {}"
proof -
  let ?p = "p0\<lparr>frame_map := replicate BITMAP_WORDS 0xFFFFFFFF\<rparr>"
  have ok: "pmm_ok MAX_FRAMES ?p" by (simp add: pmm_ok_def MAX_FRAMES_def BITMAP_WORDS_def hf)
  obtain kb' p1 p2 where r: "reserve_range_of MAX_FRAMES 0 (1024 * 1024) p1 = Some p2"
      "reserve_range_of MAX_FRAMES (1024 * 1024) kend p2 = Some p" and p1: "pmm_ok MAX_FRAMES p1"
    using init ok
    by (auto simp: pmm_init_def Let_def bind_simps split: if_splits dest!: walk_mmap_ok dest!: free_range_keeps)
  show ?thesis by (rule reserved_pool [OF p1 _ _ r]) (use k in simp_all)
qed

lemma pmm_init64_pool:
  assumes init: "pmm_init64 mem kend mbi p0 = Some (kb, p)" and hf: "highest_frame p0 = 0"
    and k: "unat kend + 4095 < 2 ^ 64"
  shows "pool_inv MAX_FRAMES64 (kernel_frames kend) p {}"
proof -
  let ?p = "p0\<lparr>frame_map := replicate BITMAP_WORDS64 (NOT 0)\<rparr>"
  have ok: "pmm_ok MAX_FRAMES64 ?p" by (simp add: pmm_ok_def MAX_FRAMES64_def BITMAP_WORDS64_def hf)
  obtain kb' p1 p2 where r: "reserve_range_of MAX_FRAMES64 0 (1024 * 1024) p1 = Some p2"
      "reserve_range_of MAX_FRAMES64 (1024 * 1024) kend p2 = Some p" and p1: "pmm_ok MAX_FRAMES64 p1"
    using init ok by (auto simp: pmm_init64_def Let_def bind_simps dest!: walk_tags64_ok)
  show ?thesis by (rule reserved_pool [OF p1 _ _ r]) (use k in simp_all)
qed

lemma kernel_frames_above: "kernel_frames kend * 4096 \<le> n \<Longrightarrow> 0x100000 \<le> n \<and> unat kend \<le> n"
proof -
  assume "kernel_frames kend * 4096 \<le> n"
  moreover have "256 * 4096 \<le> kernel_frames kend * 4096"
    "(unat kend + 4095) div 4096 * 4096 \<le> kernel_frames kend * 4096" by auto
  moreover have "unat kend \<le> (unat kend + 4095) div 4096 * 4096"
    using div_mult_mod_eq [of "unat kend + 4095" 4096] mod_less_divisor [of 4096 "unat kend + 4095"] by linarith
  ultimately show ?thesis by linarith
qed


text \<open>A machine with one megabyte above the first, reported without a memory map.\<close>

lemma pmm_init_without_map:
  assumes "mb_flags mbi = MB_FLAG_MEM" and "highest_frame p0 = 0" and "unat kend + 4095 < 2 ^ 32"
  shows "\<exists>kb p. pmm_init mem kend mbi p0 = Some (kb, p)"
proof -
  let ?p = "p0\<lparr>frame_map := replicate BITMAP_WORDS 0xFFFFFFFF\<rparr>"
  have ok: "pmm_ok MAX_FRAMES ?p" by (simp add: pmm_ok_def MAX_FRAMES_def BITMAP_WORDS_def assms(2))
  obtain p1 where p1: "free_range_of MAX_FRAMES 0 (mem_lower mbi * 1024) ?p = Some p1" "pmm_ok MAX_FRAMES p1"
    using free_range_ok [OF ok] by auto
  obtain p2 where p2: "free_range_of MAX_FRAMES (1024 * 1024) (1024 * 1024 + mem_upper mbi * 1024) p1 = Some p2"
    "pmm_ok MAX_FRAMES p2"
    using free_range_ok [OF p1(2)] by auto
  obtain p3 where p3: "reserve_range_of MAX_FRAMES 0 (1024 * 1024) p2 = Some p3" "pmm_ok MAX_FRAMES p3"
    using reserve_range_spec [OF p2(2), of "1024 * 1024" 0] by auto
  obtain p4 where p4: "reserve_range_of MAX_FRAMES (1024 * 1024) kend p3 = Some p4"
    using reserve_range_spec [OF p3(2), of kend "1024 * 1024"] assms(3) by auto
  show ?thesis
    using p1(1) p2(1) p3(1) p4 by (simp add: pmm_init_def assms(1) MB_FLAG_MEM_def MB_FLAG_MMAP_def)
qed


text \<open>The same for the 64-bit manager.\<close>

theorem pmm64_frames_safe:
  assumes "frames_reach MAX_FRAMES64
      (\<lambda>p. \<exists>mem mbi p0 kb. highest_frame p0 = 0 \<and> pmm_init64 mem kend mbi p0 = Some (kb, p)) p live"
    and "unat kend + 4095 < 2 ^ 64"
  shows "\<exists>a p'. pmm_alloc_frame64 p = Some (a, p') \<and>
    (a = 0 \<and> p' = p \<and> (\<forall>f. f \<le> highest_frame p \<longrightarrow> bitmap_test (frame_map p) f = Some True) \<or>
     a \<noteq> 0 \<and> a \<notin> live \<and> unat a mod 4096 = 0 \<and> 0x100000 \<le> a \<and> kend \<le> a)"
proof -
  have inv: "pool_inv MAX_FRAMES64 (kernel_frames kend) p live"
    by (rule pool_inv_reach [OF assms(1)]) (use pmm_init64_pool [OF _ _ assms(2)] in \<open>auto simp: MAX_FRAMES64_def\<close>)
  have "0x100000 \<le> a \<and> kend \<le> a" if "kernel_frames kend * 4096 \<le> unat a" for a :: u64
    using kernel_frames_above [OF that] by (simp add: word_le_nat_alt)
  with alloc_frame_spec [OF inv] show ?thesis
    unfolding pmm_alloc_frame64_def by (fastforce simp: MAX_FRAMES64_def)
qed

end
