(* ===== verification/Ramfs.thy ===== *)
theory Ramfs
  imports Heap
begin

text \<open>
  The in-memory file system \<open>fs/ramfs.c\<close>: 32 file slots whose data live in blocks of the kernel
  heap. The state is the array of slots, the \<open>ready\<close> flag and the heap; a name is the buffer the
  pointer argument addresses (\<open>None\<close> for null). The abstract file system is a map from names to
  contents, and the operations are shown to act on it through the allocator's laws.
\<close>

section \<open>Model\<close>

definition RAMFS_NAME_LEN :: nat where
  "RAMFS_NAME_LEN = 32"

definition RAMFS_MAX_FILES :: nat where
  "RAMFS_MAX_FILES = 32"

record ramfs_file =
  fname :: bytes
  fdata :: nat
  fsize :: u32
  fused :: bool

record ramfs =
  files :: "ramfs_file list"
  ready :: bool
  rheap :: heap

definition ramfs_init :: "ramfs \<Rightarrow> bool \<times> ramfs" where
  "ramfs_init s = (True, s\<lparr>files := replicate RAMFS_MAX_FILES
      \<lparr>fname = replicate RAMFS_NAME_LEN 0, fdata = 0, fsize = 0, fused = False\<rparr>, ready := True\<rparr>)"

fun lookup_from :: "nat \<Rightarrow> bytes \<Rightarrow> ramfs_file list \<Rightarrow> nat option option" where
  "lookup_from i name [] = Some None"
| "lookup_from i name (f # fs) =
    (if fused f then do {
       c \<leftarrow> k_strcmp (fname f) name;
       if c = 0 then Some (Some i) else lookup_from (Suc i) name fs }
     else lookup_from (Suc i) name fs)"

definition lookup :: "bytes option \<Rightarrow> ramfs \<Rightarrow> nat option option" where
  "lookup name s = (case name of
       None \<Rightarrow> Some None
     | Some nm \<Rightarrow> if \<not> ready s then Some None else lookup_from 0 nm (files s))"

fun free_slot :: "nat \<Rightarrow> ramfs_file list \<Rightarrow> nat option" where
  "free_slot i [] = None"
| "free_slot i (f # fs) = (if fused f then free_slot (Suc i) fs else Some i)"

definition ramfs_create :: "bytes option \<Rightarrow> ramfs \<Rightarrow> (int \<times> ramfs) option" where
  "ramfs_create name s = (case name of
       None \<Rightarrow> Some (-1, s)
     | Some nm \<Rightarrow>
       if \<not> ready s then Some (-1, s)
       else do {
         n \<leftarrow> k_strlen nm;
         if RAMFS_NAME_LEN \<le> n then Some (-1, s)
         else do {
           hit \<leftarrow> lookup name s;
           case hit of
             Some _ \<Rightarrow> Some (-1, s)
           | None \<Rightarrow>
             (case free_slot 0 (files s) of
                None \<Rightarrow> Some (-1, s)
              | Some i \<Rightarrow> do {
                  nm' \<leftarrow> k_strncpy (fname (files s ! i)) nm (RAMFS_NAME_LEN - 1);
                  Some (int i, s\<lparr>files := (files s)[i := (files s ! i)
                    \<lparr>fused := True, fname := nm', fdata := 0, fsize := 0\<rparr>]\<rparr>) }) } })"

definition ramfs_write :: "bytes option \<Rightarrow> bytes \<Rightarrow> u32 \<Rightarrow> ramfs \<Rightarrow> (int \<times> ramfs) option" where
  "ramfs_write name data len s = do {
     hit \<leftarrow> lookup name s;
     case hit of
       None \<Rightarrow> Some (-1, s)
     | Some i \<Rightarrow> do {
         (fresh, h1) \<leftarrow> kmalloc (if len \<noteq> 0 then len else 1) (rheap s);
         if fresh = 0 then Some (-1, s\<lparr>rheap := h1\<rparr>)
         else do {
           xs \<leftarrow> slice data 0 (unat len);
           let h2 = heap_store fresh xs h1;
           h3 \<leftarrow> (if fdata (files s ! i) \<noteq> 0 then kfree (fdata (files s ! i)) h2 else Some h2);
           Some (0, s\<lparr>rheap := h3, files := (files s)[i := (files s ! i)\<lparr>fdata := fresh, fsize := len\<rparr>]\<rparr>) } } }"

definition ramfs_read :: "bytes option \<Rightarrow> bytes option \<Rightarrow> u32 \<Rightarrow> ramfs \<Rightarrow> (int \<times> bytes option) option" where
  "ramfs_read name out max_len s = do {
     hit \<leftarrow> lookup name s;
     case (hit, out) of
       (Some i, Some buf) \<Rightarrow> do {
         let f = files s ! i;
         let n = (if fsize f < max_len then fsize f else max_len);
         buf' \<leftarrow> splice buf 0 (heap_load (fdata f) (unat n) (rheap s));
         Some (sint n, Some buf') }
     | _ \<Rightarrow> Some (-1, out) }"

definition ramfs_size :: "bytes option \<Rightarrow> ramfs \<Rightarrow> u32 option" where
  "ramfs_size name s = do {
     hit \<leftarrow> lookup name s;
     Some (case hit of None \<Rightarrow> 0 | Some i \<Rightarrow> fsize (files s ! i)) }"

text \<open>The rows of \<open>names\<close> are written from the first on; a row that the caller did not provide
  is undefined.\<close>

fun list_loop :: "ramfs_file list \<Rightarrow> bytes list \<Rightarrow> int \<Rightarrow> int \<Rightarrow> (int \<times> bytes list) option" where
  "list_loop [] names n cap = Some (n, names)"
| "list_loop (f # fs) names n cap =
    (if \<not> n < cap then Some (n, names)
     else if fused f then
       if nat n < length names then do {
         row \<leftarrow> k_strncpy (names ! nat n) (fname f) (RAMFS_NAME_LEN - 1);
         list_loop fs (names[nat n := row]) (n + 1) cap }
       else None
     else list_loop fs names n cap)"

definition ramfs_list :: "bytes list \<Rightarrow> int \<Rightarrow> ramfs \<Rightarrow> (int \<times> bytes list) option" where
  "ramfs_list names cap s = list_loop (files s) names 0 cap"

section \<open>The abstract file system\<close>

definition cname :: "bytes \<Rightarrow> bytes" where
  "cname b = takeWhile (\<lambda>c. c \<noteq> 0) b"

definition file_key :: "ramfs_file \<Rightarrow> bytes option" where
  "file_key f = (if fused f then Some (cname (fname f)) else None)"

definition contents :: "heap \<Rightarrow> ramfs_file \<Rightarrow> bytes" where
  "contents h f = heap_load (fdata f) (unat (fsize f)) h"

definition ramfs_abs :: "ramfs \<Rightarrow> bytes \<Rightarrow> bytes option" where
  "ramfs_abs s nm = map_option (contents (rheap s)) (find (\<lambda>f. file_key f = Some nm) (files s))"

definition block_of :: "ramfs_file \<Rightarrow> nat \<times> u32" where
  "block_of f = (fdata f, if fsize f \<noteq> 0 then fsize f else 1)"

definition file_ok :: "ramfs_file \<Rightarrow> bool" where
  "file_ok f \<longleftrightarrow> length (fname f) = 32 \<and> fname f ! 31 = 0 \<and> (\<not> fused f \<longrightarrow> fdata f = 0) \<and>
     (fdata f = 0 \<longrightarrow> fsize f = 0)"

definition ramfs_inv :: "ramfs \<Rightarrow> (nat \<times> u32) set \<Rightarrow> bool" where
  "ramfs_inv s L \<longleftrightarrow> ready s \<and> length (files s) = 32 \<and> heap_reach (rheap s) L \<and>
     (\<forall>i < 32. file_ok (files s ! i) \<and> (fdata (files s ! i) \<noteq> 0 \<longrightarrow> block_of (files s ! i) \<in> L)) \<and>
     (\<forall>i < 32. \<forall>j < 32. i \<noteq> j \<longrightarrow> fdata (files s ! i) \<noteq> 0 \<longrightarrow> fdata (files s ! i) \<noteq> fdata (files s ! j)) \<and>
     (\<forall>i < 32. \<forall>j < 32. i \<noteq> j \<longrightarrow> fused (files s ! i) \<longrightarrow> file_key (files s ! i) \<noteq> file_key (files s ! j))"

text \<open>The states the file system can be in: initialised on a heap that other clients use as well,
  then changed by its own operations, the writes with a terminated name, a buffer of at least the given
  length and a length that the rounding in the heap does not wrap.\<close>

inductive ramfs_reach :: "ramfs \<Rightarrow> bool" where
  init: "heap_reach (rheap s) L \<Longrightarrow> ramfs_reach (snd (ramfs_init s))"
| created: "ramfs_reach s \<Longrightarrow> ramfs_create name s = Some (rc, s') \<Longrightarrow> ramfs_reach s'"
| written: "ramfs_reach s \<Longrightarrow> 0 \<in> set name \<Longrightarrow> unat len \<le> length data \<Longrightarrow> unat len \<le> 2 ^ 32 - 16 \<Longrightarrow>
    ramfs_write (Some name) data len s = Some (rc, s') \<Longrightarrow> ramfs_reach s'"

section \<open>Finding a file\<close>

lemma cname_cstr [simp]: "0 \<notin> set nm \<Longrightarrow> cname (nm @ 0 # r) = nm"
  unfolding cname_def by (subst takeWhile_append2) auto

lemma cname_split:
  assumes "0 \<in> set b"
  obtains r where "b = cname b @ 0 # r" "0 \<notin> set (cname b)"
proof -
  obtain nm r where "b = nm @ 0 # r" "0 \<notin> set nm" using split_list_first [OF assms] by blast
  then show thesis using that by auto
qed

lemma file_ok_zero: "file_ok f \<Longrightarrow> 0 \<in> set (fname f)"
  using nth_mem [of 31 "fname f"] by (simp add: file_ok_def)

lemma lookup_from_spec:
  assumes "\<forall>f \<in> set fs. file_ok f" and "0 \<notin> set nm"
  shows "lookup_from k (nm @ 0 # r) fs =
    Some (map_option (\<lambda>i. k + i) (find (\<lambda>i. file_key (fs ! i) = Some nm) [0..<length fs]))"
  using assms(1)
proof (induction fs arbitrary: k)
  case (Cons f fs)
  have up: "[0..<Suc (length fs)] = 0 # map Suc [0..<length fs]"
    by (simp add: map_Suc_upt upt_conv_Cons del: upt_Suc)
  have fm: "find P (map Suc xs) = map_option Suc (find (P \<circ> Suc) xs)" for P xs
    by (induction xs) auto
  obtain q where q: "fname f = cname (fname f) @ 0 # q" "0 \<notin> set (cname (fname f))"
    using cname_split [OF file_ok_zero, of f] Cons.prems by auto
  obtain x where x: "k_strcmp (fname f) (nm @ 0 # r) = Some x" "x = 0 \<longleftrightarrow> cname (fname f) = nm"
    using k_strcmp_cstr [OF q(2) assms(2), of q r] q(1) by metis
  show ?case
    using Cons x by (auto simp: up fm comp_def file_key_def option.map_comp simp del: upt_Suc intro!: arg_cong2 [where f = map_option])
qed simp

lemma find_upt:
  "find P [0..<n] = Some i \<longleftrightarrow> i < n \<and> P i \<and> (\<forall>j < i. \<not> P j)"
  by (auto simp: find_Some_iff intro!: exI [of _ i])

lemma ramfs_inv_ok: "ramfs_inv s L \<Longrightarrow> f \<in> set (files s) \<Longrightarrow> file_ok f"
  by (auto simp: ramfs_inv_def in_set_conv_nth)

lemma lookup_cases:
  assumes "ramfs_inv s L" and "0 \<notin> set nm"
  obtains (none) "lookup (Some (nm @ 0 # r)) s = Some None" "\<forall>f \<in> set (files s). file_key f \<noteq> Some nm"
  | (some) i where "lookup (Some (nm @ 0 # r)) s = Some (Some i)" "i < 32" "file_key (files s ! i) = Some nm"
proof -
  have l: "lookup (Some (nm @ 0 # r)) s = Some (find (\<lambda>i. file_key (files s ! i) = Some nm) [0..<32])"
    using lookup_from_spec [of "files s" nm 0 r] assms ramfs_inv_ok [OF assms(1)]
    by (simp add: lookup_def ramfs_inv_def option.map_ident)
  show thesis
  proof (cases "find (\<lambda>i. file_key (files s ! i) = Some nm) [0..<32]")
    case None
    then have "\<forall>f \<in> set (files s). file_key f \<noteq> Some nm"
      using assms(1) by (auto simp: find_None_iff ramfs_inv_def in_set_conv_nth)
    then show thesis using none l None by simp
  next
    case (Some i)
    then show thesis using some [of i] l by (simp add: find_upt)
  qed
qed

section \<open>The operations on the abstract file system\<close>

lemma find_unique:
  "i < length fs \<Longrightarrow> P (fs ! i) \<Longrightarrow> (\<And>j. j < length fs \<Longrightarrow> j \<noteq> i \<Longrightarrow> \<not> P (fs ! j)) \<Longrightarrow> find P fs = Some (fs ! i)"
  by (auto simp: find_Some_iff intro!: exI [of _ i])

lemma find_update_other: "\<not> P (fs ! i) \<Longrightarrow> \<not> P f \<Longrightarrow> find P (fs[i := f]) = find P fs"
proof (induction fs arbitrary: i)
  case (Cons g fs)
  then show ?case by (cases i) auto
qed simp

lemma abs_at:
  assumes "ramfs_inv s L" and "i < 32" and "file_key (files s ! i) = Some nm"
  shows "ramfs_abs s nm = Some (contents (rheap s) (files s ! i))"
proof -
  have "find (\<lambda>f. file_key f = Some nm) (files s) = Some (files s ! i)"
    by (rule find_unique) (use assms in \<open>auto simp: ramfs_inv_def file_key_def split: if_splits\<close>)
  then show ?thesis by (simp add: ramfs_abs_def)
qed

lemma abs_none: "\<forall>f \<in> set (files s). file_key f \<noteq> Some nm \<Longrightarrow> ramfs_abs s nm = None"
  by (auto simp: ramfs_abs_def find_None_iff)

lemma abs_elsewhere:
  assumes "\<And>j. j < length (files s) \<Longrightarrow> j \<noteq> i \<Longrightarrow> contents h (files s ! j) = contents (rheap s) (files s ! j)"
    and "file_key (files s ! i) \<noteq> Some nm" and "file_key f \<noteq> Some nm"
  shows "ramfs_abs (s\<lparr>rheap := h, files := (files s)[i := f]\<rparr>) nm = ramfs_abs s nm"
proof (cases "find (\<lambda>f. file_key f = Some nm) (files s)")
  case None
  then show ?thesis using find_update_other [of "\<lambda>f. file_key f = Some nm" "files s" i f] assms(2,3) by (simp add: ramfs_abs_def)
next
  case (Some g)
  then obtain j where j: "j < length (files s)" "g = files s ! j" "file_key g = Some nm"
    by (auto simp: find_Some_iff)
  then have "j \<noteq> i" using assms(2) by auto
  then show ?thesis
    using find_update_other [of "\<lambda>f. file_key f = Some nm" "files s" i f] assms j Some by (simp add: ramfs_abs_def)
qed

lemma free_slot_spec:
  "free_slot k fs = None \<Longrightarrow> (\<forall>f \<in> set fs. fused f)"
  "free_slot k fs = Some i \<Longrightarrow> k \<le> i \<and> i < k + length fs \<and> \<not> fused (fs ! (i - k))"
  by (induction fs arbitrary: k) (fastforce split: if_splits simp: nth_Cons')+

lemma create_update:
  assumes inv: "ramfs_inv s L" and i: "i < 32" "\<not> fused (files s ! i)"
    and nm: "0 \<notin> set nm" "length nm < 32" "\<forall>f \<in> set (files s). file_key f \<noteq> Some nm"
    and f: "fname f = nm @ replicate (31 - length nm) 0 @ drop 31 (fname (files s ! i))"
      "fdata f = 0" "fsize f = 0" "fused f"
  shows "ramfs_inv (s\<lparr>files := (files s)[i := f]\<rparr>) L \<and>
    ramfs_abs (s\<lparr>files := (files s)[i := f]\<rparr>) = (ramfs_abs s)(nm \<mapsto> [])"
proof -
  have old: "length (fname (files s ! i)) = 32" "fname (files s ! i) ! 31 = 0"
    using inv i by (auto simp: ramfs_inv_def file_ok_def)
  have d: "drop 31 (fname (files s ! i)) = [0]" using old Cons_nth_drop_Suc [of 31 "fname (files s ! i)"] by simp
  have "replicate (31 - length nm) 0 @ [0] = (0 :: u8) # replicate (31 - length nm) 0"
    by (metis replicate_append_same)
  then have "cname (fname f) = nm" using f(1) d nm(1) by simp
  then have key: "file_key f = Some nm" using f(4) by (simp add: file_key_def)
  have ok: "file_ok f" using f nm(2) d by (simp add: file_ok_def nth_append)
  have len: "length (files s) = 32" using inv by (simp add: ramfs_inv_def)
  have ne: "file_key (files s ! j) \<noteq> Some nm" if "j < 32" for j using nm(3) len that by simp
  have inv': "ramfs_inv (s\<lparr>files := (files s)[i := f]\<rparr>) L"
    using inv i ok key ne f(2) ne [THEN not_sym] unfolding ramfs_inv_def by (auto simp: nth_list_update)
  have "ramfs_abs (s\<lparr>files := (files s)[i := f]\<rparr>) nm' = ((ramfs_abs s)(nm \<mapsto> [])) nm'" for nm'
  proof (cases "nm' = nm")
    case True
    then show ?thesis
      using abs_at [OF inv' i(1), of nm] key len i(1) f(2,3) by (simp add: contents_def heap_load_def load_bytes_def)
  next
    case False
    then show ?thesis
      using abs_elsewhere [of s i "rheap s" nm' f] key i(2) by (simp add: file_key_def split: if_splits)
  qed
  then show ?thesis using inv' by auto
qed

lemma contents_block:
  assumes "heap_load (fst (block_of f)) (unat (snd (block_of f))) h' = heap_load (fst (block_of f)) (unat (snd (block_of f))) h"
  shows "contents h' f = contents h f"
  using assms by (auto simp: contents_def block_of_def heap_load_def load_bytes_def split: if_splits)

lemma write_update:
  assumes inv: "ramfs_inv s L" and i: "i < 32" "file_key (files s ! i) = Some nm"
    and r: "heap_reach h L'" and p: "p \<noteq> 0" "p \<notin> fst ` L" "(p, if len \<noteq> 0 then len else 1) \<in> L'"
    and keep: "\<And>j. j < 32 \<Longrightarrow> j \<noteq> i \<Longrightarrow> fdata (files s ! j) \<noteq> 0 \<Longrightarrow>
      block_of (files s ! j) \<in> L' \<and> contents h (files s ! j) = contents (rheap s) (files s ! j)"
    and s': "s' = s\<lparr>rheap := h, files := (files s)[i := (files s ! i)\<lparr>fdata := p, fsize := len\<rparr>]\<rparr>"
  shows "ramfs_inv s' L' \<and> ramfs_abs s' = (ramfs_abs s)(nm \<mapsto> heap_load p (unat len) h)"
proof -
  let ?f = "(files s ! i)\<lparr>fdata := p, fsize := len\<rparr>"
  have len: "length (files s) = 32" and used: "fused (files s ! i)"
    using inv i by (auto simp: ramfs_inv_def file_key_def split: if_splits)
  have key: "file_key ?f = Some nm" using i(2) by (simp add: file_key_def split: if_splits)
  have ok: "file_ok ?f" using inv i(1) p(1) used by (simp add: ramfs_inv_def file_ok_def)
  have ne: "fdata (files s ! j) \<noteq> p" if "j < 32" for j
  proof (cases "fdata (files s ! j) = 0")
    case False
    then have "block_of (files s ! j) \<in> L" using inv that by (simp add: ramfs_inv_def)
    then show ?thesis using p(2) by (force simp: block_of_def)
  qed (use p(1) in simp)
  have other: "file_key (files s ! j) \<noteq> Some nm" if "j < 32" "j \<noteq> i" for j
    using inv i that used unfolding ramfs_inv_def by metis
  have inv': "ramfs_inv s' L'"
    using inv i(1) ok key other other [THEN not_sym] ne ne [THEN not_sym] r p(3) keep unfolding ramfs_inv_def s'
    by (auto simp: nth_list_update block_of_def)
  have same: "contents h (files s ! j) = contents (rheap s) (files s ! j)" if "j < 32" "j \<noteq> i" for j
  proof (cases "fdata (files s ! j) = 0")
    case True
    then have "fsize (files s ! j) = 0" using inv that by (simp add: ramfs_inv_def file_ok_def)
    then show ?thesis by (simp add: contents_def heap_load_def load_bytes_def)
  qed (use keep that in blast)
  have "ramfs_abs s' nm' = ((ramfs_abs s)(nm \<mapsto> heap_load p (unat len) h)) nm'" for nm'
  proof (cases "nm' = nm")
    case True
    then show ?thesis using abs_at [OF inv' i(1), of nm] key len i(1) by (simp add: s' contents_def)
  next
    case False
    then show ?thesis
      using abs_elsewhere [of s i h nm' ?f] same key i(2) len by (simp add: s')
  qed
  then show ?thesis using inv' by auto
qed

lemma create_spec:
  assumes inv: "ramfs_inv s L" and nm: "0 \<notin> set nm"
  shows "\<exists>rc s'. ramfs_create (Some (nm @ 0 # r)) s = Some (rc, s') \<and> ramfs_inv s' L \<and>
    (if rc = -1 then s' = s \<and> (32 \<le> length nm \<or> nm \<in> dom (ramfs_abs s) \<or> (\<forall>f \<in> set (files s). fused f))
     else nm \<notin> dom (ramfs_abs s) \<and> ramfs_abs s' = (ramfs_abs s)(nm \<mapsto> []))"
proof (cases "32 \<le> length nm")
  case True
  then show ?thesis using inv nm by (simp add: ramfs_create_def ramfs_inv_def RAMFS_NAME_LEN_def)
next
  case short: False
  have ready: "ready s" and len: "length (files s) = 32" using inv by (auto simp: ramfs_inv_def)
  show ?thesis
  proof (cases rule: lookup_cases [OF inv nm, of r])
    case some: (2 i)
    then show ?thesis
      using abs_at [OF inv some(2,3)] inv nm by (auto simp: ramfs_create_def RAMFS_NAME_LEN_def)
  next
    case none: 1
    show ?thesis
    proof (cases "free_slot 0 (files s)")
      case None
      then show ?thesis
        using none inv nm short ready free_slot_spec(1) [OF None] by (auto simp: ramfs_create_def RAMFS_NAME_LEN_def)
    next
      case (Some i)
      then have i: "i < 32" "\<not> fused (files s ! i)" using free_slot_spec(2) [OF Some] len by auto
      let ?nm = "nm @ replicate (31 - length nm) 0 @ drop 31 (fname (files s ! i))"
      let ?f = "(files s ! i)\<lparr>fused := True, fname := ?nm, fdata := 0, fsize := 0\<rparr>"
      have "length (fname (files s ! i)) = 32" using inv i by (simp add: ramfs_inv_def file_ok_def)
      then have c: "ramfs_create (Some (nm @ 0 # r)) s = Some (int i, s\<lparr>files := (files s)[i := ?f]\<rparr>)"
        using none(1) nm short ready Some k_strncpy_cstr [OF nm, of 31 "fname (files s ! i)" r]
        by (simp add: ramfs_create_def RAMFS_NAME_LEN_def)
      show ?thesis
        using create_update [OF inv i nm _ none(2), of ?f] short abs_none [OF none(2)] by (auto simp: c)
    qed
  qed
qed

lemma heap_update:
  assumes inv: "ramfs_inv s L" and r: "heap_reach h L"
    and keep: "\<forall>(q, z) \<in> L. heap_load q (unat z) h = heap_load q (unat z) (rheap s)"
  shows "ramfs_inv (s\<lparr>rheap := h\<rparr>) L \<and> ramfs_abs (s\<lparr>rheap := h\<rparr>) = ramfs_abs s"
proof -
  have "contents h f = contents (rheap s) f" if f: "f \<in> set (files s)" for f
  proof (cases "fdata f = 0")
    case True
    then have "fsize f = 0" using ramfs_inv_ok [OF inv f] by (simp add: file_ok_def)
    then show ?thesis by (simp add: contents_def heap_load_def load_bytes_def)
  next
    case False
    then have "block_of f \<in> L" using inv f by (auto simp: ramfs_inv_def in_set_conv_nth)
    then show ?thesis using bspec [OF keep, of "block_of f"] by (auto intro!: contents_block simp: case_prod_beta)
  qed
  then have "ramfs_abs (s\<lparr>rheap := h\<rparr>) nm = ramfs_abs s nm" for nm
    unfolding ramfs_abs_def by (auto intro!: option.map_cong simp: find_Some_iff elem_set)
  then show ?thesis using inv r by (auto simp: ramfs_inv_def)
qed

lemma write_spec:
  assumes inv: "ramfs_inv s L" and nm: "0 \<notin> set nm"
    and len: "unat len \<le> length data" "unat len \<le> 2 ^ 32 - 16"
  shows "\<exists>rc s' L'. ramfs_write (Some (nm @ 0 # r)) data len s = Some (rc, s') \<and> ramfs_inv s' L' \<and>
    (rc = 0 \<and> nm \<in> dom (ramfs_abs s) \<and> ramfs_abs s' = (ramfs_abs s)(nm \<mapsto> take (unat len) data) \<or>
     rc = -1 \<and> ramfs_abs s' = ramfs_abs s)"
proof (cases rule: lookup_cases [OF inv nm, of r])
  case 1
  then show ?thesis using inv by (auto simp: ramfs_write_def)
next
  case some: (2 i)
  let ?n = "if len \<noteq> 0 then len else 1" and ?xs = "take (unat len) data" and ?f = "files s ! i"
  let ?L = "L - (if fdata ?f = 0 then {} else {block_of ?f})"
  have reach: "heap_reach (rheap s) L" using inv by (simp add: ramfs_inv_def)
  have n: "?n \<noteq> 0" "unat ?n \<le> 2 ^ 32 - 16" "length ?xs \<le> unat ?n" using len by auto
  obtain p h1 where k: "kmalloc ?n (rheap s) = Some (p, h1)" "heap_reach h1 (if p = 0 then L else insert (p, ?n) L)"
    and keep1: "\<forall>(q, z) \<in> L. heap_load q (unat z) h1 = heap_load q (unat z) (rheap s)"
    using kheap.alloc_law [OF reach n(1,2)] by blast
  have xs: "slice data 0 (unat len) = Some ?xs" using len(1) by (simp add: slice_def sub_def)
  have dom: "nm \<in> dom (ramfs_abs s)" using abs_at [OF inv some(2,3)] by auto
  have block: "block_of (files s ! j) \<in> L" if "j < 32" "fdata (files s ! j) \<noteq> 0" for j
    using inv that by (simp add: ramfs_inv_def)
  show ?thesis
  proof (cases "p = 0")
    case True
    then show ?thesis using heap_update [OF inv _ keep1] k some(1) by (auto simp: ramfs_write_def)
  next
    case False
    note ap = kheap.alloc_put [OF reach n k(1) False]
    obtain h3 where h3: "(if fdata ?f \<noteq> 0 then kfree (fdata ?f) (heap_store p ?xs h1) else Some (heap_store p ?xs h1)) = Some h3"
      "heap_reach h3 (insert (p, ?n) ?L)" "heap_load p (unat ?n) h3 = heap_load p (unat ?n) (heap_store p ?xs h1)"
      "\<forall>(q, z) \<in> ?L. heap_load q (unat z) h3 = heap_load q (unat z) (rheap s)"
      using kheap.alloc_put_release [OF reach n k(1) False, of "fdata ?f" "snd (block_of ?f)"] ap block [OF some(2)]
      by (cases "fdata ?f = 0") (auto simp: block_of_def)
    have load: "heap_load p (unat len) h3 = ?xs"
      using h3(3) ap len(1) by (cases "len = 0") (simp_all add: min_absorb2, simp_all add: heap_load_def load_bytes_def)
    have keep: "block_of (files s ! j) \<in> insert (p, ?n) ?L \<and> contents h3 (files s ! j) = contents (rheap s) (files s ! j)"
      if j: "j < 32" "j \<noteq> i" "fdata (files s ! j) \<noteq> 0" for j
    proof -
      have "block_of (files s ! j) \<noteq> block_of ?f" using inv j some(2) by (auto simp: ramfs_inv_def block_of_def)
      then have "block_of (files s ! j) \<in> ?L" using block [OF j(1,3)] by auto
      then show ?thesis using bspec [OF h3(4), of "block_of (files s ! j)"] by (auto intro!: contents_block simp: case_prod_beta)
    qed
    have p: "p \<notin> fst ` L" "(p, ?n) \<in> insert (p, ?n) ?L" using ap by simp_all
    show ?thesis
      using write_update [OF inv some(2,3) h3(2) False p keep refl] load k(1) False xs h3(1) some(1) dom
      by (auto simp: ramfs_write_def)
  qed
qed

lemma take_heap_load: "take k (heap_load p n h) = heap_load p (min k n) h"
  unfolding heap_load_def load_bytes_def by (rule nth_equalityI) auto

lemma read_spec:
  assumes inv: "ramfs_inv s L" and nm: "0 \<notin> set nm" and buf: "unat max_len \<le> length buf"
  shows "ramfs_read (Some (nm @ 0 # r)) (Some buf) max_len s = Some (case ramfs_abs s nm of
      None \<Rightarrow> (-1, Some buf)
    | Some xs \<Rightarrow> (sint (of_nat (length (take (unat max_len) xs)) :: u32), Some (upd buf 0 (take (unat max_len) xs))))"
proof (cases rule: lookup_cases [OF inv nm, of r])
  case 1
  then show ?thesis by (simp add: ramfs_read_def abs_none)
next
  case some: (2 i)
  let ?f = "files s ! i" and ?n = "if fsize (files s ! i) < max_len then fsize (files s ! i) else max_len"
  have "unat ?n = min (unat (fsize ?f)) (unat max_len)" by (auto simp: word_less_nat_alt)
  then have "take (unat max_len) (contents (rheap s) ?f) = heap_load (fdata ?f) (unat ?n) (rheap s)" and "unat ?n \<le> length buf"
    using buf by (simp_all add: contents_def take_heap_load min.commute)
  moreover have "length (heap_load (fdata ?f) (unat ?n) (rheap s)) = unat ?n" by (simp add: heap_load_def)
  ultimately show ?thesis using some(1) abs_at [OF inv some(2,3)] by (simp add: ramfs_read_def Let_def splice_def)
qed

lemma ramfs_reach_inv: "ramfs_reach s \<Longrightarrow> \<exists>L. ramfs_inv s L"
proof (induction rule: ramfs_reach.induct)
  case (init s L)
  then have "ramfs_inv (snd (ramfs_init s)) L"
    by (auto simp: ramfs_init_def ramfs_inv_def file_ok_def RAMFS_NAME_LEN_def RAMFS_MAX_FILES_def)
  then show ?case by blast
next
  case (created s name rc s')
  then obtain L where inv: "ramfs_inv s L" by blast
  show ?case
  proof (cases name)
    case None
    then show ?thesis using created.hyps(2) inv by (auto simp: ramfs_create_def)
  next
    case (Some b)
    then obtain nm r where "b = nm @ 0 # r" "0 \<notin> set nm"
      using created.hyps(2) inv by (auto simp: ramfs_create_def ramfs_inv_def bind_simps dest!: k_strlen_SomeD)
    then show ?thesis using create_spec [OF inv, of nm r] created.hyps(2) Some by auto
  qed
next
  case (written s name len data rc s')
  then obtain L where inv: "ramfs_inv s L" by blast
  obtain r where "name = cname name @ 0 # r" "0 \<notin> set (cname name)" by (rule cname_split [OF written.hyps(2)])
  then show ?case using write_spec [OF inv _ written.hyps(3,4), of "cname name" r] written.hyps(5) by auto
qed

section \<open>Properties\<close>


lemma lookup_from_unused: "\<not> fused f \<Longrightarrow> lookup_from k nm (replicate n f) = Some None"
  by (induction n arbitrary: k) auto

lemma ramfs_fresh:
  "\<exists>s. ramfs_reach s \<and> ramfs_abs s = Map.empty \<and> (\<exists>f \<in> set (files s). \<not> fused f) \<and> lookup name s = Some None"
proof -
  obtain h L where "heap_reach h L" using heap_reach_demo by blast
  then have "ramfs_reach (snd (ramfs_init \<lparr>files = [], ready = False, rheap = h\<rparr>))" (is "ramfs_reach ?s")
    by (intro ramfs_reach.init) simp
  moreover have "ramfs_abs ?s = Map.empty" "\<exists>f \<in> set (files ?s). \<not> fused f"
    by (auto simp: ramfs_abs_def ramfs_init_def file_key_def find_None_iff RAMFS_MAX_FILES_def fun_eq_iff)
  moreover have "lookup name ?s = Some None"
    by (simp add: lookup_def ramfs_init_def lookup_from_unused split: option.split)
  ultimately show ?thesis by blast
qed


end
