(* ===== verification/Mmio.thy ===== *)
theory Mmio
  imports Prelude
begin

text \<open>
  Memory that the kernel shares with devices. Device registers are 32-bit words at physical
  addresses; buffers and descriptor rings are bytes that a device reads and writes as well. Both are
  parameters: a state of type \<open>'d\<close> and, in a record, what each access does to it, so that a device
  may change what the driver sees at any access.
\<close>

record 'd mmio =
  reg_in :: "u64 \<Rightarrow> 'd \<Rightarrow> u32 \<times> 'd"
  reg_out :: "u64 \<Rightarrow> u32 \<Rightarrow> 'd \<Rightarrow> 'd"
  mem_in :: "u64 \<Rightarrow> 'd \<Rightarrow> u8 \<times> 'd"
  mem_out :: "u64 \<Rightarrow> u8 \<Rightarrow> 'd \<Rightarrow> 'd"

fun shared_read :: "('d, 'm) mmio_scheme \<Rightarrow> u64 \<Rightarrow> nat \<Rightarrow> 'd \<Rightarrow> bytes \<times> 'd" where
  "shared_read io a 0 hw = ([], hw)"
| "shared_read io a (Suc n) hw =
     (let (b, hw) = mem_in io a hw; (bs, hw) = shared_read io (a + 1) n hw in (b # bs, hw))"

fun shared_write :: "('d, 'm) mmio_scheme \<Rightarrow> u64 \<Rightarrow> bytes \<Rightarrow> 'd \<Rightarrow> 'd" where
  "shared_write io a [] hw = hw"
| "shared_write io a (b # bs) hw = shared_write io (a + 1) bs (mem_out io a b hw)"

lemma length_shared_read [simp]: "length (fst (shared_read io a n hw)) = n"
  by (induction n arbitrary: a hw) (auto simp: case_prod_beta Let_def)

lemma length_shared_readD: "shared_read io a n hw = (bs, hw') \<Longrightarrow> length bs = n"
  using length_shared_read [of io a n hw] by simp

definition bytes64 :: "u64 \<Rightarrow> bytes" where
  "bytes64 v = bytes32 (ucast v) @ bytes32 (ucast (drop_bit 32 v))"

definition le64 :: "bytes \<Rightarrow> u64" where
  "le64 b = ucast (le32 (take 4 b)) OR push_bit 32 (ucast (le32 (drop 4 b)))"

lemma length_bytes64 [simp]: "length (bytes64 v) = 8"
  by (simp add: bytes64_def)

end
