(* ===== verification/Pci.thy ===== *)
theory Pci
  imports Ports Printk
begin

text \<open>
  \<open>drivers/bus/pci.c\<close>: configuration accesses through the ports \<open>0xCF8\<close> and \<open>0xCFC\<close>, the scan of
  the buses into a table of 32 devices, and the lookups in the table. The state is the table, the
  number of entries in use, the messages printed and the hardware. The recursion through bridges is
  bounded by its depth; the depth of \<open>pci_init\<close> is enough on every machine, since a bridge is only
  followed after it has taken a new entry of the table.
\<close>

section \<open>Operations\<close>

definition PCI_MAX_DEVICES :: nat where "PCI_MAX_DEVICES = 32"
definition CONF_ADDR :: u16 where "CONF_ADDR = 0xCF8"
definition CONF_DATA :: u16 where "CONF_DATA = 0xCFC"

record pci_dev =
  pd_bus :: u8
  pd_dev :: u8
  pd_fn :: u8
  pd_vendor :: u16
  pd_device :: u16
  class_code :: u8
  sub_class :: u8
  prog_if :: u8
  header_type :: u8
  bar_base :: "u32 list"
  bar_size :: "u32 list"
  bar_is_io :: "bool list"
  valid :: bool

record 'd pci =
  devices :: "pci_dev list"
  ndevices :: nat
  pci_log :: messages
  pci_hw :: 'd

definition no_dev :: pci_dev where
  "no_dev = \<lparr>pd_bus = 0, pd_dev = 0, pd_fn = 0, pd_vendor = 0, pd_device = 0, class_code = 0, sub_class = 0,
     prog_if = 0, header_type = 0, bar_base = replicate 6 0, bar_size = replicate 6 0,
     bar_is_io = replicate 6 False, valid = False\<rparr>"

definition pci_boot :: "'d \<Rightarrow> 'd pci" where
  "pci_boot hw = \<lparr>devices = replicate PCI_MAX_DEVICES no_dev, ndevices = 0, pci_log = [], pci_hw = hw\<rparr>"

definition conf_address :: "u8 \<Rightarrow> u8 \<Rightarrow> u8 \<Rightarrow> u8 \<Rightarrow> u32" where
  "conf_address bus dev fn reg = 0x80000000 OR push_bit 16 (ucast bus) OR push_bit 11 (ucast dev) OR
     push_bit 8 (ucast fn) OR ucast (reg AND 0xFC)"

definition pci_conf_read :: "'d ports \<Rightarrow> u8 \<Rightarrow> u8 \<Rightarrow> u8 \<Rightarrow> u8 \<Rightarrow> 'd \<Rightarrow> u32 \<times> 'd" where
  "pci_conf_read io bus dev fn reg hw = inl io CONF_DATA (outl io CONF_ADDR (conf_address bus dev fn reg) hw)"

definition pci_conf_write :: "'d ports \<Rightarrow> u8 \<Rightarrow> u8 \<Rightarrow> u8 \<Rightarrow> u8 \<Rightarrow> u32 \<Rightarrow> 'd \<Rightarrow> 'd" where
  "pci_conf_write io bus dev fn reg val hw =
     outl io CONF_DATA val (outl io CONF_ADDR (conf_address bus dev fn reg) hw)"

definition bar_reg :: "nat \<Rightarrow> u8" where
  "bar_reg i = 0x10 + of_nat i * 4"

definition bar_size_of :: "'d ports \<Rightarrow> pci_dev \<Rightarrow> nat \<Rightarrow> 'd \<Rightarrow> u32 \<times> 'd" where
  "bar_size_of io d i hw =
     (let orig = bar_base d ! i;
          hw = pci_conf_write io (pd_bus d) (pd_dev d) (pd_fn d) (bar_reg i) 0xFFFFFFFF hw;
          (sz, hw) = pci_conf_read io (pd_bus d) (pd_dev d) (pd_fn d) (bar_reg i) hw;
          sz = (if bar_is_io d ! i then (NOT sz + 1) AND 0xFFFF else NOT sz + 1);
          hw = pci_conf_write io (pd_bus d) (pd_dev d) (pd_fn d) (bar_reg i) orig hw
      in (sz, hw))"

text \<open>One base address register. The four masks of the memory case are all \<open>~0xF\<close>.\<close>

definition probe_bar :: "'d ports \<Rightarrow> nat \<Rightarrow> pci_dev \<times> 'd \<Rightarrow> pci_dev \<times> 'd" where
  "probe_bar io i = (\<lambda>(d, hw).
     let (bar, hw) = pci_conf_read io (pd_bus d) (pd_dev d) (pd_fn d) (bar_reg i) hw in
     if bar = 0 then (d, hw)
     else if bar AND 1 \<noteq> 0 \<and> i < 4 then
       let d = d\<lparr>bar_is_io := (bar_is_io d)[i := True], bar_base := (bar_base d)[i := bar AND NOT 3]\<rparr>;
           (sz, hw) = bar_size_of io d i hw
       in (d\<lparr>bar_size := (bar_size d)[i := sz]\<rparr>, hw)
     else if bar AND 1 = 0 then
       let d = d\<lparr>bar_is_io := (bar_is_io d)[i := False], bar_base := (bar_base d)[i := bar AND NOT 0xF]\<rparr>;
           (sz, hw) = bar_size_of io d i hw
       in (d\<lparr>bar_size := (bar_size d)[i := sz]\<rparr>, hw)
     else (d, hw))"

definition pci_class_name :: "u8 \<Rightarrow> string" where
  "pci_class_name c =
     (if c = 0x00 then ''legacy'' else if c = 0x01 then ''storage'' else if c = 0x02 then ''network''
      else if c = 0x03 then ''display'' else if c = 0x04 then ''multimedia'' else if c = 0x05 then ''memory''
      else if c = 0x06 then ''bridge'' else if c = 0x07 then ''comm'' else if c = 0x08 then ''system''
      else if c = 0x09 then ''input'' else if c = 0x0C then ''serial-bus'' else ''other'')"

definition add_device :: "'d ports \<Rightarrow> u8 \<Rightarrow> u8 \<Rightarrow> u8 \<Rightarrow> 'd pci \<Rightarrow> 'd pci" where
  "add_device io bus dev fn s =
     (if ndevices s \<ge> PCI_MAX_DEVICES then s
      else
        let (id, hw) = pci_conf_read io bus dev fn 0x00 (pci_hw s) in
        if id AND 0xFFFF = 0xFFFF \<or> id AND 0xFFFF = 0 then s\<lparr>pci_hw := hw\<rparr>
        else
          let (cls, hw) = pci_conf_read io bus dev fn 0x08 hw;
              (ht, hw) = pci_conf_read io bus dev fn 0x0C hw;
              d = (devices s ! ndevices s)\<lparr>pd_vendor := ucast (id AND 0xFFFF), pd_device := ucast (drop_bit 16 id),
                    pd_bus := bus, pd_dev := dev, pd_fn := fn, class_code := ucast (drop_bit 24 cls),
                    sub_class := ucast (drop_bit 16 cls), prog_if := ucast (drop_bit 8 cls),
                    header_type := ucast (drop_bit 16 ht), valid := True\<rparr>;
              (d, hw) = fold (probe_bar io) [0..<6] (d, hw)
          in s\<lparr>devices := (devices s)[ndevices s := d], ndevices := ndevices s + 1, pci_hw := hw,
               pci_log := pci_log s @ [(''pci %02x:%02x.%d [%s] %04x:%04x'',
                 [SNum (ucast bus), SNum (ucast dev), SNum (ucast fn), str_arg (cstring (pci_class_name (class_code d))),
                  SNum (ucast (pd_vendor d)), SNum (ucast (pd_device d))])]\<rparr>)"

definition scan_function ::
  "(u8 \<Rightarrow> 'd pci \<Rightarrow> 'd pci option) \<Rightarrow> 'd ports \<Rightarrow> u8 \<Rightarrow> u8 \<Rightarrow> u8 \<Rightarrow> 'd pci \<Rightarrow> 'd pci option" where
  "scan_function scan io bus dev fn s =
     (let (id, hw) = pci_conf_read io bus dev fn 0x00 (pci_hw s); s = s\<lparr>pci_hw := hw\<rparr> in
      if id AND 0xFFFF = 0xFFFF then Some s
      else
        let before = ndevices s; s = add_device io bus dev fn s in
        if ndevices s > before then
          let d = devices s ! (ndevices s - 1) in
          if class_code d = 0x06 \<and> sub_class d = 0x04 then
            let (sec, hw) = pci_conf_read io bus dev fn 0x18 (pci_hw s) in
            scan (ucast (drop_bit 8 sec)) (s\<lparr>pci_hw := hw\<rparr>)
          else Some s
        else Some s)"

definition scan_slot ::
  "(u8 \<Rightarrow> 'd pci \<Rightarrow> 'd pci option) \<Rightarrow> 'd ports \<Rightarrow> u8 \<Rightarrow> u8 \<Rightarrow> 'd pci \<Rightarrow> 'd pci option" where
  "scan_slot scan io bus dev s =
     (let s = add_device io bus dev 0 s in
      if \<not> valid (devices s ! 0) \<and> ndevices s = 0 then Some s
      else
        let (ht, hw) = pci_conf_read io bus dev 0 0x0C (pci_hw s); s = s\<lparr>pci_hw := hw\<rparr> in
        if drop_bit 16 ht AND 0x80 = 0 then Some s
        else ofold (scan_function scan io bus dev) (map of_nat [1..<8]) s)"

text \<open>The first argument bounds the depth of the recursion.\<close>

fun pci_scan_bus :: "nat \<Rightarrow> 'd ports \<Rightarrow> u8 \<Rightarrow> 'd pci \<Rightarrow> 'd pci option" where
  "pci_scan_bus 0 io bus s = None"
| "pci_scan_bus (Suc k) io bus s = ofold (scan_slot (pci_scan_bus k io) io bus) (map of_nat [0..<32]) s"

definition pci_init :: "'d ports \<Rightarrow> 'd pci \<Rightarrow> 'd pci option" where
  "pci_init io s = pci_scan_bus (Suc PCI_MAX_DEVICES) io 0 (s\<lparr>ndevices := 0\<rparr>)"

definition pci_count :: "'d pci \<Rightarrow> int" where
  "pci_count s = int (ndevices s)"

definition pci_get :: "int \<Rightarrow> 'd pci \<Rightarrow> pci_dev option" where
  "pci_get idx s = (if idx < 0 \<or> idx \<ge> int (ndevices s) then None else Some (devices s ! nat idx))"

fun find_from :: "(pci_dev \<Rightarrow> bool) \<Rightarrow> int \<Rightarrow> pci_dev list \<Rightarrow> int" where
  "find_from P i [] = -1"
| "find_from P i (d # ds) = (if P d then i else find_from P (i + 1) ds)"

definition pci_find_class :: "u8 \<Rightarrow> u8 \<Rightarrow> 'd pci \<Rightarrow> int" where
  "pci_find_class cls scls s = find_from (\<lambda>d. class_code d = cls \<and> (scls = 0xFF \<or> sub_class d = scls)) 0
     (take (ndevices s) (devices s))"

definition pci_find_vendor_device :: "u16 \<Rightarrow> u16 \<Rightarrow> 'd pci \<Rightarrow> int" where
  "pci_find_vendor_device vendor dev s = find_from (\<lambda>d. pd_vendor d = vendor \<and> pd_device d = dev) 0
     (take (ndevices s) (devices s))"

definition pci_display_controller :: "'d pci \<Rightarrow> pci_dev option" where
  "pci_display_controller s = (let i = pci_find_class 0x03 0xFF s in
     if i \<ge> 0 then Some (devices s ! nat i) else None)"

section \<open>The table of devices\<close>

text \<open>Every entry in use describes a function that answered, and the arrays have their sizes.\<close>

definition dev_ok :: "pci_dev \<Rightarrow> bool" where
  "dev_ok d \<longleftrightarrow> valid d \<and> pd_vendor d \<noteq> 0 \<and> pd_vendor d \<noteq> 0xFFFF"

definition bars_ok :: "pci_dev \<Rightarrow> bool" where
  "bars_ok d \<longleftrightarrow> length (bar_base d) = 6 \<and> length (bar_size d) = 6 \<and> length (bar_is_io d) = 6"

definition pci_ok :: "'d pci \<Rightarrow> bool" where
  "pci_ok s \<longleftrightarrow> length (devices s) = PCI_MAX_DEVICES \<and> ndevices s \<le> PCI_MAX_DEVICES \<and>
     (\<forall>d \<in> set (devices s). bars_ok d) \<and> (\<forall>d \<in> set (take (ndevices s) (devices s)). dev_ok d)"

lemma vendor_ok:
  fixes id :: u32
  assumes "id AND 0xFFFF \<noteq> 0xFFFF" and "id AND 0xFFFF \<noteq> 0"
  shows "(ucast (id AND 0xFFFF) :: u16) \<noteq> 0 \<and> (ucast (id AND 0xFFFF) :: u16) \<noteq> 0xFFFF"
proof -
  have "id AND 0xFFFF = take_bit 16 id" by (simp add: take_bit_eq_mask mask_eq_exp_minus_1)
  moreover have "unat (take_bit 16 id) = take_bit 16 (unat id)" by (simp add: unsigned_take_bit_eq)
  ultimately have "unat (id AND 0xFFFF) < 2 ^ 16" by (simp only:) (simp add: take_bit_eq_mod)
  then have u: "unat (ucast (id AND 0xFFFF) :: u16) = unat (id AND 0xFFFF)" by (simp add: unat_ucast_down)
  show ?thesis
  proof (intro conjI notI)
    assume "(ucast (id AND 0xFFFF) :: u16) = 0"
    then have "unat (id AND 0xFFFF) = unat (0 :: u32)" using u by simp
    then show False using assms(2) unfolding unat_eq_iff_word by simp
  next
    assume "(ucast (id AND 0xFFFF) :: u16) = 0xFFFF"
    then have "unat (id AND 0xFFFF) = unat (0xFFFF :: u32)" using u by simp
    then show False using assms(1) unfolding unat_eq_iff_word by simp
  qed
qed

text \<open>A base address register touches nothing but the three arrays.\<close>

definition same_dev :: "pci_dev \<Rightarrow> pci_dev \<Rightarrow> bool" where
  "same_dev d d' \<longleftrightarrow> pd_bus d' = pd_bus d \<and> pd_dev d' = pd_dev d \<and> pd_fn d' = pd_fn d \<and> pd_vendor d' = pd_vendor d \<and>
     pd_device d' = pd_device d \<and> class_code d' = class_code d \<and> sub_class d' = sub_class d \<and> valid d' = valid d \<and>
     (bars_ok d \<longrightarrow> bars_ok d')"

lemma probe_bar_same: "same_dev d (fst (probe_bar io i (d, hw)))"
  by (auto simp: probe_bar_def same_dev_def bars_ok_def Let_def case_prod_beta)

lemma probe_bars_same: "same_dev d (fst (fold (probe_bar io) is (d, hw)))"
proof (induction "is" arbitrary: d hw)
  case (Cons i "is")
  obtain d1 hw1 where p: "probe_bar io i (d, hw) = (d1, hw1)" by fastforce
  have "same_dev d d1" using probe_bar_same [of d io i hw] p by simp
  then show ?case using Cons [of d1 hw1] by (simp add: p same_dev_def)
qed (simp add: same_dev_def)

lemma add_device_cases:
  assumes "pci_ok s"
  obtains hw where "add_device io bus dev fn s = s\<lparr>pci_hw := hw\<rparr>"
  | d hw log where "add_device io bus dev fn s =
        s\<lparr>devices := (devices s)[ndevices s := d], ndevices := ndevices s + 1, pci_hw := hw, pci_log := log\<rparr>"
      "ndevices s < PCI_MAX_DEVICES" "dev_ok d" "bars_ok d" "pd_bus d = bus" "pd_dev d = dev" "pd_fn d = fn"
proof (cases "ndevices s \<ge> PCI_MAX_DEVICES")
  case True
  then show ?thesis by (intro that(1) [of "pci_hw s"]) (simp add: add_device_def)
next
  case False
  obtain id hw1 where r1: "pci_conf_read io bus dev fn 0x00 (pci_hw s) = (id, hw1)" by fastforce
  obtain cls hw2 where r2: "pci_conf_read io bus dev fn 0x08 hw1 = (cls, hw2)" by fastforce
  obtain ht hw3 where r3: "pci_conf_read io bus dev fn 0x0C hw2 = (ht, hw3)" by fastforce
  show ?thesis
  proof (cases "id AND 0xFFFF = 0xFFFF \<or> id AND 0xFFFF = 0")
    case True
    then show ?thesis using False by (intro that(1) [of hw1]) (simp add: add_device_def r1)
  next
    case answered: False
    let ?d0 = "(devices s ! ndevices s)\<lparr>pd_vendor := ucast (id AND 0xFFFF), pd_device := ucast (drop_bit 16 id),
        pd_bus := bus, pd_dev := dev, pd_fn := fn, class_code := ucast (drop_bit 24 cls),
        sub_class := ucast (drop_bit 16 cls), prog_if := ucast (drop_bit 8 cls),
        header_type := ucast (drop_bit 16 ht), valid := True\<rparr>"
    obtain d hw where f: "fold (probe_bar io) [0..<6] (?d0, hw3) = (d, hw)" by fastforce
    have same: "same_dev ?d0 d" using probe_bars_same [of ?d0 io "[0..<6]" hw3] f by simp
    have "bars_ok (devices s ! ndevices s)" using assms False by (simp add: pci_ok_def)
    then have "bars_ok ?d0" by (simp add: bars_ok_def)
    then have "dev_ok d" "bars_ok d" "pd_bus d = bus" "pd_dev d = dev" "pd_fn d = fn"
      using same vendor_ok [of id] answered by (auto simp: same_dev_def dev_ok_def)
    then show ?thesis
      by (intro that(2)) (use False answered in \<open>simp_all add: add_device_def r1 r2 r3 f del: upt_Suc\<close>)
  qed
qed

text \<open>What every step of the scan keeps: the table stays well formed, and only grows.\<close>

definition grows :: "'d pci \<Rightarrow> 'd pci \<Rightarrow> bool" where
  "grows s s' \<longleftrightarrow> pci_ok s' \<and> ndevices s \<le> ndevices s' \<and>
     take (ndevices s) (devices s') = take (ndevices s) (devices s)"

lemma grows_refl: "pci_ok s \<Longrightarrow> grows s s"
  by (simp add: grows_def)

lemma grows_trans: "grows s1 s2 \<Longrightarrow> grows s2 s3 \<Longrightarrow> grows s1 s3"
  unfolding grows_def by (metis min.absorb1 order_trans take_take)

lemma grows_hw: "pci_ok s \<Longrightarrow> grows s (s\<lparr>pci_hw := hw\<rparr>)"
  by (simp add: grows_def pci_ok_def)

lemma grows_trans_hw: "grows s t \<Longrightarrow> grows s (t\<lparr>pci_hw := hw\<rparr>)"
  by (auto simp: grows_def pci_ok_def)

lemma add_device_grows:
  assumes "pci_ok s"
  shows "grows s (add_device io bus dev fn s)"
  using assms
proof (cases rule: add_device_cases [of s io bus dev fn])
  case (1 hw)
  then show ?thesis using grows_hw [OF assms] by simp
next
  case (2 d hw log)
  have "set ((devices s)[ndevices s := d]) \<subseteq> insert d (set (devices s))" by (rule set_update_subset_insert)
  then show ?thesis
    using 2 assms by (auto simp: grows_def pci_ok_def take_Suc_conv_app_nth)
qed

text \<open>The scan below a bridge is assumed to return and to keep the table whenever the table has more
  than \<open>m\<close> entries; then the scan of a slot does as well from \<open>m\<close> entries on.\<close>

definition scans :: "nat \<Rightarrow> (u8 \<Rightarrow> 'd pci \<Rightarrow> 'd pci option) \<Rightarrow> bool" where
  "scans m scan \<longleftrightarrow> (\<forall>bus s. pci_ok s \<longrightarrow> m < ndevices s \<longrightarrow> (\<exists>s'. scan bus s = Some s' \<and> grows s s'))"

lemma scan_function_grows:
  assumes "scans m scan" and ok: "pci_ok s" and m: "m \<le> ndevices s"
  shows "\<exists>s'. scan_function scan io bus dev fn s = Some s' \<and> grows s s'"
proof -
  obtain id hw where r: "pci_conf_read io bus dev fn 0x00 (pci_hw s) = (id, hw)" by fastforce
  let ?s1 = "s\<lparr>pci_hw := hw\<rparr>"
  let ?s2 = "add_device io bus dev fn ?s1"
  obtain sec hw2 where r2: "pci_conf_read io bus dev fn 0x18 (pci_hw ?s2) = (sec, hw2)" by fastforce
  have g1: "grows s ?s1" by (rule grows_hw [OF ok])
  then have g2: "grows s ?s2" using add_device_grows [of ?s1 io bus dev fn] grows_trans by (auto simp: grows_def)
  have "\<exists>s'. scan b (?s2\<lparr>pci_hw := hw2\<rparr>) = Some s' \<and> grows s s'" if more: "ndevices s < ndevices ?s2" for b
  proof -
    have g3: "grows s (?s2\<lparr>pci_hw := hw2\<rparr>)" by (rule grows_trans_hw [OF g2])
    have "pci_ok (?s2\<lparr>pci_hw := hw2\<rparr>)" "m < ndevices (?s2\<lparr>pci_hw := hw2\<rparr>)"
      using g3 m more by (simp_all add: grows_def)
    then obtain s' where "scan b (?s2\<lparr>pci_hw := hw2\<rparr>) = Some s'" "grows (?s2\<lparr>pci_hw := hw2\<rparr>) s'"
      using assms(1) unfolding scans_def by blast
    then show ?thesis using grows_trans [OF g3] by blast
  qed
  then show ?thesis using g1 g2 by (simp add: scan_function_def r r2 Let_def)
qed

lemma scan_slot_grows:
  assumes "scans m scan" and ok: "pci_ok s" and m: "m \<le> ndevices s"
  shows "\<exists>s'. scan_slot scan io bus dev s = Some s' \<and> grows s s'"
proof -
  let ?s1 = "add_device io bus dev 0 s"
  obtain ht hw where r: "pci_conf_read io bus dev 0 0x0C (pci_hw ?s1) = (ht, hw)" by fastforce
  let ?s2 = "?s1\<lparr>pci_hw := hw\<rparr>"
  have g1: "grows s ?s1" by (rule add_device_grows [OF ok])
  have g2: "grows s ?s2" by (rule grows_trans_hw [OF g1])
  have "\<exists>s'. ofold (scan_function scan io bus dev) (map of_nat [1..<8]) ?s2 = Some s' \<and> grows s s'"
  proof (rule ofold_total [where P = "grows s", OF g2])
    fix x t
    assume g: "grows s t"
    then have "pci_ok t" "m \<le> ndevices t" using m by (auto simp: grows_def)
    then show "\<exists>s'. scan_function scan io bus dev x t = Some s' \<and> grows s s'"
      using scan_function_grows [OF assms(1)] grows_trans [OF g] by blast
  qed
  then show ?thesis using g1 g2 by (simp add: scan_slot_def r Let_def del: upt_Suc)
qed

lemma scan_bus_grows:
  assumes "pci_ok s" and "PCI_MAX_DEVICES < k + ndevices s"
  shows "\<exists>s'. pci_scan_bus k io bus s = Some s' \<and> grows s s'"
  using assms
proof (induction k arbitrary: bus s)
  case 0
  then show ?case by (simp add: pci_ok_def)
next
  case (Suc k)
  have sc: "scans (PCI_MAX_DEVICES - k) (pci_scan_bus k io)"
    unfolding scans_def using Suc.IH by fastforce
  show ?case unfolding pci_scan_bus.simps
  proof (rule ofold_total [where P = "grows s", OF grows_refl [OF Suc.prems(1)]])
    fix x t
    assume g: "grows s t"
    then have "pci_ok t" "PCI_MAX_DEVICES - k \<le> ndevices t" using Suc.prems(2) by (auto simp: grows_def)
    then show "\<exists>s'. scan_slot (pci_scan_bus k io) io bus x t = Some s' \<and> grows s s'"
      using scan_slot_grows [OF sc] grows_trans [OF g] by blast
  qed
qed

lemma find_from_spec:
  "find_from P k ds = (case find (\<lambda>i. P (ds ! i)) [0..<length ds] of None \<Rightarrow> -1 | Some i \<Rightarrow> k + int i)"
proof (induction ds arbitrary: k)
  case (Cons d ds)
  have up: "[0..<Suc (length ds)] = 0 # map Suc [0..<length ds]"
    by (simp add: map_Suc_upt upt_conv_Cons del: upt_Suc)
  have fm: "find Q (map Suc xs) = map_option Suc (find (Q \<circ> Suc) xs)" for Q xs
    by (induction xs) auto
  show ?case using Cons by (auto simp: up fm comp_def simp del: upt_Suc split: option.splits)
qed simp

lemma find_from_props:
  assumes "find_from P 0 ds = i"
  shows "(i = -1 \<and> (\<forall>d \<in> set ds. \<not> P d)) \<or>
    (0 \<le> i \<and> nat i < length ds \<and> P (ds ! nat i) \<and> (\<forall>j < nat i. \<not> P (ds ! j)))"
proof (cases "find (\<lambda>i. P (ds ! i)) [0..<length ds]")
  case None
  then have "i = -1" using assms by (simp add: find_from_spec)
  then show ?thesis using None by (auto simp: find_None_iff in_set_conv_nth)
next
  case (Some k)
  then have "i = int k" using assms by (simp add: find_from_spec)
  then show ?thesis using Some by (auto simp: find_Some_iff)
qed

section \<open>Where only function 0 answers\<close>

definition on_bus0 :: "'d pci \<Rightarrow> bool" where
  "on_bus0 s \<longleftrightarrow> (\<forall>d \<in> set (take (ndevices s) (devices s)). pd_bus d = 0)"

lemma scan_slot_bus0:
  assumes single: "\<And>bus dev fn hw. fn \<noteq> 0 \<Longrightarrow> fst (pci_conf_read io bus dev fn 0 hw) = 0xFFFFFFFF"
    and ok: "pci_ok s" and b0: "on_bus0 s" and scan: "scan_slot scan io 0 dev s = Some s'"
  shows "pci_ok s' \<and> on_bus0 s'"
proof -
  let ?s1 = "add_device io 0 dev 0 s"
  obtain ht hw where r: "pci_conf_read io 0 dev 0 0x0C (pci_hw ?s1) = (ht, hw)" by fastforce
  let ?s2 = "?s1\<lparr>pci_hw := hw\<rparr>"
  have ok1: "pci_ok ?s1" using add_device_grows [OF ok] by (simp add: grows_def)
  have b1: "on_bus0 ?s1" using ok
  proof (cases rule: add_device_cases [of s io 0 dev 0])
    case (1 hw)
    then show ?thesis using b0 by (simp add: on_bus0_def)
  next
    case (2 d hw log)
    then show ?thesis using b0 ok by (auto simp: on_bus0_def pci_ok_def take_Suc_conv_app_nth)
  qed
  have fn: "x \<noteq> 0" if "x \<in> set (map of_nat [1..<8] :: u8 list)" for x using that by (auto simp: upt_conv_Cons)
  have "pci_ok s'' \<and> on_bus0 s''"
    if "ofold (scan_function scan io 0 dev) (map of_nat [1..<8]) ?s2 = Some s''" for s''
  proof (rule ofold_inv [OF that])
    show "pci_ok ?s2 \<and> on_bus0 ?s2" using ok1 b1 by (simp add: pci_ok_def on_bus0_def)
  next
    fix x t t'
    assume x: "x \<in> set (map of_nat [1..<8] :: u8 list)" and t: "pci_ok t \<and> on_bus0 t"
      and step: "scan_function scan io 0 dev x t = Some t'"
    obtain id hw where r: "pci_conf_read io 0 dev x 0 (pci_hw t) = (id, hw)" by fastforce
    then have "id = 0xFFFFFFFF" using single [OF fn [OF x], of 0 dev "pci_hw t"] by simp
    then show "pci_ok t' \<and> on_bus0 t'"
      using step t by (auto simp: scan_function_def r pci_ok_def on_bus0_def)
  qed
  then show ?thesis
    using scan ok1 b1 by (auto simp: scan_slot_def r Let_def pci_ok_def on_bus0_def simp del: upt_Suc split: if_splits)
qed

section \<open>Properties\<close>

text \<open>C27: the scan returns on every machine, whatever the configuration reads give: bridges that name
  their own bus cannot make it recurse for ever, since the table bounds the recursion. Afterwards the
  table has at most 32 entries in use, each of them of a function that answered with a vendor, and
  \<open>pci_find_class\<close> gives the first entry of a class, or -1 when there is none.\<close>

theorem pci_init_terminates:
  assumes "length (devices s) = PCI_MAX_DEVICES" and "\<forall>d \<in> set (devices s). bars_ok d"
  shows "\<exists>s'. pci_init io s = Some s' \<and> pci_count s' \<le> 32 \<and>
    (\<forall>i d. pci_get i s' = Some d \<longrightarrow> valid d \<and> pd_vendor d \<noteq> 0 \<and> pd_vendor d \<noteq> 0xFFFF) \<and>
    (let i = pci_find_class cls 0xFF s' in
      i = -1 \<and> (\<forall>j d. pci_get j s' = Some d \<longrightarrow> class_code d \<noteq> cls) \<or>
      (\<exists>d. pci_get i s' = Some d \<and> class_code d = cls \<and>
        (\<forall>j < i. \<forall>d. pci_get j s' = Some d \<longrightarrow> class_code d \<noteq> cls)))"
proof -
  have "pci_ok (s\<lparr>ndevices := 0\<rparr>)" using assms by (simp add: pci_ok_def)
  then obtain s' where s': "pci_init io s = Some s'" "pci_ok s'"
    using scan_bus_grows [of "s\<lparr>ndevices := 0\<rparr>" "Suc PCI_MAX_DEVICES" io 0] by (auto simp: pci_init_def grows_def)
  have get: "pci_get j s' = Some d \<longleftrightarrow> 0 \<le> j \<and> nat j < ndevices s' \<and> d = take (ndevices s') (devices s') ! nat j" for j d
    by (auto simp: pci_get_def)
  have len: "length (take (ndevices s') (devices s')) = ndevices s'" using s'(2) by (simp add: pci_ok_def)
  have mem: "d \<in> set (take (ndevices s') (devices s'))" if "pci_get j s' = Some d" for j d
    using that get nth_mem [of "nat j" "take (ndevices s') (devices s')"] len by auto
  have "pci_count s' \<le> 32" using s'(2) by (simp add: pci_count_def pci_ok_def PCI_MAX_DEVICES_def)
  moreover have "\<forall>i d. pci_get i s' = Some d \<longrightarrow> valid d \<and> pd_vendor d \<noteq> 0 \<and> pd_vendor d \<noteq> 0xFFFF"
    using s'(2) mem by (auto simp: pci_ok_def dev_ok_def)
  moreover have "let i = pci_find_class cls 0xFF s' in
      i = -1 \<and> (\<forall>j d. pci_get j s' = Some d \<longrightarrow> class_code d \<noteq> cls) \<or>
      (\<exists>d. pci_get i s' = Some d \<and> class_code d = cls \<and>
        (\<forall>j < i. \<forall>d. pci_get j s' = Some d \<longrightarrow> class_code d \<noteq> cls))"
  proof -
    let ?ds = "take (ndevices s') (devices s')"
    obtain i where i: "pci_find_class cls 0xFF s' = i" "find_from (\<lambda>d. class_code d = cls) 0 ?ds = i"
      by (simp add: pci_find_class_def)
    have "nat j < nat i" if "0 \<le> j" "j < i" for j :: int using that by simp
    then show ?thesis
      using find_from_props [OF i(2)] mem unfolding Let_def i(1) get len by blast
  qed
  ultimately show ?thesis using s'(1) by blast
qed

theorem pci_init_terminates_witness:
  "\<exists>s'. pci_init floating_bus (pci_boot ()) = Some s' \<and> pci_count s' \<le> 32"
proof -
  have "\<forall>d \<in> set (devices (pci_boot ())). bars_ok d" by (simp add: pci_boot_def no_dev_def bars_ok_def)
  then show ?thesis
    using pci_init_terminates [of "pci_boot ()" floating_bus 0] by (auto simp: pci_boot_def)
qed


text \<open>A machine with a configuration space: the address port latches, the data port reads it.\<close>

definition conf_space :: "(u32 \<Rightarrow> u32) \<Rightarrow> u32 ports" where
  "conf_space cfg = \<lparr>inb = \<lambda>p hw. (0xFF, hw), outb = \<lambda>p v hw. hw, inw = \<lambda>p hw. (0xFFFF, hw), outw = \<lambda>p v hw. hw,
     inl = \<lambda>p hw. (if p = CONF_DATA then cfg hw else 0xFFFFFFFF, hw),
     outl = \<lambda>p v hw. if p = CONF_ADDR then v else hw\<rparr>"

text \<open>A bridge to bus 1 at slot 0 of bus 0, and one network card on bus 1.\<close>

definition bridge_space :: "u32 \<Rightarrow> u32" where
  "bridge_space a =
     (if a = 0x80000000 then 0x12348086 else if a = 0x80000008 then 0x06040000
      else if a = 0x80000018 then 0x00000100 else if a = 0x80010000 then 0x100E8086
      else if a = 0x80010008 then 0x02000000 else 0xFFFFFFFF)"

lemma bridge_space_single:
  assumes "fn \<noteq> 0"
  shows "fst (pci_conf_read (conf_space bridge_space) bus dev fn 0 hw) = 0xFFFFFFFF"
proof -
  have "conf_address bus dev fn 0 \<noteq> v" if v: "v \<in> {0x80000000, 0x80000008, 0x80000018, 0x80010000, 0x80010008}" for v
  proof
    assume eq: "conf_address bus dev fn 0 = v"
    have "\<not> bit fn i" if i: "i < 8" for i
    proof
      assume "bit fn i"
      then have "bit v (8 + i)" using i by (auto simp: eq [symmetric] conf_address_def bit_simps)
      moreover have "i \<in> set [0..<8]" using i by simp
      ultimately show False using v by (auto simp: upt_conv_Cons)
    qed
    then have "fn = 0" by (intro bit_word_eqI) simp
    then show False using assms by simp
  qed
  then show ?thesis by (simp add: pci_conf_read_def conf_space_def bridge_space_def CONF_ADDR_def CONF_DATA_def)
qed


end
