(* ===== verification/Nic.thy ===== *)
theory Nic
  imports Mmio Pci
begin

text \<open>
  Network controllers: the registry \<open>drivers/net/net.c\<close>, the Intel driver \<open>drivers/net/e1000.c\<close>
  and the discovery pass \<open>drivers/net/net_detect.c\<close>. The controller is a parameter: its registers
  behind BAR 0, and the rings and buffers that the driver shares with it, whose addresses are the
  link addresses of the driver's arrays.
\<close>

section \<open>The registry (drivers/net/net.c)\<close>

record net_device =
  nd_name :: string
  nd_mac :: bytes
  nd_io_base :: u16
  nd_wireless :: bool
  nd_link_up :: bool
  nd_tx_frames :: u32
  nd_rx_frames :: u32

definition zero_net_device :: net_device where
  "zero_net_device = \<lparr>nd_name = [], nd_mac = replicate 6 0, nd_io_base = 0, nd_wireless = False, nd_link_up = False,
     nd_tx_frames = 0, nd_rx_frames = 0\<rparr>"

record netdevs =
  net_registry :: "net_device list"
  nreg :: nat

definition netdev_register :: "net_device option \<Rightarrow> netdevs \<Rightarrow> netdevs" where
  "netdev_register nd r = (case nd of
     None \<Rightarrow> r
   | Some d \<Rightarrow> if nreg r \<ge> 8 then r
       else r\<lparr>net_registry := (net_registry r)[nreg r := d], nreg := nreg r + 1\<rparr>)"

definition netdev_count :: "netdevs \<Rightarrow> int" where
  "netdev_count r = int (nreg r)"

definition netdev_get :: "int \<Rightarrow> netdevs \<Rightarrow> net_device option" where
  "netdev_get idx r = (if idx < 0 \<or> idx \<ge> int (nreg r) then None else Some (net_registry r ! nat idx))"

definition netdev_mac_first :: "netdevs \<Rightarrow> bytes option" where
  "netdev_mac_first r = (if netdev_count r = 0 then None else map_option nd_mac (netdev_get 0 r))"

section \<open>The Intel driver (drivers/net/e1000.c)\<close>

definition REG_CTRL :: u32 where "REG_CTRL = 0x0000"
definition REG_STATUS :: u32 where "REG_STATUS = 0x0008"
definition REG_EEPROM :: u32 where "REG_EEPROM = 0x0014"
definition REG_IMASK :: u32 where "REG_IMASK = 0x00D0"
definition REG_RCTL :: u32 where "REG_RCTL = 0x0100"
definition REG_TCTL :: u32 where "REG_TCTL = 0x0400"
definition REG_RDBAL :: u32 where "REG_RDBAL = 0x2800"
definition REG_RDBAH :: u32 where "REG_RDBAH = 0x2804"
definition REG_RDLEN :: u32 where "REG_RDLEN = 0x2808"
definition REG_RDH :: u32 where "REG_RDH = 0x2810"
definition REG_RDT :: u32 where "REG_RDT = 0x2818"
definition REG_TDBAL :: u32 where "REG_TDBAL = 0x3800"
definition REG_TDBAH :: u32 where "REG_TDBAH = 0x3804"
definition REG_TDLEN :: u32 where "REG_TDLEN = 0x3808"
definition REG_TDH :: u32 where "REG_TDH = 0x3810"
definition REG_TDT :: u32 where "REG_TDT = 0x3818"

definition RX_DESCS :: nat where "RX_DESCS = 32"
definition TX_DESCS :: nat where "TX_DESCS = 8"
definition BUF_SIZE :: nat where "BUF_SIZE = 2048"

text \<open>Offsets of the fields of the two 16-byte descriptors: \<open>length\<close> at 8 and \<open>status\<close> at 12 in both.\<close>

definition desc_at :: "u64 \<Rightarrow> u16 \<Rightarrow> u64" where
  "desc_at ring i = ring + 16 * ucast i"

record 'd e1000_hw = "'d mmio" +
  rx_ring :: u64
  tx_ring :: u64
  rx_buffers :: u64
  tx_buffer :: u64

record 'd nic =
  e_regs :: u64
  rx_tail :: u16
  tx_tail :: u16
  e_link_up :: bool
  netdevs :: netdevs
  nic_log :: messages
  nic_hw :: 'd

definition nic_boot :: "'d \<Rightarrow> 'd nic" where
  "nic_boot hw = \<lparr>e_regs = 0, rx_tail = 0, tx_tail = 0, e_link_up = False,
     netdevs = \<lparr>net_registry = replicate 8 zero_net_device, nreg = 0\<rparr>, nic_log = [], nic_hw = hw\<rparr>"

definition reg_rd :: "'d e1000_hw \<Rightarrow> u32 \<Rightarrow> 'd nic \<Rightarrow> u32 \<times> 'd nic" where
  "reg_rd io off n = (let (v, hw) = reg_in io (e_regs n + ucast (off div 4 * 4)) (nic_hw n) in (v, n\<lparr>nic_hw := hw\<rparr>))"

definition reg_wr :: "'d e1000_hw \<Rightarrow> u32 \<Rightarrow> u32 \<Rightarrow> 'd nic \<Rightarrow> 'd nic" where
  "reg_wr io off v n = n\<lparr>nic_hw := reg_out io (e_regs n + ucast (off div 4 * 4)) v (nic_hw n)\<rparr>"

fun eeprom_wait :: "nat \<Rightarrow> 'd e1000_hw \<Rightarrow> 'd nic \<Rightarrow> u16 option \<times> 'd nic" where
  "eeprom_wait 0 io n = (None, n)"
| "eeprom_wait (Suc k) io n =
     (let (v, n) = reg_rd io REG_EEPROM n in
      if v AND push_bit 4 1 \<noteq> 0 then (Some (ucast (drop_bit 16 v)), n) else eeprom_wait k io n)"

definition eeprom_read :: "'d e1000_hw \<Rightarrow> u8 \<Rightarrow> 'd nic \<Rightarrow> u16 option \<times> 'd nic" where
  "eeprom_read io word n = eeprom_wait 200000 io (reg_wr io REG_EEPROM (1 OR push_bit 8 (ucast word)) n)"

definition e1000_present :: "'d nic \<Rightarrow> bool" where
  "e1000_present n \<longleftrightarrow> e_regs n \<noteq> 0"

fun reset_wait :: "nat \<Rightarrow> 'd e1000_hw \<Rightarrow> 'd nic \<Rightarrow> 'd nic" where
  "reset_wait 0 io n = n"
| "reset_wait (Suc k) io n =
     (let (v, n) = reg_rd io REG_CTRL n in
      if v AND push_bit 26 1 = 0 then n else reset_wait k io n)"

text \<open>The three words of the address, stored at \<open>mac[2 * i]\<close> when the read succeeds.\<close>

definition read_mac :: "'d e1000_hw \<Rightarrow> 'd nic \<Rightarrow> (bool \<times> bytes) \<times> 'd nic" where
  "read_mac io n = fold (\<lambda>i ((ok, mac), n).
       let (w, n) = eeprom_read io (of_nat i) n in
       (case w of None \<Rightarrow> ((False, mac), n) | Some v \<Rightarrow> ((ok, upd mac (i * 2) (bytes16 v)), n)))
     [0..<3] ((True, replicate 6 0), n)"

definition setup_rx :: "'d e1000_hw \<Rightarrow> 'd nic \<Rightarrow> 'd nic" where
  "setup_rx io n =
     (let n = n\<lparr>nic_hw := fold (\<lambda>i hw.
                  shared_write io (desc_at (rx_ring io) (of_nat i) + 12) [0]
                    (shared_write io (desc_at (rx_ring io) (of_nat i))
                      (bytes64 (rx_buffers io + of_nat (i * BUF_SIZE))) hw)) [0..<RX_DESCS] (nic_hw n)\<rparr>;
          n = reg_wr io REG_RDBAL (ucast (rx_ring io)) n;
          n = reg_wr io REG_RDBAH (ucast (drop_bit 32 (rx_ring io))) n;
          n = reg_wr io REG_RDLEN (of_nat (16 * RX_DESCS)) n;
          n = reg_wr io REG_RDH 0 n;
          n = reg_wr io REG_RDT (of_nat (RX_DESCS - 1)) n;
          n = n\<lparr>rx_tail := of_nat (RX_DESCS - 1)\<rparr>
      in reg_wr io REG_RCTL (push_bit 1 1 OR push_bit 3 1 OR push_bit 5 1 OR push_bit 15 1) n)"

definition setup_tx :: "'d e1000_hw \<Rightarrow> 'd nic \<Rightarrow> 'd nic" where
  "setup_tx io n =
     (let n = n\<lparr>nic_hw := fold (\<lambda>i hw. shared_write io (desc_at (tx_ring io) (of_nat i) + 12) [0] hw)
                 [0..<TX_DESCS] (nic_hw n)\<rparr>;
          n = reg_wr io REG_TDBAL (ucast (tx_ring io)) n;
          n = reg_wr io REG_TDBAH (ucast (drop_bit 32 (tx_ring io))) n;
          n = reg_wr io REG_TDLEN (of_nat (16 * TX_DESCS)) n;
          n = reg_wr io REG_TDH 0 n;
          n = reg_wr io REG_TDT 0 n;
          n = n\<lparr>tx_tail := 0\<rparr>
      in reg_wr io REG_TCTL (push_bit 1 1 OR push_bit 3 1) n)"

definition e1000_init :: "'d e1000_hw \<Rightarrow> pci_dev \<Rightarrow> 'd nic \<Rightarrow> bool \<times> 'd nic" where
  "e1000_init io dev n =
     (if bar_base dev ! 0 = 0 then (False, n)
      else
        let n = n\<lparr>e_regs := ucast (bar_base dev ! 0)\<rparr>;
            (v, n) = reg_rd io REG_CTRL n;
            n = reg_wr io REG_CTRL (v OR push_bit 26 1) n;
            n = reset_wait 500000 io n;
            n = reg_wr io REG_IMASK 0 n;
            ((mac_ok, mac), n) = read_mac io n
        in if \<not> mac_ok then (False, n)
        else
          let (v, n) = reg_rd io REG_STATUS n;
              n = n\<lparr>e_link_up := v AND push_bit 1 1 \<noteq> 0\<rparr>;
              nd = zero_net_device\<lparr>nd_name := ''intel-e1000'', nd_mac := mac, nd_link_up := e_link_up n\<rparr>;
              n = setup_tx io (setup_rx io n)
          in (True, n\<lparr>netdevs := netdev_register (Some nd) (netdevs n),
                nic_log := nic_log n @ [(''net %s mac %02X:%02X:%02X:%02X:%02X:%02X link %s'',
                  str_arg (cstring (nd_name nd)) # map (\<lambda>b. SNum (ucast b)) mac @
                  [str_arg (cstring (if e_link_up n then ''up'' else ''down''))])]\<rparr>))"

fun tx_wait :: "nat \<Rightarrow> 'd e1000_hw \<Rightarrow> u16 \<Rightarrow> 'd nic \<Rightarrow> int \<times> 'd nic" where
  "tx_wait 0 io t n = (-1, n)"
| "tx_wait (Suc k) io t n =
     (let (st, hw) = mem_in io (desc_at (tx_ring io) t + 12) (nic_hw n); n = n\<lparr>nic_hw := hw\<rparr> in
      if st AND 0x01 \<noteq> 0 then (0, n) else tx_wait k io t n)"

definition e1000_send :: "'d e1000_hw \<Rightarrow> bytes \<Rightarrow> u16 \<Rightarrow> 'd nic \<Rightarrow> (int \<times> 'd nic) option" where
  "e1000_send io frame len n =
     (if e_regs n = 0 \<or> \<not> e_link_up n \<or> len = 0 \<or> unat len > BUF_SIZE then Some (-1, n)
      else do {
        xs \<leftarrow> slice frame 0 (unat len);
        let t = tx_tail n;
        chk (unat t < TX_DESCS);
        let hw = shared_write io (tx_buffer io) xs (nic_hw n);
        let hw = shared_write io (desc_at (tx_ring io) t)
                   (bytes64 (tx_buffer io) @ bytes16 len @ [0, 0x0B, 0, 0] @ bytes16 0) hw;
        let n = n\<lparr>nic_hw := hw, tx_tail := (t + 1) mod of_nat TX_DESCS\<rparr>;
        let n = reg_wr io REG_TDT (ucast (tx_tail n)) n;
        Some (tx_wait 200000 io t n) })"

definition e1000_poll :: "'d e1000_hw \<Rightarrow> bytes \<Rightarrow> u16 \<Rightarrow> 'd nic \<Rightarrow> (int \<times> bytes \<times> 'd nic) option" where
  "e1000_poll io buf max_len n =
     (if e_regs n = 0 then Some (-1, buf, n)
      else
        let nxt = (rx_tail n + 1) mod of_nat RX_DESCS;
            (st, hw) = mem_in io (desc_at (rx_ring io) nxt + 12) (nic_hw n)
        in if st AND 0x01 = 0 then Some (0, buf, n\<lparr>nic_hw := hw\<rparr>)
        else
          let (lb, hw) = shared_read io (desc_at (rx_ring io) nxt + 8) 2 hw;
              got = (if le16 lb < max_len then le16 lb else max_len)
          in do {
            chk (unat got \<le> BUF_SIZE);
            let (xs, hw) = shared_read io (rx_buffers io + ucast nxt * of_nat BUF_SIZE) (unat got) hw;
            buf \<leftarrow> splice buf 0 xs;
            let n = n\<lparr>nic_hw := mem_out io (desc_at (rx_ring io) nxt + 12) 0 hw, rx_tail := nxt\<rparr>;
            Some (uint got, buf, reg_wr io REG_RDT (ucast nxt) n) })"

section \<open>Discovery (drivers/net/net_detect.c)\<close>

record net_id_entry =
  id_vendor :: u16
  id_device :: u16
  id_name :: string
  id_wireless :: bool

definition id_entry :: "u16 \<Rightarrow> u16 \<Rightarrow> string \<Rightarrow> bool \<Rightarrow> net_id_entry" where
  "id_entry v d nm w = \<lparr>id_vendor = v, id_device = d, id_name = nm, id_wireless = w\<rparr>"

definition known_ids :: "net_id_entry list" where
  "known_ids =
     [id_entry 0x8086 0x100E ''Intel 82540EM'' False, id_entry 0x8086 0x100F ''Intel 82545EM'' False,
      id_entry 0x8086 0x153A ''Intel I217-LM'' False, id_entry 0x10EC 0x8139 ''Realtek RTL8139'' False,
      id_entry 0x10EC 0x8168 ''Realtek RTL8111'' False, id_entry 0x14E4 0x1690 ''Broadcom NetXtreme'' False,
      id_entry 0x8086 0x4222 ''Intel PRO/Wireless 3945ABG'' True, id_entry 0x8086 0x08B1 ''Intel Wireless 7260'' True,
      id_entry 0x168C 0x002B ''Atheros AR9285'' True, id_entry 0x14E4 0x4315 ''Broadcom BCM4312'' True,
      id_entry 0x10EC 0xC822 ''Realtek RTL8822CE'' True, id_entry 0x14C3 0x7961 ''MediaTek MT7921'' True]"

definition net_lookup :: "u16 \<Rightarrow> u16 \<Rightarrow> net_id_entry option" where
  "net_lookup vendor dev = find (\<lambda>e. id_vendor e = vendor \<and> id_device e = dev) known_ids"

definition net_pci_name :: "u16 \<Rightarrow> u16 \<Rightarrow> string" where
  "net_pci_name vendor dev = (case net_lookup vendor dev of Some e \<Rightarrow> id_name e | None \<Rightarrow> [])"

definition log_at :: "string \<Rightarrow> string \<Rightarrow> pci_dev \<Rightarrow> 'd nic \<Rightarrow> 'd nic" where
  "log_at fmt nm d n = n\<lparr>nic_log := nic_log n @ [(fmt, [str_arg (cstring nm), SNum (ucast (pd_bus d)),
     SNum (ucast (pd_dev d)), SNum (ucast (pd_fn d))])]\<rparr>"

definition handle_device :: "'d e1000_hw \<Rightarrow> pci_dev \<Rightarrow> net_id_entry option \<Rightarrow> 'd nic \<Rightarrow> 'd nic" where
  "handle_device io d known n =
     (let nm = (case known of Some e \<Rightarrow> id_name e | None \<Rightarrow> net_pci_name (pd_vendor d) (pd_device d));
          nm = (if nm = [] then ''unidentified adapter'' else nm)
      in if (case known of Some e \<Rightarrow> \<not> id_wireless e | None \<Rightarrow> False) \<and> pd_vendor d = 0x8086 \<and>
            (pd_device d = 0x100E \<or> pd_device d = 0x100F)
         then
           let (ok, n) = e1000_init io d n in
           if ok then n
           else n\<lparr>nic_log := nic_log n @ [(''net %s present but init failed'', [str_arg (cstring nm)])]\<rparr>
         else if (case known of Some e \<Rightarrow> id_wireless e | None \<Rightarrow> sub_class d = 0x80)
         then log_at ''wifi %s at %02x:%02x.%d (detected; firmware stack pending)'' nm d n
         else log_at ''net %s at %02x:%02x.%d (no driver bound)'' nm d n)"

definition net_detect_devices :: "'d e1000_hw \<Rightarrow> 'p pci \<Rightarrow> 'd nic \<Rightarrow> 'd nic" where
  "net_detect_devices io p n =
     (let ds = filter (\<lambda>d. class_code d = 0x02) (take (ndevices p) (devices p));
          n = fold (\<lambda>d. handle_device io d (net_lookup (pd_vendor d) (pd_device d))) ds n
      in if length ds \<noteq> 0 \<or> netdev_count (netdevs n) \<noteq> 0
         then n\<lparr>nic_log := nic_log n @ [(''net discovery done: %d controller(s), %d driver-bound'',
                [SNum (of_nat (length ds)), SNum (of_int (netdev_count (netdevs n)))])]\<rparr>
         else n)"

end
