(* ===== verification/Net.thy ===== *)
theory Net
  imports Nic
begin

text \<open>
  The network stack \<open>net/stack.c\<close> over the driver of \<open>Nic\<close>. Packets are byte lists in the layout
  of the packed structures; a field that the code keeps in a \<open>u16\<close> or \<open>u32\<close> is stored and loaded in
  the byte order of the machine, which is little endian.

  \<open>net_poll\<close> handles a packet, which may send, which may resolve an address, which polls again.
  Its first argument bounds the packets and the nesting of one call together; \<open>None\<close> stands for a
  call that needs more, and, as elsewhere, for undefined behaviour. The functions below \<open>net_poll\<close> in
  the call graph take the inner call as an argument.
\<close>

section \<open>State\<close>

definition ETHERTYPE_ARP :: u16 where "ETHERTYPE_ARP = 0x0806"
definition ETHERTYPE_IPV4 :: u16 where "ETHERTYPE_IPV4 = 0x0800"
definition PROTO_ICMP :: u8 where "PROTO_ICMP = 1"
definition PROTO_TCP :: u8 where "PROTO_TCP = 6"
definition PROTO_UDP :: u8 where "PROTO_UDP = 17"

definition TCP_FIN :: u8 where "TCP_FIN = 0x01"
definition TCP_SYN :: u8 where "TCP_SYN = 0x02"
definition TCP_RST :: u8 where "TCP_RST = 0x04"
definition TCP_PSH :: u8 where "TCP_PSH = 0x08"
definition TCP_ACK :: u8 where "TCP_ACK = 0x10"

datatype tcp_state = TCP_CLOSED | TCP_SYN_SENT | TCP_ESTABLISHED | TCP_FIN_WAIT

record 'd net =
  nic :: "'d nic"
  local_mac :: bytes
  local_ip :: u32
  gateway_ip :: u32
  arp_tha :: bytes
  arp_spa :: u32
  tcp_st :: tcp_state
  rseq :: u32
  lseq :: u32
  rport_want :: u16
  lport :: u16
  rxbuf :: bytes
  net_log :: messages

definition net_boot :: "'d nic \<Rightarrow> 'd net" where
  "net_boot n = \<lparr>nic = n, local_mac = replicate 6 0, local_ip = 0x0F00020A, gateway_ip = 0x0200020A,
     arp_tha = replicate 6 0, arp_spa = 0, tcp_st = TCP_CLOSED, rseq = 0, lseq = 0, rport_want = 0, lport = 40000,
     rxbuf = replicate 2048 0, net_log = []\<rparr>"

definition net_stack_set_mac :: "bytes \<Rightarrow> 'd net \<Rightarrow> 'd net option" where
  "net_stack_set_mac mac s = do { m \<leftarrow> slice mac 0 6; Some (s\<lparr>local_mac := m\<rparr>) }"

definition net_stack_set_ip :: "u32 \<Rightarrow> u32 \<Rightarrow> 'd net \<Rightarrow> 'd net" where
  "net_stack_set_ip ip gw s = s\<lparr>local_ip := ip, gateway_ip := gw\<rparr>"

definition net_ip_addr :: "'d net \<Rightarrow> u32" where
  "net_ip_addr s = local_ip s"

definition net_mac_addr :: "'d net \<Rightarrow> bytes" where
  "net_mac_addr s = local_mac s"

section \<open>Byte order and checksums\<close>

lemma unat_lt2p: "unat x < 2 ^ LENGTH('a)" for x :: "'a::len word"
  by (rule unsigned_less)

definition swap16 :: "u16 \<Rightarrow> u16" where
  "swap16 v = push_bit 8 (v AND 0xFF) OR drop_bit 8 v"

definition swap32 :: "u32 \<Rightarrow> u32" where
  "swap32 v = push_bit 24 (v AND 0xFF) OR push_bit 8 (v AND 0xFF00) OR (drop_bit 8 v AND 0xFF00) OR (drop_bit 24 v AND 0xFF)"

text \<open>The sum of the 16-bit words of a buffer, high byte first; an odd byte at the end is left out.\<close>

fun csum_words :: "bytes \<Rightarrow> u32 \<Rightarrow> u32" where
  "csum_words (a # b # bs) acc = csum_words bs (acc + (push_bit 8 (ucast a) OR ucast b))"
| "csum_words _ acc = acc"

function csum_fold :: "u32 \<Rightarrow> u32" where
  "csum_fold acc = (if drop_bit 16 acc = 0 then acc else csum_fold ((acc AND 0xFFFF) + drop_bit 16 acc))"
  by auto

termination csum_fold
proof (relation "measure unat")
  fix acc :: u32
  assume nz: "drop_bit 16 acc \<noteq> 0"
  let ?h = "unat acc div 65536" and ?l = "unat acc mod 65536"
  have h: "unat (drop_bit 16 acc) = ?h"
    by (simp add: drop_bit_eq_div unat_div_distrib)
  have a: "acc AND 0xFFFF = take_bit 16 acc" by (simp add: take_bit_eq_mask mask_eq_exp_minus_1)
  have l: "unat (acc AND 0xFFFF) = ?l"
    unfolding a by (simp only: unsigned_take_bit_eq) (simp add: take_bit_eq_mod)
  have "?h < 65536" using unat_lt2p [of acc] by simp
  then have "unat ((acc AND 0xFFFF) + drop_bit 16 acc) = ?l + ?h"
    unfolding h [symmetric] l [symmetric] by (intro unat_add_small) (simp add: h l)
  moreover have "0 < ?h" using nz h by (metis gr0I unat_eq_zero)
  moreover have "unat acc = ?h * 65536 + ?l" by simp
  ultimately show "((acc AND 0xFFFF) + drop_bit 16 acc, acc) \<in> measure unat"
    unfolding in_measure by linarith
qed simp

declare csum_fold.simps [simp del]

definition inet_csum :: "bytes \<Rightarrow> bytes \<Rightarrow> u16" where
  "inet_csum dat pseudo =
     (let acc = csum_words pseudo 0;
          acc = csum_words dat acc;
          acc = (if odd (length dat) then acc + push_bit 8 (ucast (last dat)) else acc)
      in ucast (NOT (csum_fold acc) AND 0xFFFF))"

section \<open>Ethernet and ARP\<close>

definition eth_send :: "'d e1000_hw \<Rightarrow> u16 \<Rightarrow> bytes \<Rightarrow> bytes \<Rightarrow> 'd net \<Rightarrow> (bool \<times> 'd net) option" where
  "eth_send io ethertype dst payload s =
     (if length payload > 1600 - 14 then Some (False, s)
      else do {
        let frame = dst @ local_mac s @ bytes16 (swap16 ethertype) @ payload;
        (rc, n) \<leftarrow> e1000_send io frame (of_nat (14 + length payload)) (nic s);
        Some (rc = 0, s\<lparr>nic := n\<rparr>) })"

text \<open>The 28 bytes of an ARP packet: \<open>op\<close> is at 6, \<open>sha\<close> at 8, \<open>spa\<close> at 14, \<open>tha\<close> at 18 and \<open>tpa\<close> at 24.\<close>

definition arp_packet :: "bytes \<Rightarrow> bytes \<Rightarrow> u16 \<Rightarrow> bytes \<Rightarrow> u32 \<Rightarrow> bytes \<Rightarrow> u32 \<Rightarrow> bytes" where
  "arp_packet htype ptype op sha spa tha tpa =
     htype @ ptype @ [6, 4] @ bytes16 op @ sha @ bytes32 spa @ tha @ bytes32 tpa"

definition arp_rx :: "'d e1000_hw \<Rightarrow> bytes \<Rightarrow> 'd net \<Rightarrow> 'd net option" where
  "arp_rx io a s =
     (if rd16 a 6 = 0x0001 then do {
        let reply = arp_packet (sub a 0 2) (sub a 2 2) 0x0002 (local_mac s) (local_ip s) (sub a 8 6) (rd32 a 14);
        (_, s) \<leftarrow> eth_send io ETHERTYPE_ARP (sub a 8 6) reply s;
        Some s }
      else if rd16 a 6 = 0x0002 then Some (s\<lparr>arp_tha := sub a 8 6, arp_spa := rd32 a 14\<rparr>)
      else Some s)"

fun arp_spin :: "('d net \<Rightarrow> 'd net option) \<Rightarrow> nat \<Rightarrow> 'd net \<Rightarrow> 'd net option" where
  "arp_spin poll 0 s = Some s"
| "arp_spin poll (Suc k) s = (if arp_spa s \<noteq> 0 then Some s else do { s \<leftarrow> poll s; arp_spin poll k s })"

definition arp_resolve ::
  "('d net \<Rightarrow> 'd net option) \<Rightarrow> 'd e1000_hw \<Rightarrow> u32 \<Rightarrow> 'd net \<Rightarrow> (bytes option \<times> 'd net) option" where
  "arp_resolve poll io ip s =
     (if arp_spa s = ip then Some (Some (arp_tha s), s)
      else do {
        let req = arp_packet (bytes16 0x0100) (bytes16 0x0008) 0x0001 (local_mac s) (local_ip s) (replicate 6 0) ip;
        (_, s) \<leftarrow> eth_send io ETHERTYPE_ARP (replicate 6 0xFF) req (s\<lparr>arp_spa := 0\<rparr>);
        s \<leftarrow> arp_spin poll 200000 s;
        Some (if arp_spa s = ip then Some (arp_tha s) else None, s) })"

section \<open>IPv4 transmit\<close>

definition ipv4_header :: "u32 \<Rightarrow> u8 \<Rightarrow> u16 \<Rightarrow> u16 \<Rightarrow> u32 \<Rightarrow> bytes" where
  "ipv4_header src proto len csum dst =
     [0x45, 0] @ bytes16 (swap16 len) @ bytes16 0 @ bytes16 0 @ [64, proto] @ bytes16 csum @
     bytes32 (swap32 src) @ bytes32 (swap32 dst)"

definition ipv4_send ::
  "('d net \<Rightarrow> 'd net option) \<Rightarrow> 'd e1000_hw \<Rightarrow> u32 \<Rightarrow> u8 \<Rightarrow> bytes \<Rightarrow> 'd net \<Rightarrow> (bool \<times> 'd net) option" where
  "ipv4_send poll io dst proto seg s = do {
     let nexthop = (if dst AND 0xFFFFFFC0 = local_ip s AND 0xFFFFFFC0 then dst else gateway_ip s);
     (mac, s) \<leftarrow> arp_resolve poll io nexthop s;
     case mac of
       None \<Rightarrow> Some (False, s)
     | Some gw_mac \<Rightarrow>
         if length seg > 1480 then Some (False, s)
         else do {
           let len = of_nat (length seg + 20);
           let csum = inet_csum (ipv4_header (local_ip s) proto len 0 dst) [];
           eth_send io ETHERTYPE_IPV4 gw_mac (ipv4_header (local_ip s) proto len csum dst @ seg) s } }"

section \<open>ICMP and UDP\<close>

text \<open>An echo request is copied into a 1500-byte buffer; the address header that the code builds next
  to the reply is not sent.\<close>

definition icmp_rx :: "('d net \<Rightarrow> 'd net option) \<Rightarrow> 'd e1000_hw \<Rightarrow> nat \<Rightarrow> u16 \<Rightarrow> u32 \<Rightarrow> 'd net \<Rightarrow> 'd net option" where
  "icmp_rx poll io off len src s =
     (if unat len < 8 then Some s
      else do {
        ty \<leftarrow> ld8 (rxbuf s) off;
        if ty \<noteq> 8 then Some s
        else do {
          body \<leftarrow> slice (rxbuf s) off (unat len);
          chk (length body \<le> 1500);
          let reply = body[0 := 0, 2 := 0, 3 := 0];
          let c = inet_csum reply [];
          (_, s) \<leftarrow> ipv4_send poll io src PROTO_ICMP (reply[2 := ucast (drop_bit 8 c), 3 := ucast c]) s;
          Some s } })"

definition udp_rx :: "nat \<Rightarrow> u16 \<Rightarrow> u32 \<Rightarrow> 'd net \<Rightarrow> 'd net option" where
  "udp_rx off len src s =
     (if unat len < 8 then Some s
      else do {
        uh \<leftarrow> slice (rxbuf s) off 8;
        Some (s\<lparr>net_log := net_log s @ [(''net udp %u bytes from %u.%u.%u.%u port %u'',
          [SNum (ucast (len - 8)), SNum (ucast (src AND 0xFF)), SNum (ucast (drop_bit 8 src AND 0xFF)),
           SNum (ucast (drop_bit 16 src AND 0xFF)), SNum (ucast (drop_bit 24 src)), SNum (ucast (swap16 (rd16 uh 0)))])]\<rparr>) })"

definition udp_send ::
  "('d net \<Rightarrow> 'd net option) \<Rightarrow> 'd e1000_hw \<Rightarrow> u32 \<Rightarrow> u16 \<Rightarrow> u16 \<Rightarrow> bytes \<Rightarrow> u16 \<Rightarrow> 'd net \<Rightarrow> (int \<times> 'd net) option" where
  "udp_send poll io dst dport sport dat len s =
     (if unat len > 1400 then Some (-1, s)
      else do {
        xs \<leftarrow> slice dat 0 (unat len);
        let uh = bytes16 (swap16 sport) @ bytes16 (swap16 dport) @ bytes16 (swap16 (len + 8)) @ bytes16 0;
        (ok, s) \<leftarrow> ipv4_send poll io dst PROTO_UDP (uh @ xs) s;
        Some (if ok then 0 else -1, s) })"

section \<open>TCP\<close>

definition tcp_header :: "u16 \<Rightarrow> u16 \<Rightarrow> u32 \<Rightarrow> u32 \<Rightarrow> u8 \<Rightarrow> u16 \<Rightarrow> u16 \<Rightarrow> bytes" where
  "tcp_header sport dport seq ack flags win csum =
     bytes16 sport @ bytes16 dport @ bytes32 seq @ bytes32 ack @ [0x50, flags] @ bytes16 win @ bytes16 csum @ bytes16 0"

text \<open>The window \<open>((4096 & 0xFF) << 8) | 0x00\<close>.\<close>

definition tcp_window :: u16 where
  "tcp_window = push_bit 8 (4096 AND 0xFF) OR 0x00"

definition tcp_checksum :: "u32 \<Rightarrow> bytes \<Rightarrow> u16 \<Rightarrow> 'd net \<Rightarrow> u16" where
  "tcp_checksum peer t plen s =
     inet_csum (take 20 t) (bytes32 (swap32 (local_ip s)) @ bytes32 peer @ [0, PROTO_TCP] @ bytes16 (swap16 (20 + plen)))"

fun connect_spin :: "('d net \<Rightarrow> 'd net option) \<Rightarrow> nat \<Rightarrow> 'd net \<Rightarrow> 'd net option" where
  "connect_spin poll 0 s = Some s"
| "connect_spin poll (Suc k) s =
     (if tcp_st s \<noteq> TCP_SYN_SENT then Some s else do { s \<leftarrow> poll s; connect_spin poll k s })"

definition tcp_connect ::
  "('d net \<Rightarrow> 'd net option) \<Rightarrow> 'd e1000_hw \<Rightarrow> u32 \<Rightarrow> u16 \<Rightarrow> 'd net \<Rightarrow> (int \<times> 'd net) option" where
  "tcp_connect poll io ip port s =
     (if tcp_st s \<noteq> TCP_CLOSED \<or> \<not> e1000_present (nic s) then Some (-1, s)
      else do {
        let s = s\<lparr>rport_want := port, lseq := 1000, rseq := 0\<rparr>;
        let hdr = tcp_header (swap16 (lport s)) (swap16 port) (lseq s) 0 TCP_SYN tcp_window;
        let t = hdr (tcp_checksum (swap32 ip) (hdr 0) 0 s);
        (ok, s) \<leftarrow> ipv4_send poll io ip PROTO_TCP t (s\<lparr>tcp_st := TCP_SYN_SENT\<rparr>);
        if \<not> ok then Some (-1, s)
        else do {
          s \<leftarrow> connect_spin poll 500000 s;
          Some (if tcp_st s = TCP_ESTABLISHED then 0 else -1, s) } })"

definition tcp_send ::
  "('d net \<Rightarrow> 'd net option) \<Rightarrow> 'd e1000_hw \<Rightarrow> u32 \<Rightarrow> bytes \<Rightarrow> u16 \<Rightarrow> 'd net \<Rightarrow> (int \<times> 'd net) option" where
  "tcp_send poll io ip dat len s =
     (if tcp_st s \<noteq> TCP_ESTABLISHED then Some (-1, s)
      else if unat len > 1400 then Some (-1, s)
      else do {
        let hdr = tcp_header (swap16 (lport s)) (swap16 (rport_want s)) (lseq s) (rseq s) (TCP_ACK OR TCP_PSH) tcp_window;
        let t = hdr (tcp_checksum (swap32 ip) (hdr 0) len s);
        xs \<leftarrow> slice dat 0 (unat len);
        (ok, s) \<leftarrow> ipv4_send poll io ip PROTO_TCP (t @ xs) (s\<lparr>lseq := lseq s + ucast len\<rparr>);
        Some (if ok then 0 else -1, s) })"

definition tcp_close ::
  "('d net \<Rightarrow> 'd net option) \<Rightarrow> 'd e1000_hw \<Rightarrow> u32 \<Rightarrow> 'd net \<Rightarrow> (int \<times> 'd net) option" where
  "tcp_close poll io ip s =
     (if tcp_st s \<noteq> TCP_ESTABLISHED then Some (-1, s)
      else do {
        let hdr = tcp_header (swap16 (lport s)) (swap16 (rport_want s)) (lseq s) (rseq s) (TCP_FIN OR TCP_ACK) 0;
        let t = hdr (tcp_checksum (swap32 ip) (hdr 0) 0 s);
        (_, s) \<leftarrow> ipv4_send poll io ip PROTO_TCP t s;
        Some (0, s\<lparr>tcp_st := TCP_CLOSED\<rparr>) })"

definition net_msg :: "string \<Rightarrow> slot list \<Rightarrow> 'd net \<Rightarrow> 'd net" where
  "net_msg fmt args s = s\<lparr>net_log := net_log s @ [(fmt, args)]\<rparr>"

text \<open>\<open>ip_src\<close> is the source field as it stands in the packet, \<open>src\<close> the swapped one.\<close>

definition tcp_rx ::
  "('d net \<Rightarrow> 'd net option) \<Rightarrow> 'd e1000_hw \<Rightarrow> nat \<Rightarrow> u16 \<Rightarrow> u32 \<Rightarrow> u32 \<Rightarrow> 'd net \<Rightarrow> 'd net option" where
  "tcp_rx poll io off len src ip_src s =
     (if unat len < 20 then Some s
      else do {
        t \<leftarrow> slice (rxbuf s) off 20;
        let flags = rd8 t 13;
        let seq = swap32 (rd32 t 4);
        let ackn = swap32 (rd32 t 8);
        if tcp_st s = TCP_SYN_SENT \<and> flags AND TCP_SYN \<noteq> 0 then do {
          let s = s\<lparr>rseq := seq + 1, lseq := ackn\<rparr>;
          let hdr = tcp_header (rd16 t 2) (rd16 t 0) (lseq s) (rseq s) TCP_ACK tcp_window;
          (_, s) \<leftarrow> ipv4_send poll io src PROTO_TCP (hdr (tcp_checksum ip_src (hdr 0) 0 s)) s;
          Some (net_msg ''net tcp established'' [] (s\<lparr>tcp_st := TCP_ESTABLISHED\<rparr>)) }
        else if flags AND TCP_RST \<noteq> 0 then Some (s\<lparr>tcp_st := TCP_CLOSED\<rparr>)
        else do {
          let s = (if flags AND TCP_ACK \<noteq> 0 then s\<lparr>rseq := seq\<rparr> else s);
          let doff = (ucast (drop_bit 4 (rd8 t 12)) * 4 :: u16);
          let s = (if len > doff then net_msg ''net tcp %u bytes received'' [SNum (ucast (len - doff))] s else s);
          if flags AND TCP_FIN \<noteq> 0 then do {
            (_, s) \<leftarrow> tcp_close poll io src s;
            Some (net_msg ''net tcp closed by peer'' [] s) }
          else Some s } })"

section \<open>Ingress\<close>

definition ipv4_rx :: "('d net \<Rightarrow> 'd net option) \<Rightarrow> 'd e1000_hw \<Rightarrow> u16 \<Rightarrow> 'd net \<Rightarrow> 'd net option" where
  "ipv4_rx poll io len s =
     (if unat len < 20 then Some s
      else do {
        ip \<leftarrow> slice (rxbuf s) 14 20;
        if drop_bit 4 (rd8 ip 0) \<noteq> 4 then Some s
        else do {
          let hlen = (ucast (rd8 ip 0 AND 0xF) * 4 :: u16);
          let src = swap32 (rd32 ip 12);
          let off = 14 + unat hlen;
          if rd8 ip 9 = PROTO_ICMP then icmp_rx poll io off (len - hlen) src s
          else if rd8 ip 9 = PROTO_UDP then udp_rx off (len - hlen) src s
          else if rd8 ip 9 = PROTO_TCP then tcp_rx poll io off (len - hlen) src (rd32 ip 12) s
          else Some s } })"

definition handle_frame :: "('d net \<Rightarrow> 'd net option) \<Rightarrow> 'd e1000_hw \<Rightarrow> int \<Rightarrow> 'd net \<Rightarrow> 'd net option" where
  "handle_frame poll io got s = do {
     eth \<leftarrow> slice (rxbuf s) 0 14;
     let ty = swap16 (rd16 eth 12);
     if ty = ETHERTYPE_ARP then
       if got \<ge> 14 + 28 then do { a \<leftarrow> slice (rxbuf s) 14 28; arp_rx io a s } else Some s
     else if ty = ETHERTYPE_IPV4 then ipv4_rx poll io (of_int (got - 14)) s
     else Some s }"

fun net_poll :: "nat \<Rightarrow> 'd e1000_hw \<Rightarrow> 'd net \<Rightarrow> 'd net option" where
  "net_poll 0 io s = None"
| "net_poll (Suc k) io s = do {
     (got, buf, n) \<leftarrow> e1000_poll io (rxbuf s) 2048 (nic s);
     let s = s\<lparr>rxbuf := buf, nic := n\<rparr>;
     if got > 14 then do { s \<leftarrow> handle_frame (net_poll k io) io got s; net_poll k io s }
     else Some s }"

definition net_stack_init :: "'d net \<Rightarrow> 'd net option" where
  "net_stack_init s = (case netdev_mac_first (netdevs (nic s)) of
     None \<Rightarrow> Some s
   | Some mac \<Rightarrow> do {
       s \<leftarrow> net_stack_set_mac mac s;
       Some (net_msg ''net stack ready %u.%u.%u.%u'' [SNum (ucast (local_ip s AND 0xFF)),
         SNum (ucast (drop_bit 8 (local_ip s) AND 0xFF)), SNum (ucast (drop_bit 16 (local_ip s) AND 0xFF)),
         SNum (ucast (drop_bit 24 (local_ip s)))] s) })"

section \<open>The checksum\<close>

text \<open>The reference: the 16-bit words of a buffer, high byte first and padded with a zero byte, are
  added in one's complement arithmetic, whose residues are 1 to 65535, and 0 for the empty sum.\<close>

fun word_sum :: "bytes \<Rightarrow> nat" where
  "word_sum (a # b # bs) = 256 * unat a + unat b + word_sum bs"
| "word_sum [a] = 256 * unat a"
| "word_sum [] = 0"

definition ones_sum :: "nat \<Rightarrow> nat" where
  "ones_sum n = (if n = 0 then 0 else (n - 1) mod 65535 + 1)"

lemma word_sum_le: "2 * word_sum bs \<le> 65535 * (length bs + 1)"
proof (induction bs rule: word_sum.induct)
  case (1 a b bs)
  have "256 * unat a + unat b \<le> 65535" using unat_lt2p [of a] unat_lt2p [of b] by simp
  with 1 show ?case by simp
next
  case (2 a)
  then show ?case using unat_lt2p [of a] by simp
qed simp

lemma unat_word16:
  fixes a b :: u8
  shows "unat (push_bit 8 (ucast a) OR ucast b :: u32) = 256 * unat a + unat b"
proof -
  have "push_bit 8 (ucast a) OR ucast b = (push_bit 8 (ucast a) + ucast b :: u32)"
    by (rule disjunctive_add [symmetric]) (auto simp: bit_simps dest: bit_imp_le_length)
  also have "unat \<dots> = 256 * unat a + unat b"
    using unat_lt2p [of a] unat_lt2p [of b]
    by (simp add: push_bit_eq_mult unat_word_ariths)
  finally show ?thesis .
qed

lemma csum_words_sum:
  "unat acc + word_sum bs < 2 ^ 32 \<Longrightarrow>
    unat (csum_words bs acc) + (if odd (length bs) then 256 * unat (last bs) else 0) = unat acc + word_sum bs"
proof (induction bs acc rule: csum_words.induct)
  case (1 a b bs acc)
  have u: "unat (acc + (push_bit 8 (ucast a) OR ucast b)) = unat acc + (256 * unat a + unat b)"
    unfolding unat_word16 [symmetric] by (rule unat_add_small) (use 1(2) in \<open>simp add: unat_word16\<close>)
  show ?case using 1 u by (cases bs) auto
qed auto

lemma unat_halves:
  fixes acc :: u32
  shows "unat (drop_bit 16 acc) = unat acc div 65536" and "unat (acc AND 0xFFFF) = unat acc mod 65536"
proof -
  have a: "acc AND 0xFFFF = take_bit 16 acc" by (simp add: take_bit_eq_mask mask_eq_exp_minus_1)
  show "unat (drop_bit 16 acc) = unat acc div 65536" by (simp add: drop_bit_eq_div unat_div_distrib)
  show "unat (acc AND 0xFFFF) = unat acc mod 65536"
    unfolding a by (simp only: unsigned_take_bit_eq) (simp add: take_bit_eq_mod)
qed

lemma ones_sum_fold: "n \<noteq> 0 \<Longrightarrow> ones_sum (n mod 65536 + n div 65536) = ones_sum n"
proof -
  assume n: "n \<noteq> 0"
  let ?m = "n mod 65536 + n div 65536"
  have m: "?m \<noteq> 0" using n by (metis add_is_0 div_mult_mod_eq mult_0 add_0)
  have "n = ?m + 65535 * (n div 65536)" by (simp add: algebra_simps)
  then have "n - 1 = (?m - 1) + 65535 * (n div 65536)" using m by linarith
  then have "(n - 1) mod 65535 = (?m - 1) mod 65535" by (metis mod_mult_self2)
  then show ?thesis using n m by (simp add: ones_sum_def)
qed

lemma csum_fold_ones: "unat (csum_fold acc) = ones_sum (unat acc)"
proof (induction acc rule: csum_fold.induct)
  case (1 acc)
  show ?case
  proof (cases "drop_bit 16 acc = 0")
    case True
    then have "unat acc div 65536 = 0" using unat_halves(1) [of acc] by simp
    then have "unat acc < 65536" by (simp add: div_eq_0_iff)
    then have "ones_sum (unat acc) = unat acc" by (auto simp: ones_sum_def)
    then show ?thesis using True by (subst csum_fold.simps) simp
  next
    case False
    have "unat acc div 65536 < 65536" using unat_lt2p [of acc] by simp
    then have u: "unat ((acc AND 0xFFFF) + drop_bit 16 acc) = unat acc mod 65536 + unat acc div 65536"
      unfolding unat_halves [symmetric] by (intro unat_add_small) (simp add: unat_halves)
    have "unat acc \<noteq> 0" using False by (metis drop_bit_of_0 unat_eq_zero)
    then show ?thesis using 1 [OF False] False ones_sum_fold [of "unat acc"] u by (subst csum_fold.simps) simp
  qed
qed

lemma ones_sum_le: "ones_sum n \<le> 65535"
  by (simp add: ones_sum_def less_eq_Suc_le [symmetric])

lemma unat_not16:
  fixes x :: u32
  assumes "unat x \<le> 65535"
  shows "unat (ucast (NOT x AND 0xFFFF) :: u16) = 65535 - unat x"
proof -
  have "NOT x = - 1 - x" by (simp add: not_eq_complement)
  then have "unat (NOT x) = 2 ^ 32 - 1 - unat x" by (simp add: unat_sub unsigned_minus_1_eq_mask mask_eq_exp_minus_1)
  then have "unat (NOT x AND 0xFFFF) = (2 ^ 32 - 1 - unat x) mod 65536" by (simp add: unat_halves)
  also have "\<dots> = 65535 - unat x"
  proof -
    have "2 ^ 32 - 1 - unat x = 65535 - unat x + 65536 * 65535" using assms by simp
    then show ?thesis by (simp only: mod_mult_self2) simp
  qed
  finally show ?thesis by (simp add: unat_ucast_down)
qed

lemma inet_csum_sum:
  assumes "length dat \<le> 65535" and "length pseudo \<le> 65535" and "even (length pseudo)"
  shows "unat (inet_csum dat pseudo) = 65535 - ones_sum (word_sum pseudo + word_sum dat)"
proof -
  have bound: "word_sum pseudo + word_sum dat < 2 ^ 32"
    using word_sum_le [of pseudo] word_sum_le [of dat] assms by simp
  let ?p = "csum_words pseudo 0"
  have p: "unat ?p = word_sum pseudo" using csum_words_sum [of 0 pseudo] bound assms(3) by simp
  let ?d = "csum_words dat ?p"
  let ?acc = "if odd (length dat) then ?d + push_bit 8 (ucast (last dat)) else ?d"
  have d: "unat ?d + (if odd (length dat) then 256 * unat (last dat) else 0) = word_sum pseudo + word_sum dat"
    using csum_words_sum [of ?p dat] bound p by simp
  have l: "unat (push_bit 8 (ucast (last dat)) :: u32) = 256 * unat (last dat)"
    using unat_word16 [of "last dat" 0] by simp
  have acc: "unat ?acc = word_sum pseudo + word_sum dat"
  proof (cases "odd (length dat)")
    case True
    have "unat ?d + unat (push_bit 8 (ucast (last dat)) :: u32) < 2 ^ LENGTH(32)" using d True bound l by simp
    from unat_add_small [OF this] show ?thesis using d True l by simp
  qed (use d in simp)
  show ?thesis
    unfolding inet_csum_def Let_def
    using unat_not16 [of "csum_fold ?acc"] ones_sum_le by (simp add: csum_fold_ones acc)
qed

lemma inet_csum_0_iff:
  assumes "length dat \<le> 65535" and "word_sum dat \<noteq> 0"
  shows "inet_csum dat [] = 0 \<longleftrightarrow> word_sum dat mod 65535 = 0"
proof -
  obtain m where m: "word_sum dat = Suc m" using assms(2) by (cases "word_sum dat") auto
  have "inet_csum dat [] = 0 \<longleftrightarrow> unat (inet_csum dat []) = 0" by (simp add: unat_eq_zero)
  also have "\<dots> \<longleftrightarrow> 65535 \<le> ones_sum (word_sum dat)" using inet_csum_sum [OF assms(1), of "[]"] by auto
  also have "\<dots> \<longleftrightarrow> m mod 65535 = 65534"
    using mod_less_divisor [of 65535 m] by (auto simp: m ones_sum_def simp del: mod_less_divisor)
  also have "\<dots> \<longleftrightarrow> Suc m mod 65535 = 0" by (auto simp: mod_Suc)
  finally show ?thesis by (simp add: m)
qed

lemma word_sum_append: "even (length xs) \<Longrightarrow> word_sum (xs @ ys) = word_sum xs + word_sum ys"
  by (induction xs rule: word_sum.induct) auto

lemma word_sum_field:
  "even (length xs) \<Longrightarrow> word_sum (xs @ [h, l] @ ys) = word_sum (xs @ [0, 0] @ ys) + (256 * unat h + unat l)"
  by (simp add: word_sum_append)

lemma word_sum_bytes16: "word_sum (bytes16 c) = 256 * (unat c mod 256) + unat c div 256"
proof -
  have "unat (drop_bit 8 c) = unat c div 256" by (simp add: drop_bit_eq_div unat_div_distrib)
  moreover have "unat c div 256 < 256" using unat_lt2p [of c] by simp
  ultimately show ?thesis by (simp add: bytes16_def unat_ucast_down)
qed

lemma swapped_residue:
  fixes S c :: nat
  assumes "c < 65536" and "(S + c) mod 65535 = 0"
  shows "(S + (256 * (c mod 256) + c div 256)) mod 65535 = 0 \<longleftrightarrow> c div 256 = c mod 256"
proof -
  let ?h = "int (c div 256)" and ?l = "int (c mod 256)"
  have c: "int c = 256 * ?h + ?l" by (simp add: zdiv_int zmod_int)
  have r: "0 \<le> ?h" "?h < 256" "0 \<le> ?l" "?l < 256" using assms(1) by auto
  have d: "65535 dvd int S + (256 * ?h + ?l)"
    using assms(2) unfolding c [symmetric] by (metis dvd_eq_mod_eq_0 int_dvd_int_iff of_nat_add of_nat_numeral)
  have "(S + (256 * (c mod 256) + c div 256)) mod 65535 = 0 \<longleftrightarrow> 65535 dvd int (S + (256 * (c mod 256) + c div 256))"
    by (metis dvd_eq_mod_eq_0 int_dvd_int_iff of_nat_numeral)
  also have "\<dots> \<longleftrightarrow> 65535 dvd (int S + (256 * ?h + ?l)) - 255 * (?h - ?l)" by (simp add: algebra_simps)
  also have "\<dots> \<longleftrightarrow> 65535 dvd 255 * (?h - ?l)" using d by (metis dvd_diff_commute dvd_diff_right_iff)
  also have "\<dots> \<longleftrightarrow> 257 dvd ?h - ?l"
    using dvd_mult_cancel_left [of 255 257 "?h - ?l"] by simp
  also have "\<dots> \<longleftrightarrow> ?h = ?l"
  proof
    assume "257 dvd ?h - ?l"
    then obtain k where k: "?h - ?l = 257 * k" by (elim dvdE)
    then have "k = 0" using r by (cases k rule: linorder_cases [of _ 0]) linarith+
    then show "?h = ?l" using k by simp
  qed simp
  finally show ?thesis by simp
qed

lemma word_sum_header:
  "word_sum (ipv4_header src proto len c dst) = word_sum (ipv4_header src proto len 0 dst) + word_sum (bytes16 c)"
  "0 < word_sum (ipv4_header src proto len 0 dst)"
  by (simp_all add: ipv4_header_def word_sum_append word_sum_bytes16)

section \<open>A network of conforming peers\<close>

text \<open>In an ARP packet on the wire the operation is high byte first: 1 is a request, 2 a reply. The
  following says that the ARP frames the driver delivers are such packets.\<close>

definition arp_conforming :: "'d e1000_hw \<Rightarrow> bool" where
  "arp_conforming io \<longleftrightarrow> (\<forall>buf n got buf' n'. e1000_poll io buf 2048 n = Some (got, buf', n') \<longrightarrow> 42 \<le> got \<longrightarrow>
     sub buf' 12 2 = [0x08, 0x06] \<longrightarrow> sub buf' 20 2 \<in> {[0x00, 0x01], [0x00, 0x02]})"

text \<open>Nothing has been resolved, and no next hop has the address 0.\<close>

definition mute :: "'d net \<Rightarrow> bool" where
  "mute s \<longleftrightarrow> arp_spa s = 0 \<and> gateway_ip s \<noteq> 0 \<and> local_ip s AND 0xFFFFFFC0 \<noteq> 0"

definition keeps_mute :: "('d net \<Rightarrow> 'd net option) \<Rightarrow> bool" where
  "keeps_mute f \<longleftrightarrow> (\<forall>s. mute s \<longrightarrow> post (f s) mute)"

lemma eth_send_mute: "mute s \<Longrightarrow> post (eth_send io t dst p s) (\<lambda>(ok, s'). mute s')"
  unfolding eth_send_def Let_def by (intro post_intros) (auto simp: mute_def)

lemma post_seq: "post m P \<Longrightarrow> (\<And>x. P x \<Longrightarrow> post (f x) Q) \<Longrightarrow> post (m \<bind> f) Q"
  by (auto simp: post_def bind_simps)

lemma arp_spin_mute:
  assumes "keeps_mute poll"
  shows "mute s \<Longrightarrow> post (arp_spin poll k s) mute"
proof (induction k arbitrary: s)
  case (Suc k)
  have "post (poll s) mute" using assms Suc.prems by (simp add: keeps_mute_def)
  then have "post (poll s \<bind> arp_spin poll k) mute" by (rule post_seq) (rule Suc.IH)
  moreover have "arp_spa s = 0" using Suc.prems by (simp add: mute_def)
  ultimately show ?case by simp
qed (simp add: post_Some)

lemma arp_resolve_mute:
  assumes "keeps_mute poll" and "mute s" and "ip \<noteq> 0"
  shows "post (arp_resolve poll io ip s) (\<lambda>(mac, s'). mac = None \<and> mute s')"
proof -
  have "arp_spa s \<noteq> ip" "mute (s\<lparr>arp_spa := 0\<rparr>)" using assms(2,3) by (auto simp: mute_def)
  then show ?thesis
    unfolding arp_resolve_def Let_def
    by (auto intro!: post_seq [OF eth_send_mute] post_seq [OF arp_spin_mute [OF assms(1)]] post_Some
        simp: assms(3) [symmetric] mute_def [of "_ :: 'a net"])
qed

lemma ipv4_send_mute:
  assumes "keeps_mute poll" and "mute s"
  shows "post (ipv4_send poll io dst proto seg s) (\<lambda>(ok, s'). \<not> ok \<and> mute s')"
proof -
  have "(if dst AND 0xFFFFFFC0 = local_ip s AND 0xFFFFFFC0 then dst else gateway_ip s) \<noteq> 0"
    using assms(2) by (auto simp: mute_def)
  from arp_resolve_mute [OF assms this] show ?thesis
    unfolding ipv4_send_def Let_def by (rule post_seq) (auto intro: post_Some)
qed

lemma ipv4_send_keeps:
  assumes "keeps_mute poll" and "mute s" and "\<And>x. mute (snd x) \<Longrightarrow> post (f x) Q"
  shows "post (ipv4_send poll io dst proto seg s \<bind> f) Q"
  by (rule post_seq [OF ipv4_send_mute [OF assms(1,2)]]) (use assms(3) in auto)

lemma icmp_rx_mute: "keeps_mute poll \<Longrightarrow> mute s \<Longrightarrow> post (icmp_rx poll io off len src s) mute"
  unfolding icmp_rx_def Let_def
  by (intro post_if post_bind post_Some ipv4_send_keeps) (auto simp: case_prod_beta intro: post_Some)

lemma udp_rx_mute: "mute s \<Longrightarrow> post (udp_rx off len src s) mute"
  unfolding udp_rx_def by (intro post_if post_bind post_Some) (auto simp: mute_def)

lemma tcp_close_mute:
  assumes "keeps_mute poll" and "mute s"
  shows "post (tcp_close poll io ip s) (\<lambda>(_, s'). mute s')"
  unfolding tcp_close_def Let_def
  by (intro post_if post_Some ipv4_send_keeps [OF assms]) (auto simp: case_prod_beta mute_def assms(2) [unfolded mute_def] intro!: post_Some)

lemma mute_fields [simp]:
  "mute (s\<lparr>rseq := a\<rparr>) = mute s" "mute (s\<lparr>lseq := a\<rparr>) = mute s" "mute (s\<lparr>tcp_st := t\<rparr>) = mute s"
  "mute (s\<lparr>rport_want := p\<rparr>) = mute s" "mute (s\<lparr>rxbuf := b\<rparr>) = mute s" "mute (s\<lparr>nic := n\<rparr>) = mute s"
  "mute (net_msg fmt args s) = mute s"
  by (simp_all add: mute_def net_msg_def)

lemma tcp_rx_mute:
  assumes p: "keeps_mute poll" and s: "mute s"
  shows "post (tcp_rx poll io off len src ip_src s) mute"
proof -
  have close: "post (tcp_close poll io src t \<bind> (\<lambda>(_, s). Some (net_msg ''net tcp closed by peer'' [] s))) mute"
    if "mute t" for t
    by (rule post_seq [OF tcp_close_mute [OF p that]]) (auto intro: post_Some)
  show ?thesis
    unfolding tcp_rx_def Let_def
    by (intro post_if post_bind [of "slice _ _ _"] post_Some ipv4_send_keeps [OF p] close)
      (use s in \<open>auto simp: case_prod_beta intro!: post_Some\<close>)
qed

lemma ipv4_rx_mute: "keeps_mute poll \<Longrightarrow> mute s \<Longrightarrow> post (ipv4_rx poll io len s) mute"
  unfolding ipv4_rx_def Let_def
  by (intro post_if post_bind [of "slice _ _ _"] post_Some icmp_rx_mute udp_rx_mute tcp_rx_mute) auto

lemma arp_rx_conforming:
  "sub a 6 2 \<in> {[0x00, 0x01], [0x00, 0x02]} \<Longrightarrow> arp_rx io a s = Some s"
  by (auto simp: arp_rx_def rd16_def le16_def)

lemma bytes16_swap16: "bytes16 (swap16 v) = rev (bytes16 v)"
  by (auto simp: bytes16_def swap16_def and_0xFF bit_simps intro!: bit_word_eqI)

lemma swap16_eth: "swap16 (le16 [a, b]) = ETHERTYPE_ARP \<longleftrightarrow> a = 0x08 \<and> b = 0x06"
proof
  assume "swap16 (le16 [a, b]) = ETHERTYPE_ARP"
  then have "bytes16 (swap16 (le16 [a, b])) = bytes16 0x0806" by (simp add: ETHERTYPE_ARP_def)
  then show "a = 0x08 \<and> b = 0x06" by (simp add: bytes16_swap16) (simp add: bytes16_def)
qed (simp add: swap16_def le16_def ETHERTYPE_ARP_def)

lemma handle_frame_mute:
  assumes p: "keeps_mute poll" and s: "mute s"
    and arp: "42 \<le> got \<longrightarrow> sub (rxbuf s) 12 2 = [0x08, 0x06] \<longrightarrow> sub (rxbuf s) 20 2 \<in> {[0x00, 0x01], [0x00, 0x02]}"
  shows "post (handle_frame poll io got s) mute"
proof (cases "42 \<le> length (rxbuf s)")
  case True
  have h: "sub (sub (rxbuf s) 0 14) 12 2 = sub (rxbuf s) 12 2" "sub (sub (rxbuf s) 14 28) 6 2 = sub (rxbuf s) 20 2"
    by (simp_all add: sub_def drop_take take_take)
  obtain a b where ab: "sub (rxbuf s) 12 2 = [a, b]"
    using length_sub [of 12 2 "rxbuf s"] True by (cases "sub (rxbuf s) 12 2" rule: remdups_adj.cases) auto
  have "arp_rx io (sub (rxbuf s) 14 28) s = Some s" if "42 \<le> got" "swap16 (le16 (sub (rxbuf s) 12 2)) = ETHERTYPE_ARP"
    by (rule arp_rx_conforming) (use arp that ab swap16_eth in \<open>simp add: h\<close>)
  then show ?thesis
    unfolding handle_frame_def Let_def
    by (intro post_if post_bind post_Some ipv4_rx_mute [OF p s]) (use s in \<open>auto simp: bind_simps rd16_def h post_Some\<close>)
next
  case False
  then show ?thesis
    unfolding handle_frame_def Let_def
    by (intro post_if post_bind post_Some ipv4_rx_mute [OF p s]) (use s in \<open>auto simp: bind_simps\<close>)
qed

lemma net_poll_mute:
  assumes "arp_conforming io"
  shows "keeps_mute (net_poll k io)"
proof (induction k)
  case 0
  then show ?case by (simp add: keeps_mute_def post_None)
next
  case (Suc k)
  have "post (net_poll (Suc k) io s) mute" if s: "mute s" for s
  proof -
    have "post (handle_frame (net_poll k io) io got (s\<lparr>rxbuf := buf, nic := n\<rparr>) \<bind> net_poll k io) mute"
      if "e1000_poll io (rxbuf s) 2048 (nic s) = Some (got, buf, n)" for got buf n
    proof (rule post_seq [OF handle_frame_mute [OF Suc]])
      show "mute (s\<lparr>rxbuf := buf, nic := n\<rparr>)" using s by simp
      show "42 \<le> got \<longrightarrow> sub (rxbuf (s\<lparr>rxbuf := buf, nic := n\<rparr>)) 12 2 = [0x08, 0x06] \<longrightarrow>
          sub (rxbuf (s\<lparr>rxbuf := buf, nic := n\<rparr>)) 20 2 \<in> {[0x00, 0x01], [0x00, 0x02]}"
        using assms that unfolding arp_conforming_def by simp blast
    qed (use Suc in \<open>simp add: keeps_mute_def\<close>)
    then show ?thesis using s by (auto simp: Let_def intro!: post_bind post_if post_Some)
  qed
  then show ?case by (simp add: keeps_mute_def)
qed

section \<open>Properties\<close>





text \<open>A controller whose memory repeats 16 bytes. Its state is the number of frames that it still has:
  while there is one, the next descriptor is filled, and every frame is a standard ARP reply.\<close>

definition arp_byte :: "u64 \<Rightarrow> u8" where
  "arp_byte a = (let k = unat a mod 16 in
     if k = 12 then 8 else if k = 13 then 6 else if k = 0 then 1 else if k = 5 then 2 else 0)"

definition arp_box :: "nat e1000_hw" where
  "arp_box = \<lparr>reg_in = \<lambda>a hw. (0, hw), reg_out = \<lambda>a v hw. hw,
     mem_in = \<lambda>a hw. (if hw = 0 then 0 else arp_byte a, hw), mem_out = \<lambda>a v hw. hw - 1,
     rx_ring = 4, tx_ring = 0, rx_buffers = 0, tx_buffer = 0\<rparr>"

lemma arp_byte_add: "arp_byte (16 * x + c) = arp_byte c"
proof -
  have "unat (16 * x + c) mod 16 = (unat (16 * x) + unat c) mod 16"
    by (simp add: unat_word_ariths mod_mod_cancel)
  also have "\<dots> = (16 * unat x + unat c) mod 16"
    by (simp add: unat_word_ariths mod_add_left_eq [symmetric] mod_mod_cancel)
  finally show ?thesis by (simp add: arp_byte_def)
qed

lemma arp_byte_vals:
  "arp_byte 0 = 1" "arp_byte 12 = 8" "arp_byte 13 = 6" "arp_byte 20 = 0" "arp_byte 21 = 2"
  by (simp_all add: arp_byte_def)

lemma arp_box_read:
  "hw \<noteq> 0 \<Longrightarrow> shared_read arp_box a n hw = (map (\<lambda>i. arp_byte (a + of_nat i)) [0..<n], hw)"
proof (induction n arbitrary: a)
  case (Suc n)
  have "[0..<Suc n] = 0 # map Suc [0..<n]" by (simp add: map_Suc_upt upt_conv_Cons del: upt_Suc)
  then show ?case using Suc.IH [OF Suc.prems, of "a + 1"] Suc.prems
    by (simp add: arp_box_def comp_def add.assoc del: upt_Suc)
qed simp

definition arp_frame :: bytes where
  "arp_frame = map (\<lambda>i. arp_byte (of_nat i)) [0..<1544]"

lemma arp_box_poll:
  assumes "e_regs n \<noteq> 0" and hw: "nic_hw n \<noteq> 0"
  shows "\<exists>n'. e1000_poll arp_box buf 2048 n =
      (if 1544 \<le> length buf then Some (1544, upd buf 0 arp_frame, n') else None) \<and>
    nic_hw n' = nic_hw n - 1 \<and> e_regs n' = e_regs n \<and> e_link_up n' = e_link_up n"
proof -
  define nxt where "nxt = (rx_tail n + 1) mod of_nat RX_DESCS"
  have "desc_at 4 nxt + 12 = 16 * (ucast nxt + 1) + 0" "desc_at 4 nxt + 8 = 16 * ucast nxt + 12"
    "desc_at 4 nxt + 8 + 1 = 16 * ucast nxt + 13"
    by (simp_all add: desc_at_def algebra_simps)
  then have b: "arp_byte (desc_at 4 nxt + 12) = 1" "arp_byte (desc_at 4 nxt + 8) = 8" "arp_byte (desc_at 4 nxt + 8 + 1) = 6"
    unfolding arp_byte_add by (simp_all only: arp_byte_vals arp_byte_add)
  have x: "arp_byte (ucast nxt * of_nat BUF_SIZE + c) = arp_byte c" for c
    using arp_byte_add [of "ucast nxt * 128" c] by (simp add: BUF_SIZE_def algebra_simps)
  have st: "mem_in arp_box (desc_at (rx_ring arp_box) nxt + 12) (nic_hw n) = (1, nic_hw n)"
    using hw b(1) by (simp add: arp_box_def)
  have "[0..<2] = [0, Suc 0]" by (simp add: upt_rec)
  then have lb: "shared_read arp_box (desc_at (rx_ring arp_box) nxt + 8) 2 (nic_hw n) = ([8, 6], nic_hw n)"
    using b(2,3) by (simp add: arp_box_read [OF hw]) (simp add: arp_box_def)
  have xs: "shared_read arp_box (rx_buffers arp_box + ucast nxt * of_nat BUF_SIZE) 1544 (nic_hw n) = (arp_frame, nic_hw n)"
    by (simp add: arp_box_read [OF hw] arp_frame_def) (simp add: arp_box_def x)
  have l: "le16 [8, 6] = 1544" by (simp add: le16_def)
  have "length arp_frame = 1544" by (simp add: arp_frame_def)
  then show ?thesis
    using assms(1) unfolding e1000_poll_def nxt_def [symmetric] Let_def st lb prod.case l
    by (simp add: xs [unfolded BUF_SIZE_def, simplified] BUF_SIZE_def reg_wr_def splice_def)
      (auto simp: arp_box_def intro: exI [of _ "n\<lparr>nic_hw := nic_hw n - Suc 0\<rparr>"])
qed

lemma arp_box_idle:
  "nic_hw n = 0 \<Longrightarrow> e_regs n \<noteq> 0 \<Longrightarrow> e1000_poll arp_box buf 2048 n = Some (0, buf, n)"
  by (simp add: e1000_poll_def arp_box_def)

lemma arp_frame_nth: "i < 1544 \<Longrightarrow> arp_frame ! i = arp_byte (of_nat i)"
  by (simp add: arp_frame_def del: upt_conv_Cons)

lemma sub_arp_frame:
  assumes "1544 \<le> length buf" and "i + 2 \<le> 1544"
  shows "sub (upd buf 0 arp_frame) i 2 = [arp_byte (of_nat i), arp_byte (of_nat (Suc i))]"
proof -
  have l: "length arp_frame = 1544" by (simp add: arp_frame_def)
  show ?thesis
    by (rule nth_equalityI) (use assms l in \<open>auto simp: nth_sub nth_upd arp_frame_nth less_Suc_eq numeral_2_eq_2\<close>)
qed

lemma arp_box_conforming: "arp_conforming arp_box"
proof -
  have "sub buf' 20 2 = [0, 2]"
    if poll: "e1000_poll arp_box buf 2048 n = Some (got, buf', n')" and got: "42 \<le> got" for buf n got buf' n'
  proof -
    have "e_regs n \<noteq> 0" using poll got by (auto simp: e1000_poll_def)
    moreover from this have "nic_hw n \<noteq> 0" using poll got arp_box_idle [of n buf] by auto
    ultimately have "1544 \<le> length buf" "buf' = upd buf 0 arp_frame"
      using arp_box_poll [of n buf] poll by (auto split: if_splits)
    then show ?thesis using sub_arp_frame [of buf 20] by (simp add: arp_byte_vals)
  qed
  then show ?thesis unfolding arp_conforming_def by simp
qed

text \<open>With this controller and its link down, a call of \<open>net_poll\<close> ends once the frames are used up.\<close>

definition box_ok :: "nat net \<Rightarrow> bool" where
  "box_ok s \<longleftrightarrow> e_regs (nic s) \<noteq> 0 \<and> length (rxbuf s) = 2048 \<and> \<not> e_link_up (nic s)"

lemma arp_box_net_poll:
  "box_ok s \<Longrightarrow> nic_hw (nic s) < k \<Longrightarrow> \<exists>s'. net_poll k arp_box s = Some s' \<and> box_ok s' \<and> nic_hw (nic s') = 0"
proof (induction k arbitrary: s)
  case (Suc k)
  show ?case
  proof (cases "nic_hw (nic s) = 0")
    case True
    then show ?thesis using arp_box_idle [OF True] Suc.prems(1) by (simp add: box_ok_def)
  next
    case False
    obtain n where n: "e1000_poll arp_box (rxbuf s) 2048 (nic s) = Some (1544, upd (rxbuf s) 0 arp_frame, n)"
      "nic_hw n = nic_hw (nic s) - 1" "e_regs n = e_regs (nic s)" "e_link_up n = e_link_up (nic s)"
      using arp_box_poll [of "nic s" "rxbuf s"] Suc.prems(1) False by (auto simp: box_ok_def)
    let ?s = "s\<lparr>rxbuf := upd (rxbuf s) 0 arp_frame, nic := n\<rparr>"
    have l: "length arp_frame = 1544" by (simp add: arp_frame_def)
    have len: "length (rxbuf s) = 2048" using Suc.prems(1) by (simp add: box_ok_def)
    have f: "sub (rxbuf ?s) 12 2 = [8, 6]" "sub (rxbuf ?s) 20 2 = [0, 2]"
      using sub_arp_frame [of "rxbuf s" 12] sub_arp_frame [of "rxbuf s" 20] len by (simp_all add: arp_byte_vals)
    have h: "sub (sub (rxbuf ?s) 0 14) 12 2 = sub (rxbuf ?s) 12 2" "sub (sub (rxbuf ?s) 14 28) 6 2 = sub (rxbuf ?s) 20 2"
      by (simp_all add: sub_def drop_take take_take)
    have arp: "arp_rx arp_box (sub (rxbuf ?s) 14 28) ?s = Some ?s"
      by (rule arp_rx_conforming) (simp only: h f, simp)
    have ty: "swap16 (le16 [8, 6]) = ETHERTYPE_ARP" by (simp add: swap16_eth)
    have eth: "rd16 (sub (upd (rxbuf s) 0 arp_frame) 0 14) 12 = le16 [8, 6]"
      using h(1) f(1) by (simp add: rd16_def)
    have "handle_frame (net_poll k arp_box) arp_box 1544 ?s = Some ?s"
      unfolding handle_frame_def Let_def using arp len l ty eth by simp
    moreover have "box_ok ?s" "nic_hw (nic ?s) < k"
      using Suc.prems n len l False by (auto simp: box_ok_def)
    ultimately show ?thesis using Suc.IH [of ?s] n(1) by (simp add: Let_def)
  qed
qed simp

lemma arp_box_spin:
  "box_ok s \<Longrightarrow> nic_hw (nic s) < k \<Longrightarrow> \<exists>s'. arp_spin (net_poll k arp_box) m s = Some s'"
proof (induction m arbitrary: s)
  case (Suc m)
  obtain s1 where "net_poll k arp_box s = Some s1" "box_ok s1" "nic_hw (nic s1) = 0"
    using arp_box_net_poll [OF Suc.prems] by blast
  then show ?case using Suc.IH [of s1] Suc.prems(2) by simp
qed simp


end
