(* ===== verification/Rust_Heap.thy ===== *)
theory Rust_Heap
  imports Heap
begin

text \<open>
  \<open>mm/alloc/src/lib.rs\<close>, the allocator in Rust that can be linked in place of \<open>mm/heap_c.c\<close>. Memory
  and headers are those of \<open>Heap\<close>; \<open>usize\<close> has 64 bits and, as in a release build, arithmetic wraps.
  The walks along the free list are \<open>partial_function\<close>s, since a cyclic list would keep them busy for
  ever.
\<close>

section \<open>State and operations\<close>

definition RS_ALIGN :: u64 where "RS_ALIGN = 16"
definition RS_MAGIC_USED :: u32 where "RS_MAGIC_USED = 0x0B51D1A0"
definition RS_MAGIC_FREE :: u32 where "RS_MAGIC_FREE = 0xF4EEB10C"
definition RS_END_OF_LIST :: u32 where "RS_END_OF_LIST = 0xFFFFFFFF"
definition RS_HDR_SIZE :: u64 where "RS_HDR_SIZE = 16"

record rs_heap =
  rs_mem :: memory
  rs_base :: u64
  rs_size :: u64
  rs_free_head :: u32

definition rs_boot :: "memory \<Rightarrow> rs_heap" where
  "rs_boot m = \<lparr>rs_mem = m, rs_base = 0, rs_size = 0, rs_free_head = RS_END_OF_LIST\<rparr>"

definition rs_align_up :: "u64 \<Rightarrow> u64" where
  "rs_align_up v = (v + RS_ALIGN - 1) AND NOT (RS_ALIGN - 1)"

definition rs_hdr :: "rs_heap \<Rightarrow> u64 \<Rightarrow> block_hdr" where
  "rs_hdr s a = (let b = load_bytes (rs_mem s) (unat a) 16 in
     \<lparr>magic = rd32 b 0, bsize = rd32 b 4, next_off = rd32 b 8, used = rd32 b 12\<rparr>)"

definition rs_put :: "u64 \<Rightarrow> block_hdr \<Rightarrow> rs_heap \<Rightarrow> rs_heap" where
  "rs_put a x s = s\<lparr>rs_mem := store_bytes (rs_mem s) (unat a) (hdr_bytes x)\<rparr>"

definition rs_hdr_at :: "rs_heap \<Rightarrow> u32 \<Rightarrow> u64" where
  "rs_hdr_at s off = rs_base s + ucast off"

definition rs_heap_init :: "u32 \<Rightarrow> u32 \<Rightarrow> rs_heap \<Rightarrow> bool \<times> rs_heap" where
  "rs_heap_init base sz s =
     (if sz < ucast RS_HDR_SIZE then (False, s)
      else
        let aligned = rs_align_up (ucast base);
            total = rs_align_up (ucast sz);
            span = total - (aligned - ucast base);
            s = s\<lparr>rs_base := aligned, rs_size := span, rs_free_head := 0\<rparr>
        in (True, rs_put (rs_hdr_at s 0)
             \<lparr>magic = RS_MAGIC_FREE, bsize = ucast (span - RS_HDR_SIZE), next_off = RS_END_OF_LIST, used = 0\<rparr> s))"

text \<open>Taking the block at \<open>cur\<close>: the split writes the new header and the link, and leaves the size of the
  block as it was.\<close>

definition rs_claim :: "u32 \<Rightarrow> u32 \<Rightarrow> u32 \<Rightarrow> rs_heap \<Rightarrow> u64 \<times> rs_heap" where
  "rs_claim want prev cur s =
     (let h = rs_hdr_at s cur;
          rem = bsize (rs_hdr s h) - want;
          s = (if rem \<ge> ucast (RS_HDR_SIZE + RS_ALIGN) then
                 let split_off = cur + ucast RS_HDR_SIZE + want;
                     s = rs_put (rs_hdr_at s split_off)
                           \<lparr>magic = RS_MAGIC_FREE, bsize = rem - ucast RS_HDR_SIZE, next_off = next_off (rs_hdr s h), used = 0\<rparr> s
                 in rs_put h ((rs_hdr s h)\<lparr>next_off := split_off\<rparr>) s
               else s);
          s = rs_put h ((rs_hdr s h)\<lparr>magic := RS_MAGIC_USED, used := 1\<rparr>) s;
          nxt = next_off (rs_hdr s h);
          s = (if prev = RS_END_OF_LIST then s\<lparr>rs_free_head := nxt\<rparr>
               else rs_put (rs_hdr_at s prev) ((rs_hdr s (rs_hdr_at s prev))\<lparr>next_off := nxt\<rparr>) s)
      in (rs_base s + (ucast cur + RS_HDR_SIZE), s))"

partial_function (option) rs_find :: "u32 \<Rightarrow> u32 \<Rightarrow> u32 \<Rightarrow> rs_heap \<Rightarrow> (u64 \<times> rs_heap) option" where
  "rs_find want prev cur s =
     (if cur = RS_END_OF_LIST then Some (0, s)
      else
        let h = rs_hdr s (rs_hdr_at s cur) in
        if magic h \<noteq> RS_MAGIC_FREE then Some (0, s)
        else if bsize h \<ge> want then Some (rs_claim want prev cur s)
        else rs_find want cur (next_off h) s)"

definition rs_kmalloc :: "u32 \<Rightarrow> rs_heap \<Rightarrow> (u64 \<times> rs_heap) option" where
  "rs_kmalloc sz s =
     (if sz = 0 then Some (0, s)
      else rs_find (ucast (rs_align_up (ucast sz))) RS_END_OF_LIST (rs_free_head s) s)"

definition rs_kzalloc :: "u32 \<Rightarrow> rs_heap \<Rightarrow> (u64 \<times> rs_heap) option" where
  "rs_kzalloc sz s = do {
     (p, s) \<leftarrow> rs_kmalloc sz s;
     Some (p, if p \<noteq> 0 then s\<lparr>rs_mem := store_bytes (rs_mem s) (unat p) (replicate (unat sz) 0)\<rparr> else s) }"

definition rs_block_size_of :: "u64 \<Rightarrow> rs_heap \<Rightarrow> u32 option" where
  "rs_block_size_of p s =
     (let h = rs_hdr s (p - RS_HDR_SIZE) in
      if magic h = RS_MAGIC_USED \<and> used h = 1 then Some (bsize h) else None)"

text \<open>The walk of \<open>kfree\<close>: \<open>cur\<close> is an offset, \<open>head\<close> the address of the freed header.\<close>

partial_function (option) rs_slot :: "u64 \<Rightarrow> u64 \<Rightarrow> u32 \<Rightarrow> rs_heap \<Rightarrow> (u64 \<times> u32) option" where
  "rs_slot head prev cur s =
     (if cur \<noteq> RS_END_OF_LIST \<and> cur < ucast head
      then rs_slot head (rs_hdr_at s cur) (next_off (rs_hdr s (rs_hdr_at s cur))) s
      else Some (prev, cur))"

definition rs_merge_right :: "u64 \<Rightarrow> u32 \<Rightarrow> rs_heap \<Rightarrow> rs_heap" where
  "rs_merge_right head cur s =
     (if cur \<noteq> RS_END_OF_LIST then
        let right = rs_hdr s (rs_hdr_at s cur); h = rs_hdr s head in
        if head + RS_HDR_SIZE + ucast (bsize h) = ucast cur
        then rs_put head (h\<lparr>bsize := bsize h + (ucast RS_HDR_SIZE + bsize right), next_off := next_off right\<rparr>) s
        else s
      else s)"

definition rs_merge_left :: "u64 \<Rightarrow> u64 \<Rightarrow> rs_heap \<Rightarrow> rs_heap" where
  "rs_merge_left prev head s =
     (if prev \<noteq> 0 then
        let p = rs_hdr s prev; h = rs_hdr s head in
        if prev + RS_HDR_SIZE + ucast (bsize p) = head
        then rs_put prev (p\<lparr>bsize := bsize p + (ucast RS_HDR_SIZE + bsize h), next_off := next_off h\<rparr>) s
        else s
      else s)"

definition rs_kfree :: "u64 \<Rightarrow> rs_heap \<Rightarrow> rs_heap option" where
  "rs_kfree ptr s =
     (if ptr = 0 then Some s
      else if ptr - rs_base s - RS_HDR_SIZE \<ge> rs_size s then Some s
      else
        let head = ptr - RS_HDR_SIZE; h = rs_hdr s head in
        if magic h \<noteq> RS_MAGIC_USED \<or> used h = 0 then Some s
        else do {
          let s = rs_put head (h\<lparr>magic := RS_MAGIC_FREE, used := 0\<rparr>) s;
          (prev, cur) \<leftarrow> rs_slot head 0 (rs_free_head s) s;
          let s = rs_put head ((rs_hdr s head)\<lparr>next_off := cur\<rparr>) s;
          let s = (if prev = 0 then s\<lparr>rs_free_head := ucast head\<rparr>
                   else rs_put prev ((rs_hdr s prev)\<lparr>next_off := ucast head\<rparr>) s);
          Some (rs_merge_left prev head (rs_merge_right head cur s)) })"

definition rs_krealloc :: "u64 \<Rightarrow> u32 \<Rightarrow> rs_heap \<Rightarrow> (u64 \<times> rs_heap) option" where
  "rs_krealloc ptr sz s =
     (if ptr = 0 then rs_kmalloc sz s
      else if sz = 0 then do { s \<leftarrow> rs_kfree ptr s; Some (0, s) }
      else (case rs_block_size_of ptr s of
              None \<Rightarrow> Some (0, s)
            | Some old \<Rightarrow> do {
                (fresh, s) \<leftarrow> rs_kmalloc sz s;
                if fresh \<noteq> 0 then do {
                  let n = (if old < sz then old else sz);
                  let s = s\<lparr>rs_mem := store_bytes (rs_mem s) (unat fresh) (load_bytes (rs_mem s) (unat ptr) (unat n))\<rparr>;
                  s \<leftarrow> rs_kfree ptr s;
                  Some (fresh, s) }
                else Some (fresh, s) }))"

section \<open>Headers in memory\<close>

lemma load_store_here: "length xs = n \<Longrightarrow> load_bytes (store_bytes m a xs) a n = xs"
  using load_store_bytes [of m a xs] by simp

lemma rs_hdr_put [simp]: "rs_hdr (rs_put a x s) a = x"
  by (simp add: rs_hdr_def rs_put_def load_store_here hdr_bytes_def rd32_def sub_def)

lemma rs_hdr_put_apart:
  "unat b + 16 \<le> unat a \<or> unat a + 16 \<le> unat b \<Longrightarrow> rs_hdr (rs_put a x s) b = rs_hdr s b"
  by (simp add: rs_hdr_def rs_put_def load_store_apart hdr_bytes_def)

lemma rs_put_fields [simp]:
  "rs_base (rs_put a x s) = rs_base s" "rs_size (rs_put a x s) = rs_size s"
  "rs_free_head (rs_put a x s) = rs_free_head s"
  by (simp_all add: rs_put_def)

lemma rs_hdr_fields [simp]:
  "rs_hdr (s\<lparr>rs_free_head := f\<rparr>) a = rs_hdr s a" "rs_hdr (s\<lparr>rs_base := b\<rparr>) a = rs_hdr s a" "rs_hdr (s\<lparr>rs_size := z\<rparr>) a = rs_hdr s a"
  by (simp_all add: rs_hdr_def)

lemma rs_align_up_aligned:
  assumes "16 dvd unat v" and "unat v < 2 ^ 63"
  shows "rs_align_up v = v"
proof -
  have "unat (v + 15) = unat v + 15" using assms(2) by (intro unat_add_small [of v 15, simplified]) simp
  then have "unat (v + 15) div 16 * 16 = unat v" using assms(1) by (auto elim!: dvdE)
  moreover have "rs_align_up v = v + 15 AND NOT 15" by (simp add: rs_align_up_def RS_ALIGN_def add.commute)
  ultimately show ?thesis by (metis unat_and_not_15 word_unat_eq_iff)
qed

section \<open>A freed region is lost\<close>



end
