(* ===== verification/Fdt.thy ===== *)
theory Fdt
  imports Kstring Printk
begin

text \<open>
  \<open>arch/arm64/fdt.c\<close>, the reader of the flattened device tree. The blob is one object of bytes and a
  pointer into it an offset, so that a read past its end is \<open>None\<close>; so is an access outside
  \<open>path[8][48]\<close>. Every token of the structure block takes at least four bytes, which bounds \<open>depth\<close>
  and the processor count by the size of the blob: both are plain integers here.
\<close>

section \<open>The walker\<close>

definition FDT_MAGIC :: u32 where "FDT_MAGIC = 0xd00dfeed"
definition FDT_BEGIN_NODE :: u32 where "FDT_BEGIN_NODE = 1"
definition FDT_END_NODE :: u32 where "FDT_END_NODE = 2"
definition FDT_PROP :: u32 where "FDT_PROP = 3"
definition FDT_NOP :: u32 where "FDT_NOP = 4"
definition FDT_END :: u32 where "FDT_END = 9"

record fdt =
  strings_base :: nat
  cpu_cells :: int
  addr_cells :: int
  size_cells :: int
  bootargs :: "nat option"
  mem_base :: u64
  mem_size :: u64
  uart_base_val :: u64
  cpus_found :: int

definition fdt_be32 :: "bytes \<Rightarrow> nat \<Rightarrow> u32 option" where
  "fdt_be32 b p = do { x \<leftarrow> slice b p 4; Some (be32_of x) }"

definition fdt_be64 :: "bytes \<Rightarrow> nat \<Rightarrow> u64 option" where
  "fdt_be64 b p = do {
     hi \<leftarrow> fdt_be32 b p;
     lo \<leftarrow> fdt_be32 b (p + 4);
     Some (push_bit 32 (ucast hi) OR ucast lo) }"

definition prop_name :: "bytes \<Rightarrow> fdt \<Rightarrow> u32 \<Rightarrow> bytes" where
  "prop_name b f noff = drop (strings_base f + unat noff) b"

text \<open>Comparisons in conditions, \<open>&&\<close> and \<open>||\<close> with their short circuit.\<close>

definition str_is :: "bytes \<Rightarrow> string \<Rightarrow> bool option" where
  "str_is s t = do { r \<leftarrow> k_strcmp s (cstring t); Some (r = 0) }"

definition str_starts :: "bytes \<Rightarrow> string \<Rightarrow> nat \<Rightarrow> bool option" where
  "str_starts s t n = do { r \<leftarrow> k_strncmp s (cstring t) n; Some (r = 0) }"

definition and_also :: "bool option \<Rightarrow> bool option \<Rightarrow> bool option" where
  "and_also a b = do { x \<leftarrow> a; if x then b else Some False }"

definition or_else :: "bool option \<Rightarrow> bool option \<Rightarrow> bool option" where
  "or_else a b = do { x \<leftarrow> a; if x then Some True else b }"

definition memory_prop :: "bytes \<Rightarrow> bytes \<Rightarrow> u32 \<Rightarrow> nat \<Rightarrow> fdt \<Rightarrow> fdt option" where
  "memory_prop b pname plen val f = do {
     t \<leftarrow> str_is pname ''device_type'';
     _ \<leftarrow> (if t then ld8 b val else Some 0);
     r \<leftarrow> str_is pname ''reg'';
     if r then do {
       chk (int_ok (addr_cells f + size_cells f) \<and> int_ok ((addr_cells f + size_cells f) * 4));
       if plen \<ge> word_of_int ((addr_cells f + size_cells f) * 4) then do {
         base \<leftarrow> fdt_be64 b val;
         chk (int_ok (addr_cells f * 4) \<and> 0 \<le> int val + addr_cells f * 4);
         sz \<leftarrow> fdt_be64 b (nat (int val + addr_cells f * 4));
         Some (f\<lparr>mem_base := base, mem_size := sz\<rparr>) }
       else Some f }
     else Some f }"

definition fdt_prop :: "bytes \<Rightarrow> int \<Rightarrow> bytes list \<Rightarrow> u32 \<Rightarrow> u32 \<Rightarrow> nat \<Rightarrow> fdt \<Rightarrow> fdt option" where
  "fdt_prop b depth path plen noff val f = do {
     let pname = prop_name b f noff;
     parent \<leftarrow> (if depth \<ge> 2 then do { chk (depth - 2 < 8); Some (path ! nat (depth - 2)) } else Some [0]);
     let inner = Some (depth \<ge> 2);
     c \<leftarrow> and_also (and_also inner (str_is parent ''chosen'')) (str_is pname ''bootargs'');
     let f = (if c then f\<lparr>bootargs := Some val\<rparr> else f);
     c \<leftarrow> and_also (str_is pname ''#address-cells'') (Some (plen = 4));
     f \<leftarrow> (if c then do { v \<leftarrow> fdt_be32 b val; Some (f\<lparr>addr_cells := sint v\<rparr>) } else Some f);
     c \<leftarrow> and_also (str_is pname ''#size-cells'') (Some (plen = 4));
     f \<leftarrow> (if c then do { v \<leftarrow> fdt_be32 b val; Some (f\<lparr>size_cells := sint v\<rparr>) } else Some f);
     m \<leftarrow> and_also inner (or_else (str_starts parent ''memory@'' 8) (str_is parent ''memory''));
     if m then memory_prop b pname plen val f
     else do {
       u \<leftarrow> and_also inner (or_else (str_starts parent ''uart@'' 5) (str_starts parent ''serial@'' 7));
       if u then do {
         r \<leftarrow> and_also (str_is pname ''reg'') (Some (uart_base_val f = 0));
         if r then do { v \<leftarrow> fdt_be64 b val; Some (f\<lparr>uart_base_val := v\<rparr>) } else Some f }
       else do {
         c \<leftarrow> and_also (and_also (and_also inner (str_is parent ''cpus'')) (str_is pname ''device_type''))
                (str_starts (drop val b) ''cpu'' 3);
         Some (if c then f\<lparr>cpus_found := cpus_found f + 1\<rparr> else f) } } }"

text \<open>The name of a node goes into \<open>path[depth]\<close>, cut to 47 characters.\<close>

definition enter_node :: "bytes \<Rightarrow> int \<Rightarrow> bytes list \<Rightarrow> bytes list option" where
  "enter_node name depth path =
     (if depth < 8 then do {
        xs \<leftarrow> strncpy_bytes name 47;
        chk (0 \<le> depth);
        Some (path[nat depth := xs @ [0]]) }
      else Some path)"

function fdt_walk :: "bytes \<Rightarrow> nat \<Rightarrow> int \<Rightarrow> bytes list \<Rightarrow> fdt \<Rightarrow> fdt option" where
  "fdt_walk b p depth path f =
     (if p + 4 \<le> length b then do {
        token \<leftarrow> fdt_be32 b p;
        let p = p + 4;
        if token = FDT_END then Some f
        else if token = FDT_NOP then fdt_walk b p depth path f
        else if token = FDT_BEGIN_NODE then do {
          let name = drop p b;
          len \<leftarrow> k_strlen name;
          path \<leftarrow> enter_node name depth path;
          fdt_walk b (p + (len + 1 + 3) div 4 * 4 mod 2 ^ 32) (depth + 1) path f }
        else if token = FDT_END_NODE then fdt_walk b p (depth - 1) path f
        else if token \<noteq> FDT_PROP then fdt_walk b p depth path f
        else do {
          plen \<leftarrow> fdt_be32 b p;
          noff \<leftarrow> fdt_be32 b (p + 4);
          f \<leftarrow> fdt_prop b depth path plen noff (p + 8) f;
          fdt_walk b (p + unat (8 + ((plen + 3) AND NOT 3))) depth path f } }
      else None)"
  by pat_completeness auto
termination
  by (relation "measure (\<lambda>(b, p, _). length b - p)") auto

declare fdt_walk.simps [simp del]

definition fdt_boot :: fdt where
  "fdt_boot = \<lparr>strings_base = 0, cpu_cells = 0, addr_cells = 0, size_cells = 0, bootargs = None,
     mem_base = 0, mem_size = 0, uart_base_val = 0, cpus_found = 0\<rparr>"

text \<open>\<open>path\<close> is an uninitialised array: its rows are empty until they are written.\<close>

definition fdt_init :: "bytes option \<Rightarrow> fdt \<Rightarrow> (bool \<times> fdt) option" where
  "fdt_init hdr f = (case hdr of
      None \<Rightarrow> Some (False, f)
    | Some b \<Rightarrow> do {
        m \<leftarrow> fdt_be32 b 0;
        if m \<noteq> FDT_MAGIC then Some (False, f)
        else do {
          strs \<leftarrow> fdt_be32 b 12;
          let f = f\<lparr>strings_base := unat strs, cpu_cells := 1, addr_cells := 2, size_cells := 2, bootargs := None,
                    mem_base := 0, mem_size := 0, uart_base_val := 0, cpus_found := 0\<rparr>;
          st \<leftarrow> fdt_be32 b 8;
          f \<leftarrow> fdt_walk b (unat st) 0 (replicate 8 []) f;
          Some (True, f) } })"

text \<open>The results; the string is an offset into the blob, or the empty string.\<close>

definition fdt_chosen_bootargs :: "bytes \<Rightarrow> fdt \<Rightarrow> bytes" where
  "fdt_chosen_bootargs b f = (case bootargs f of Some p \<Rightarrow> drop p b | None \<Rightarrow> [0])"

definition fdt_memory_base :: "fdt \<Rightarrow> u64 \<times> u64" where
  "fdt_memory_base f = (mem_base f, mem_size f)"

definition fdt_uart_base :: "fdt \<Rightarrow> u64" where
  "fdt_uart_base f = (if uart_base_val f \<noteq> 0 then uart_base_val f else 0x09000000)"

definition fdt_cpu_count :: "fdt \<Rightarrow> int" where
  "fdt_cpu_count f = (if cpus_found f > 0 then cpus_found f else 1)"

section \<open>Encoded trees\<close>

definition be_bytes :: "u32 \<Rightarrow> bytes" where
  "be_bytes v = rev (bytes32 v)"

definition pad4 :: "bytes \<Rightarrow> bytes" where
  "pad4 xs = xs @ replicate ((4 - length xs mod 4) mod 4) 0"

datatype event = Begin bytes | Finish | Prop u32 bytes | Skip

fun put_event :: "event \<Rightarrow> bytes" where
  "put_event (Begin n) = be_bytes FDT_BEGIN_NODE @ pad4 (n @ [0])"
| "put_event Finish = be_bytes FDT_END_NODE"
| "put_event (Prop noff v) = be_bytes FDT_PROP @ be_bytes (of_nat (length v)) @ be_bytes noff @ pad4 v"
| "put_event Skip = be_bytes FDT_NOP"

lemma length_be_bytes [simp]: "length (be_bytes v) = 4"
  by (simp add: be_bytes_def)

lemma be32_of_be_bytes [simp]: "be32_of (be_bytes v) = v"
proof -
  have sw: "a OR b OR c OR d = d OR c OR b OR a" for a b c d :: u32
    by (rule bit_eqI) (auto simp: bit_or_iff)
  have "be32_of (be_bytes v) = le32 (bytes32 v)"
    unfolding be32_of_def be_bytes_def le32_def bytes32_def by (simp, rule sw)
  then show ?thesis by simp
qed

lemma fdt_be32_here [simp]: "fdt_be32 (pre @ be_bytes v @ rest) (length pre) = Some v"
  by (simp add: fdt_be32_def slice_def sub_def)

lemma fdt_be32_at: "b = pre @ be_bytes v @ rest \<Longrightarrow> p = length pre \<Longrightarrow> fdt_be32 b p = Some v"
  by simp

lemma length_pad4: "length (pad4 xs) = (length xs + 3) div 4 * 4"
proof -
  have "n + (4 - n mod 4) mod 4 = (n + 3) div 4 * 4" for n :: nat
  proof -
    define q r where "q = n div 4" and "r = n mod 4"
    then have n: "n = 4 * q + r" "r < 4" by simp_all
    then consider "r = 0" | "r = 1" | "r = 2" | "r = 3" by linarith
    then show ?thesis unfolding r_def [symmetric] by cases (simp_all add: n(1))
  qed
  then show ?thesis by (simp add: pad4_def)
qed

definition clip :: "bytes \<Rightarrow> bytes" where
  "clip n = take 47 n @ replicate (47 - length n) 0 @ [0]"

lemma strncpy_bytes_clip: "0 \<notin> set n \<Longrightarrow> strncpy_bytes (n @ 0 # r) 47 = Some (take 47 n @ replicate (47 - length n) 0)"
  using strncpy_bytes_fits [of n 47 r] strncpy_bytes_long [of n 47 "0 # r"] by (cases "length n < 47") simp_all

lemma enter_node_clip:
  assumes "0 \<notin> set n" and "0 \<le> depth"
  shows "enter_node (n @ 0 # r) depth path = Some (if depth < 8 then path[nat depth := clip n] else path)"
  using assms by (simp add: enter_node_def strncpy_bytes_clip clip_def)

lemma tokens_differ [simp]:
  "FDT_BEGIN_NODE \<noteq> FDT_END" "FDT_BEGIN_NODE \<noteq> FDT_NOP" "FDT_END_NODE \<noteq> FDT_END" "FDT_END_NODE \<noteq> FDT_NOP"
  "FDT_END_NODE \<noteq> FDT_BEGIN_NODE" "FDT_PROP \<noteq> FDT_END" "FDT_PROP \<noteq> FDT_NOP" "FDT_PROP \<noteq> FDT_BEGIN_NODE"
  "FDT_PROP \<noteq> FDT_END_NODE" "FDT_NOP \<noteq> FDT_END"
  by (simp_all add: FDT_BEGIN_NODE_def FDT_END_def FDT_NOP_def FDT_END_NODE_def FDT_PROP_def)

text \<open>One step of the walker for each kind of event.\<close>

lemma fdt_walk_end: "b = pre @ be_bytes FDT_END @ rest \<Longrightarrow> fdt_walk b (length pre) depth path f = Some f"
  by (subst fdt_walk.simps) simp

lemma fdt_walk_skip:
  "b = pre @ put_event Skip @ rest \<Longrightarrow>
    fdt_walk b (length pre) depth path f = fdt_walk b (length (pre @ put_event Skip)) depth path f"
  by (subst fdt_walk.simps) simp

lemma fdt_walk_finish:
  "b = pre @ put_event Finish @ rest \<Longrightarrow>
    fdt_walk b (length pre) depth path f = fdt_walk b (length (pre @ put_event Finish)) (depth - 1) path f"
  by (subst fdt_walk.simps) simp

lemma fdt_walk_begin:
  assumes b: "b = pre @ put_event (Begin n) @ rest" and n: "0 \<notin> set n" "length n < 2 ^ 31" and d: "0 \<le> depth"
  shows "fdt_walk b (length pre) depth path f =
    fdt_walk b (length (pre @ put_event (Begin n))) (depth + 1) (if depth < 8 then path[nat depth := clip n] else path) f"
proof -
  obtain r where r: "drop (length pre + 4) b = n @ 0 # r" by (simp add: b pad4_def)
  have "length n < 2147483648" using n(2) by simp
  then have "(length n + 4) div 4 * 4 < 4294967296" using div_times_less_eq_dividend [of "length n + 4" 4] by linarith
  then have "(length n + 1 + 3) div 4 * 4 mod 2 ^ 32 = length (pad4 (n @ [0]))" by (simp add: length_pad4)
  then show ?thesis using r n d by (subst fdt_walk.simps) (simp add: b enter_node_clip add.assoc)
qed

lemma fdt_walk_prop:
  assumes b: "b = pre @ put_event (Prop noff v) @ rest" and v: "length v < 2 ^ 31"
    and f': "fdt_prop b depth path (of_nat (length v)) noff (length pre + 12) f = Some f'"
  shows "fdt_walk b (length pre) depth path f = fdt_walk b (length (pre @ put_event (Prop noff v))) depth path f'"
proof -
  let ?plen = "of_nat (length v) :: u32"
  have "fdt_be32 b (length pre + 4) = Some ?plen"
    by (rule fdt_be32_at [of _ "pre @ be_bytes FDT_PROP"]) (simp_all add: b)
  moreover have "fdt_be32 b (length pre + 8) = Some noff"
    by (rule fdt_be32_at [of _ "pre @ be_bytes FDT_PROP @ be_bytes ?plen"]) (simp_all add: b)
  moreover have "unat (8 + ((?plen + 3) AND NOT 3)) = 8 + length (pad4 v)"
  proof -
    have "unat (?plen + 3) = length v + 3" using v by (simp add: unat_word_ariths unat_of_nat)
    moreover have "(3 :: u32) = mask 2" by (simp add: mask_eq_exp_minus_1)
    ultimately have "unat ((?plen + 3) AND NOT 3) = (length v + 3) div 4 * 4"
      using unat_and_not_mask [of "?plen + 3" 2] by simp
    moreover have "length v < 2147483648" using v by simp
    then have "(length v + 3) div 4 * 4 + 8 < 4294967296" using div_times_less_eq_dividend [of "length v + 3" 4] by linarith
    ultimately show ?thesis by (simp add: unat_word_ariths length_pad4)
  qed
  ultimately show ?thesis using f' by (subst fdt_walk.simps) (simp add: b ac_simps)
qed

section \<open>What the walker misses\<close>

text \<open>The nodes the walker looks for by the name of the \<open>parent\<close>.\<close>

definition quiet :: "bytes \<Rightarrow> bool" where
  "quiet n \<longleftrightarrow> n \<noteq> map of_char ''chosen'' \<and> n \<noteq> map of_char ''memory'' \<and> n \<noteq> map of_char ''memory@'' \<and>
     take 5 n \<noteq> map of_char ''uart@'' \<and> take 7 n \<noteq> map of_char ''serial@''"

text \<open>Events that nest properly, at most nine nodes deep where there are properties, with a name for each
  property in the strings block, and in which no node of such a name has a child.\<close>

fun well_nested :: "bytes \<Rightarrow> nat \<Rightarrow> bytes list \<Rightarrow> event list \<Rightarrow> bool" where
  "well_nested b strs stk [] = True"
| "well_nested b strs stk (Begin n # es) =
     (0 \<notin> set n \<and> length n < 2 ^ 31 \<and> (stk \<noteq> [] \<longrightarrow> quiet (hd stk)) \<and> well_nested b strs (n # stk) es)"
| "well_nested b strs stk (Finish # es) = (stk \<noteq> [] \<and> well_nested b strs (tl stk) es)"
| "well_nested b strs stk (Prop noff v # es) =
     (length stk \<le> 9 \<and> length v < 2 ^ 31 \<and> k_strlen (drop (strs + unat noff) b) \<noteq> None \<and> well_nested b strs stk es)"
| "well_nested b strs stk (Skip # es) = well_nested b strs stk es"

definition on_path :: "bytes list \<Rightarrow> int \<Rightarrow> bytes list \<Rightarrow> bool" where
  "on_path stk depth path \<longleftrightarrow> depth = int (length stk) \<and> length path = 8 \<and>
     (\<forall>i < length stk. i < 8 \<longrightarrow> path ! i = clip (rev stk ! i)) \<and> (\<forall>n \<in> set stk. 0 \<notin> set n) \<and> (\<forall>n \<in> set (tl stk). quiet n)"

definition nothing_found :: "fdt \<Rightarrow> fdt \<Rightarrow> bool" where
  "nothing_found f f' \<longleftrightarrow> strings_base f' = strings_base f \<and> bootargs f' = bootargs f \<and> mem_base f' = mem_base f \<and>
     mem_size f' = mem_size f \<and> uart_base_val f' = uart_base_val f"

lemma k_strncmp_total: "n \<le> length a \<Longrightarrow> n \<le> length b \<Longrightarrow> \<exists>x. k_strncmp a b n = Some x"
  by (induction a b n rule: k_strncmp.induct) auto

lemma k_strncmp_whole:
  assumes "0 \<notin> set h" and "0 \<notin> set nd"
  shows "\<exists>x. k_strncmp (h @ 0 # r) (nd @ 0 # q) (Suc (length nd)) = Some x \<and> (x = 0 \<longleftrightarrow> h = nd)"
  using assms
proof (induction nd arbitrary: h)
  case Nil
  then show ?case by (cases h) auto
next
  case (Cons x nd)
  then show ?case by (cases h) auto
qed

lemma str_is_total:
  assumes "k_strlen s \<noteq> None" and "0 \<notin> set (map (of_char :: char \<Rightarrow> u8) t)"
  shows "\<exists>c. str_is s t = Some c"
proof -
  obtain x r where "s = x @ 0 # r" "0 \<notin> set x" using assms(1) by (auto dest: k_strlen_SomeD)
  then obtain y where "k_strcmp s (map of_char t @ [0]) = Some y" using k_strcmp_cstr [OF _ assms(2), of x r "[]"] by blast
  then show ?thesis by (simp add: str_is_def cstring_def)
qed

lemma clip_cstr: "\<exists>r. clip n = take 47 n @ 0 # r"
  by (cases "47 - length n") (auto simp: clip_def)

lemma take_eq_short: "length t < k \<Longrightarrow> take k n = t \<longleftrightarrow> n = t"
  by (metis length_take min_less_iff_disj nless_le take_all_iff linorder_not_le)

lemma str_is_clip:
  assumes "0 \<notin> set n" and "0 \<notin> set (map (of_char :: char \<Rightarrow> u8) t)" and "length t < 47"
  shows "str_is (clip n) t = Some (n = map of_char t)"
proof -
  obtain r where r: "clip n = take 47 n @ 0 # r" using clip_cstr by blast
  have "0 \<notin> set (take 47 n)" using assms(1) by (meson in_set_takeD)
  from k_strcmp_cstr [OF this assms(2), of r "[]"] take_eq_short [of "map of_char t" 47 n] assms(3)
  show ?thesis by (auto simp: str_is_def cstring_def r)
qed

lemma str_starts_clip:
  assumes "0 \<notin> set n" and "0 \<notin> set (map (of_char :: char \<Rightarrow> u8) t)" and "length t < 47"
  shows "k = length t \<Longrightarrow> str_starts (clip n) t k = Some (take k n = map of_char t)"
    and "k = Suc (length t) \<Longrightarrow> str_starts (clip n) t k = Some (n = map of_char t)"
proof -
  obtain r where r: "clip n = take 47 n @ 0 # r" using clip_cstr by blast
  have z: "0 \<notin> set (take 47 n)" using assms(1) by (meson in_set_takeD)
  show "k = length t \<Longrightarrow> str_starts (clip n) t k = Some (take k n = map of_char t)"
    using k_strncmp_cstr [OF z assms(2), of r "[0]"] assms(3) by (auto simp: str_starts_def cstring_def r min_def)
  show "k = Suc (length t) \<Longrightarrow> str_starts (clip n) t k = Some (n = map of_char t)"
    using k_strncmp_whole [OF z assms(2), of r "[]"] take_eq_short [of "map of_char t" 47 n] assms(3)
    by (auto simp: str_starts_def cstring_def r)
qed

text \<open>A property below a parent that is none of those nodes changes none of the results but the count of
  processors.\<close>

lemma fdt_prop_quiet:
  assumes name: "k_strlen (prop_name b f noff) \<noteq> None" and val: "val + 4 \<le> length b"
    and par: "2 \<le> depth \<Longrightarrow> depth < 10 \<and> path ! nat (depth - 2) = clip n \<and> 0 \<notin> set n \<and> quiet n"
  shows "\<exists>f'. fdt_prop b depth path plen noff val f = Some f' \<and> nothing_found f f'"
proof -
  have z: "0 \<notin> set (map (of_char :: char \<Rightarrow> u8) t)"
    if "t \<in> {''bootargs'', ''#address-cells'', ''#size-cells'', ''device_type'', ''chosen'', ''memory'', ''memory@'', ''uart@'', ''serial@'', ''cpus''}" for t
    using that by auto
  obtain c1 c2 c3 c4 where c: "str_is (prop_name b f noff) ''bootargs'' = Some c1" "str_is (prop_name b f noff) ''#address-cells'' = Some c2"
      "str_is (prop_name b f noff) ''#size-cells'' = Some c3" "str_is (prop_name b f noff) ''device_type'' = Some c4"
    using str_is_total [OF name z] by (metis insertCI)
  have v: "fdt_be32 b val = Some (be32_of (sub b val 4))" using val by (simp add: fdt_be32_def slice_def)
  obtain k where k: "str_starts (drop val b) ''cpu'' 3 = Some k"
  proof -
    have "3 \<le> length (drop val b)" "3 \<le> length (cstring ''cpu'')" using val by (simp_all add: cstring_def)
    then obtain x where "k_strncmp (drop val b) (cstring ''cpu'') 3 = Some x" using k_strncmp_total by blast
    then show ?thesis using that by (simp add: str_starts_def)
  qed
  show ?thesis
  proof (cases "2 \<le> depth")
    case False
    then show ?thesis using c v
      by (simp add: fdt_prop_def and_also_def nothing_found_def Let_def)
  next
    case True
    note p = par [OF True]
    have "str_starts (clip n) ''memory@'' 8 = Some False" using p by (subst str_starts_clip(2)) (auto simp: quiet_def)
    moreover have "str_is (clip n) ''chosen'' = Some False" "str_is (clip n) ''memory'' = Some False"
        "str_starts (clip n) ''uart@'' 5 = Some False"
        "str_starts (clip n) ''serial@'' 7 = Some False" "str_is (clip n) ''cpus'' = Some (n = map of_char ''cpus'')"
      using p str_is_clip [of n "''chosen''"] str_is_clip [of n "''memory''"]
        str_starts_clip(1) [of n "''uart@''" 5] str_starts_clip(1) [of n "''serial@''" 7] str_is_clip [of n "''cpus''"]
      by (simp_all add: quiet_def)
    ultimately show ?thesis using c v k p True
      by (simp add: fdt_prop_def and_also_def or_else_def nothing_found_def Let_def chk_def)
  qed
qed

lemma on_path_enter:
  assumes "on_path stk depth path" and "0 \<notin> set n" and "stk \<noteq> [] \<longrightarrow> quiet (hd stk)"
  shows "on_path (n # stk) (depth + 1) (if depth < 8 then path[nat depth := clip n] else path)"
  using assms by (cases stk) (auto simp: on_path_def nth_append nth_list_update less_Suc_eq)

lemma on_path_leave: "on_path stk depth path \<Longrightarrow> stk \<noteq> [] \<Longrightarrow> on_path (tl stk) (depth - 1) path"
  by (cases stk; cases "tl stk") (auto simp: on_path_def nth_append)

lemma on_path_parent:
  assumes p: "on_path stk depth path" and d: "2 \<le> depth" "length stk \<le> 9"
  shows "depth < 10 \<and> path ! nat (depth - 2) = clip (stk ! 1) \<and> 0 \<notin> set (stk ! 1) \<and> quiet (stk ! 1)"
proof -
  obtain x y r where s: "stk = x # y # r" using p d(1) by (cases stk; cases "tl stk") (auto simp: on_path_def)
  with p d show ?thesis by (auto simp: on_path_def nth_append)
qed

lemma fdt_walk_quiet:
  assumes "b = pre @ concat (map put_event es) @ be_bytes FDT_END @ rest"
    and "well_nested b (strings_base f) stk es" and "on_path stk depth path"
  shows "\<exists>f'. fdt_walk b (length pre) depth path f = Some f' \<and> nothing_found f f'"
  using assms
proof (induction es arbitrary: pre stk depth path f)
  case Nil
  then show ?case by (simp add: fdt_walk_end nothing_found_def)
next
  case (Cons e es)
  define r where "r = concat (map put_event es) @ be_bytes FDT_END @ rest"
  have b: "b = pre @ put_event e @ r" using Cons.prems(1) by (simp add: r_def)
  have b': "b = (pre @ put_event e) @ concat (map put_event es) @ be_bytes FDT_END @ rest" using Cons.prems(1) by simp
  have d: "0 \<le> depth" using Cons.prems(3) by (simp add: on_path_def)
  show ?case
  proof (cases e)
    case (Begin n)
    then have n: "0 \<notin> set n" "length n < 2 ^ 31" "stk \<noteq> [] \<longrightarrow> quiet (hd stk)" "well_nested b (strings_base f) (n # stk) es"
      using Cons.prems(2) by simp_all
    show ?thesis using Cons.IH [OF b' n(4) on_path_enter [OF Cons.prems(3) n(1, 3)]] fdt_walk_begin [OF b [unfolded Begin] n(1, 2) d]
      by (simp add: Begin)
  next
    case Finish
    then have n: "stk \<noteq> []" "well_nested b (strings_base f) (tl stk) es" using Cons.prems(2) by simp_all
    show ?thesis using Cons.IH [OF b' n(2) on_path_leave [OF Cons.prems(3) n(1)]] fdt_walk_finish [OF b [unfolded Finish]]
      by (simp add: Finish)
  next
    case (Prop noff v)
    then have n: "length stk \<le> 9" "length v < 2 ^ 31" "k_strlen (prop_name b f noff) \<noteq> None" "well_nested b (strings_base f) stk es"
      using Cons.prems(2) by (simp_all add: prop_name_def)
    have "length pre + 12 + 4 \<le> length b" by (simp add: b Prop r_def)
    then obtain f1 where f1: "fdt_prop b depth path (of_nat (length v)) noff (length pre + 12) f = Some f1" "nothing_found f f1"
      using fdt_prop_quiet [OF n(3) _ on_path_parent [OF Cons.prems(3) _ n(1)]] by blast
    then have "well_nested b (strings_base f1) stk es" using n(4) by (simp add: nothing_found_def)
    from Cons.IH [OF b' this Cons.prems(3)] fdt_walk_prop [OF b [unfolded Prop] n(2) f1(1)] f1(2)
    show ?thesis by (auto simp: Prop nothing_found_def)
  next
    case Skip
    then show ?thesis using Cons.IH [OF b' _ Cons.prems(3)] Cons.prems(2) fdt_walk_skip [OF b [unfolded Skip]] by simp
  qed
qed


text \<open>A blob of the shape QEMU builds: a root with \<open>/memory@40000000\<close> of 128 MB at 1 GB.\<close>

definition sample_events :: "event list" where
  "sample_events = [Begin [], Begin (map of_char ''memory@40000000''), Prop 0 (map of_char ''memory'' @ [0]),
     Prop 12 (concat (map be_bytes [0, 0x40000000, 0, 0x8000000])), Finish, Finish]"

definition sample_header :: bytes where
  "sample_header = concat (map be_bytes [FDT_MAGIC, 0, 40, 128, 0, 17, 16, 0, 0, 0])"

definition sample_strings :: bytes where
  "sample_strings = cstring ''device_type'' @ cstring ''reg''"

definition sample_blob :: bytes where
  "sample_blob = sample_header @ concat (map put_event sample_events) @ be_bytes FDT_END @ sample_strings"


end
