(* ===== verification/Ata.thy ===== *)
theory Ata
  imports Blkdev Ports Printk
begin

text \<open>
  \<open>drivers/block/ata.c\<close>, the polled IDE driver. The controller behind the task-file ports is the
  parameter \<open>io\<close>. The entry points given to the block layer act on the state of the driver, so that
  the registry here is one over \<open>'d ata\<close>. As \<open>blkdev.h\<close> demands, a buffer given to a write holds all
  of its sectors.
\<close>

section \<open>The driver\<close>

definition ATA_DATA :: u16 where "ATA_DATA = 0"
definition ATA_SECCOUNT :: u16 where "ATA_SECCOUNT = 2"
definition ATA_LBA_LO :: u16 where "ATA_LBA_LO = 3"
definition ATA_LBA_MID :: u16 where "ATA_LBA_MID = 4"
definition ATA_LBA_HI :: u16 where "ATA_LBA_HI = 5"
definition ATA_DRIVE :: u16 where "ATA_DRIVE = 6"
definition ATA_STATUS :: u16 where "ATA_STATUS = 7"
definition ATA_COMMAND :: u16 where "ATA_COMMAND = 7"

definition AST_BSY :: u8 where "AST_BSY = 0x80"
definition AST_DF :: u8 where "AST_DF = 0x20"
definition AST_DRQ :: u8 where "AST_DRQ = 0x08"
definition AST_ERR :: u8 where "AST_ERR = 0x01"

definition AC_IDENTIFY :: u8 where "AC_IDENTIFY = 0xEC"
definition AC_READ_EXT :: u8 where "AC_READ_EXT = 0x24"
definition AC_WRITE_EXT :: u8 where "AC_WRITE_EXT = 0x34"
definition AC_FLUSH :: u8 where "AC_FLUSH = 0xE7"

record ata_drive =
  ad_io_base :: u16
  ad_ctl_base :: u16
  ad_slave :: bool
  ad_present :: bool
  ad_sectors :: u64
  ad_model :: bytes

record 'd ata =
  drives :: "ata_drive list"
  staging :: "bytes list"
  ata_hw :: 'd

definition status_of :: "'d ports \<Rightarrow> ata_drive \<Rightarrow> 'd \<Rightarrow> u8 \<times> 'd" where
  "status_of io d hw = inb io (ad_io_base d + ATA_STATUS) hw"

definition wait400ns :: "'d ports \<Rightarrow> ata_drive \<Rightarrow> 'd \<Rightarrow> 'd" where
  "wait400ns io d hw = ((\<lambda>hw. snd (inb io (ad_ctl_base d) hw)) ^^ 4) hw"

fun wait_not_busy :: "nat \<Rightarrow> 'd ports \<Rightarrow> ata_drive \<Rightarrow> 'd \<Rightarrow> int \<times> 'd" where
  "wait_not_busy 0 io d hw = (-1, hw)"
| "wait_not_busy (Suc spins) io d hw =
     (let (st, hw) = status_of io d hw in
      if st AND AST_BSY = 0 then (0, hw) else wait_not_busy spins io d (io_wait io hw))"

fun wait_ready_for_data :: "nat \<Rightarrow> 'd ports \<Rightarrow> ata_drive \<Rightarrow> 'd \<Rightarrow> int \<times> 'd" where
  "wait_ready_for_data 0 io d hw = (-1, hw)"
| "wait_ready_for_data (Suc spins) io d hw =
     (let (st, hw) = status_of io d hw in
      if st AND AST_ERR \<noteq> 0 then (-1, hw)
      else if st AND AST_BSY = 0 \<and> st AND AST_DRQ \<noteq> 0 then (0, hw)
      else wait_ready_for_data spins io d hw)"

definition select_drive :: "'d ports \<Rightarrow> ata_drive \<Rightarrow> 'd \<Rightarrow> 'd" where
  "select_drive io d hw =
     wait400ns io d (outb io (ad_io_base d + ATA_DRIVE) (if ad_slave d then 0xF0 else 0xE0) hw)"

text \<open>Each of the registers is written twice, the high byte first.\<close>

definition task_file_writes :: "u64 \<Rightarrow> u32 \<Rightarrow> (u16 \<times> u8) list" where
  "task_file_writes lba count =
     [(ATA_SECCOUNT, ucast (drop_bit 8 count)), (ATA_LBA_LO, ucast (drop_bit 24 lba)),
      (ATA_LBA_MID, ucast (drop_bit 32 lba)), (ATA_LBA_HI, ucast (drop_bit 40 lba)),
      (ATA_SECCOUNT, ucast count), (ATA_LBA_LO, ucast lba),
      (ATA_LBA_MID, ucast (drop_bit 8 lba)), (ATA_LBA_HI, ucast (drop_bit 16 lba))]"

definition write_regs :: "'d ports \<Rightarrow> u16 \<Rightarrow> (u16 \<times> u8) list \<Rightarrow> 'd \<Rightarrow> 'd" where
  "write_regs io base ws hw = fold (\<lambda>(r, v). outb io (base + r) v) ws hw"

definition issue_lba48 :: "'d ports \<Rightarrow> ata_drive \<Rightarrow> u64 \<Rightarrow> u32 \<Rightarrow> u8 \<Rightarrow> 'd \<Rightarrow> int \<times> 'd" where
  "issue_lba48 io d lba count cmd hw =
     (if count = 0 \<or> count > 65535 then (-1, hw)
      else
        let (rc, hw) = wait_not_busy 1000000 io d hw in
        if rc \<noteq> 0 then (-1, hw)
        else
          let hw = select_drive io d hw;
              hw = write_regs io (ad_io_base d) (task_file_writes lba count) hw
          in (0, outb io (ad_io_base d + ATA_COMMAND) cmd hw))"

fun read_words :: "nat \<Rightarrow> 'd ports \<Rightarrow> u16 \<Rightarrow> 'd \<Rightarrow> u16 list \<times> 'd" where
  "read_words 0 io p hw = ([], hw)"
| "read_words (Suc n) io p hw =
     (let (v, hw) = inw io p hw; (vs, hw) = read_words n io p hw in (v # vs, hw))"

text \<open>The spaces at the end of the model name become NUL.\<close>

fun trim_spaces :: "bytes \<Rightarrow> bytes" where
  "trim_spaces [] = []"
| "trim_spaces (c # cs) = (if c = 0x20 then 0 # trim_spaces cs else c # cs)"

definition identify :: "'d ports \<Rightarrow> ata_drive \<Rightarrow> 'd \<Rightarrow> bool \<times> ata_drive \<times> 'd" where
  "identify io d hw =
     (let base = ad_io_base d;
          hw = select_drive io d hw;
          hw = write_regs io base [(ATA_SECCOUNT, 0), (ATA_LBA_LO, 0), (ATA_LBA_MID, 0), (ATA_LBA_HI, 0),
                 (ATA_COMMAND, AC_IDENTIFY)] hw;
          (st, hw) = status_of io d hw
      in if st = 0 \<or> st = 0xFF then (False, d, hw)
      else
        let (mid, hw) = inb io (base + ATA_LBA_MID) hw in
        if mid \<noteq> 0 then (False, d, hw)
      else
        let (hi, hw) = inb io (base + ATA_LBA_HI) hw in
        if hi \<noteq> 0 then (False, d, hw)
      else
        let (rc, hw) = wait_ready_for_data 5000000 io d hw in
        if rc \<noteq> 0 then (False, d, hw)
      else
        let (w, hw) = read_words 256 io (base + ATA_DATA) hw in
        if w ! 83 AND push_bit 10 1 = 0 then (False, d, hw)
      else
        let n28 = push_bit 16 (ucast (w ! 61)) OR ucast (w ! 60);
            n48 = push_bit 48 (ucast (w ! 103)) OR push_bit 32 (ucast (w ! 102)) OR
                  push_bit 16 (ucast (w ! 101)) OR ucast (w ! 100);
            d = d\<lparr>ad_sectors := (if n48 \<noteq> 0 then n48 else n28)\<rparr>
        in if ad_sectors d = 0 then (False, d, hw)
      else
        let text = concat (map (\<lambda>i. [ucast (drop_bit 8 (w ! i)), ucast (w ! i AND 0xFF)]) [27..<47])
        in (True, d\<lparr>ad_model := rev (trim_spaces (rev text)) @ [0], ad_present := True\<rparr>, hw))"

fun data_out :: "'d ports \<Rightarrow> u16 \<Rightarrow> bytes \<Rightarrow> 'd \<Rightarrow> 'd" where
  "data_out io p (a # b # bs) hw = data_out io p bs (outw io p (ucast a OR push_bit 8 (ucast b)) hw)"
| "data_out io p _ hw = hw"

definition data_in :: "'d ports \<Rightarrow> u16 \<Rightarrow> 'd \<Rightarrow> bytes \<times> 'd" where
  "data_in io p hw = (let (ws, hw) = read_words 256 io p hw in (concat (map bytes16 ws), hw))"

definition transfer_sector :: "'d ports \<Rightarrow> ata_drive \<Rightarrow> nat \<Rightarrow> u64 \<Rightarrow> bool \<Rightarrow> 'd ata \<Rightarrow> int \<times> 'd ata" where
  "transfer_sector io d idx lba wr s =
     (let (rc, hw) = issue_lba48 io d lba 1 (if wr then AC_WRITE_EXT else AC_READ_EXT) (ata_hw s) in
      if rc \<noteq> 0 then (-1, s\<lparr>ata_hw := hw\<rparr>)
      else
        let port = ad_io_base d + ATA_DATA;
            s = (if wr then s\<lparr>ata_hw := data_out io port (staging s ! idx) hw\<rparr>
                 else let (b, hw) = data_in io port hw in s\<lparr>ata_hw := hw, staging := (staging s)[idx := b]\<rparr>);
            (rc, hw) = wait_not_busy 20000000 io d (ata_hw s)
        in if rc \<noteq> 0 then (-1, s\<lparr>ata_hw := hw\<rparr>)
        else
          let (st, hw) = status_of io d hw in
          if st AND (AST_ERR OR AST_DF) \<noteq> 0 then (-1, s\<lparr>ata_hw := hw\<rparr>)
          else (0, s\<lparr>ata_hw := (if wr then outb io (ad_io_base d + ATA_COMMAND) AC_FLUSH hw else hw)\<rparr>))"

text \<open>The loops over the sectors; \<open>sec * 512\<close> is computed in 32 bits.\<close>

fun read_loop_ata :: "'d ports \<Rightarrow> nat \<Rightarrow> u64 \<Rightarrow> u32 \<Rightarrow> nat \<Rightarrow> bytes \<Rightarrow> 'd ata \<Rightarrow> int \<times> bytes \<times> 'd ata" where
  "read_loop_ata io idx lba sec 0 out s = (0, out, s)"
| "read_loop_ata io idx lba sec (Suc n) out s =
     (let (rc, s) = transfer_sector io (drives s ! idx) idx (lba + ucast sec) False s in
      if rc \<noteq> 0 then (-1, out, s)
      else read_loop_ata io idx lba (sec + 1) n (upd out (unat (sec * 512)) (staging s ! idx)) s)"

fun write_loop_ata :: "'d ports \<Rightarrow> nat \<Rightarrow> u64 \<Rightarrow> u32 \<Rightarrow> nat \<Rightarrow> bytes \<Rightarrow> 'd ata \<Rightarrow> int \<times> 'd ata" where
  "write_loop_ata io idx lba sec 0 b s = (0, s)"
| "write_loop_ata io idx lba sec (Suc n) b s =
     (let s = s\<lparr>staging := (staging s)[idx := sub b (unat (sec * 512)) 512]\<rparr>;
          (rc, s) = transfer_sector io (drives s ! idx) idx (lba + ucast sec) True s in
      if rc \<noteq> 0 then (-1, s)
      else write_loop_ata io idx lba (sec + 1) n b s)"

definition drv_read :: "'d ports \<Rightarrow> nat \<Rightarrow> u64 \<Rightarrow> u32 \<Rightarrow> 'd ata \<Rightarrow> int \<times> bytes \<times> 'd ata" where
  "drv_read io idx lba count s =
     (if \<not> ad_present (drives s ! idx) then (-1, [], s) else read_loop_ata io idx lba 0 (unat count) [] s)"

definition drv_write :: "'d ports \<Rightarrow> nat \<Rightarrow> u64 \<Rightarrow> u32 \<Rightarrow> bytes \<Rightarrow> 'd ata \<Rightarrow> int \<times> 'd ata" where
  "drv_write io idx lba count b s =
     (if \<not> ad_present (drives s ! idx) then (-1, s) else write_loop_ata io idx lba 0 (unat count) b s)"

section \<open>Probing\<close>

definition buses :: "(u16 \<times> u16 \<times> string) list" where
  "buses = [(0x1F0, 0x3F6, ''ata0''), (0x170, 0x376, ''ata1'')]"

definition ata_blk_device :: "'d ports \<Rightarrow> nat \<Rightarrow> string \<Rightarrow> ata_drive \<Rightarrow> 'd ata blk_device" where
  "ata_blk_device io idx nm d = zero_device
     \<lparr>bd_name := upd (bd_name (zero_device :: 'd ata blk_device)) 0 (cstring nm), bd_present := True, bd_sector_size := 512,
      bd_sectors := ad_sectors d, bd_writable := True, bd_read_sectors := Some (drv_read io idx),
      bd_write_sectors := Some (drv_write io idx)\<rparr>"

type_synonym 'd disks = "'d ata \<times> 'd ata blkdev \<times> messages"

text \<open>One drive. The first result is \<open>True\<close> when the registry is full, which ends the bus.\<close>

definition probe_drive ::
  "'d ports \<Rightarrow> u16 \<Rightarrow> u16 \<Rightarrow> string \<Rightarrow> bool \<Rightarrow> nat \<Rightarrow> 'd disks \<Rightarrow> (bool \<times> 'd disks) option" where
  "probe_drive io base ctl prefix sl idx st =
     (let (s, r, lg) = st;
          d = \<lparr>ad_io_base = base, ad_ctl_base = ctl, ad_slave = sl, ad_present = False, ad_sectors = 0, ad_model = replicate 41 0\<rparr>;
          hw = wait400ns io d (outb io ctl 0x06 (ata_hw s));
          hw = wait400ns io d (outb io ctl 0x02 hw);
          hw = select_drive io d hw;
          (v, hw) = status_of io d hw
      in if v = 0xFF then Some (False, s\<lparr>drives := (drives s)[idx := d], ata_hw := hw\<rparr>, r, lg)
      else
        let (ok, d, hw) = identify io d hw; s = s\<lparr>drives := (drives s)[idx := d], ata_hw := hw\<rparr> in
        if \<not> ok then Some (False, s, r, lg)
        else do {
          let nm = prefix @ (if sl then ''s'' else ''m'');
          (added, r) \<leftarrow> blk_register (Some (ata_blk_device io idx nm d)) r;
          if \<not> added then Some (True, s, r, lg)
          else Some (False, s, r, lg @ [(''blk %s %s %llu MB'', [str_arg (cstring nm),
                 str_arg (if ad_model d ! 0 \<noteq> 0 then ad_model d else cstring ''disk''), SNum (drop_bit 11 (ad_sectors d))])]) })"

definition probe_bus :: "'d ports \<Rightarrow> u16 \<times> u16 \<times> string \<Rightarrow> nat \<times> 'd disks \<Rightarrow> (nat \<times> 'd disks) option" where
  "probe_bus io bus = (\<lambda>(idx, st). case bus of (base, ctl, prefix) \<Rightarrow>
     if idx < 4 then do {
       (stop, st) \<leftarrow> probe_drive io base ctl prefix False idx st;
       if stop \<or> \<not> idx + 1 < 4 then Some (idx + 1, st)
       else do {
         (_, st) \<leftarrow> probe_drive io base ctl prefix True (idx + 1) st;
         Some (idx + 2, st) } }
     else Some (idx, st))"

definition ata_probe :: "'d ports \<Rightarrow> 'd disks \<Rightarrow> 'd disks option" where
  "ata_probe io st = do { (_, st) \<leftarrow> ofold (probe_bus io) buses (0, st); Some st }"

section \<open>Addressing\<close>

text \<open>A controller as the ATA standard describes it: it is ready, and its task-file registers are queues of
  two bytes, of which \<open>regs\<close> gives the last and the one before. A write to a register moves it on; reading
  the status and the control port changes none of them.\<close>

definition task_file :: "'d ports \<Rightarrow> ata_drive \<Rightarrow> ('d \<Rightarrow> u16 \<Rightarrow> u8 \<times> u8) \<Rightarrow> bool" where
  "task_file io d regs \<longleftrightarrow> (\<forall>hw.
     fst (inb io (ad_io_base d + ATA_STATUS) hw) AND AST_BSY = 0 \<and>
     regs (snd (inb io (ad_io_base d + ATA_STATUS) hw)) = regs hw \<and>
     regs (snd (inb io (ad_ctl_base d) hw)) = regs hw \<and>
     (\<forall>r v. 2 \<le> r \<and> r \<le> 6 \<longrightarrow> regs (outb io (ad_io_base d + r) v hw) = (regs hw)(r := (v, fst (regs hw r)))))"

definition lba48 :: "(u16 \<Rightarrow> u8 \<times> u8) \<Rightarrow> u64" where
  "lba48 f = push_bit 40 (ucast (snd (f ATA_LBA_HI))) OR push_bit 32 (ucast (snd (f ATA_LBA_MID))) OR
     push_bit 24 (ucast (snd (f ATA_LBA_LO))) OR push_bit 16 (ucast (fst (f ATA_LBA_HI))) OR
     push_bit 8 (ucast (fst (f ATA_LBA_MID))) OR ucast (fst (f ATA_LBA_LO))"

definition count16 :: "(u16 \<Rightarrow> u8 \<times> u8) \<Rightarrow> u16" where
  "count16 f = push_bit 8 (ucast (snd (f ATA_SECCOUNT))) OR ucast (fst (f ATA_SECCOUNT))"

lemma bytes_of_lba:
  "push_bit 40 (ucast (ucast (drop_bit 40 x) :: u8)) OR push_bit 32 (ucast (ucast (drop_bit 32 x) :: u8)) OR
   push_bit 24 (ucast (ucast (drop_bit 24 x) :: u8)) OR push_bit 16 (ucast (ucast (drop_bit 16 x) :: u8)) OR
   push_bit 8 (ucast (ucast (drop_bit 8 x) :: u8)) OR ucast (ucast x :: u8) = take_bit 48 x" (is "?A = _") for x :: u64
proof (rule bit_word_eqI)
  fix n assume n: "n < LENGTH(64)"
  then consider "n < 8" | "8 \<le> n" "n < 16" | "16 \<le> n" "n < 24" | "24 \<le> n" "n < 32" | "32 \<le> n" "n < 40" |
      "40 \<le> n" "n < 48" | "48 \<le> n" by linarith
  then show "bit ?A n = bit (take_bit 48 x) n"
    using n by cases (simp_all add: bit_simps less_diff_conv2)
qed

lemma bytes_of_count:
  fixes c :: u32
  assumes "c \<le> 65535"
  shows "unat (push_bit 8 (ucast (ucast (drop_bit 8 c) :: u8)) OR ucast (ucast c :: u8) :: u16) = unat c"
proof -
  have "push_bit 8 (ucast (ucast (drop_bit 8 c) :: u8)) OR ucast (ucast c :: u8) = (ucast c :: u16)"
    by (rule bit_word_eqI) (auto simp: bit_simps)
  moreover have "unat c < 2 ^ 16" using assms by (simp add: word_le_nat_alt)
  ultimately show ?thesis by (simp add: unat_ucast_down)
qed

lemma wait400ns_regs: "task_file io d regs \<Longrightarrow> regs (wait400ns io d hw) = regs hw"
  by (simp add: wait400ns_def task_file_def numeral_eq_Suc)

text \<open>C36: On a controller that follows the standard \<open>issue_lba48\<close> succeeds for every request of 1 to 65535
  sectors: when the command is written, the controller's registers hold the low 48 bits of the sector
  number, the whole sector count and the selected drive.\<close>

theorem issue_lba48_addresses:
  assumes dev: "task_file io d regs" and count: "0 < count" "count \<le> 65535"
  shows "\<exists>hw'. issue_lba48 io d lba count cmd hw = (0, outb io (ad_io_base d + ATA_COMMAND) cmd hw') \<and>
           lba48 (regs hw') = take_bit 48 lba \<and> unat (count16 (regs hw')) = unat count \<and>
           fst (regs hw' ATA_DRIVE) = (if ad_slave d then 0xF0 else 0xE0)"
proof -
  obtain hw1 where w: "wait_not_busy 1000000 io d hw = (0, hw1)"
    using dev wait_not_busy.simps(2) [of 999999 io d hw]
    by (auto simp: task_file_def status_of_def case_prod_beta)
  define hw2 where "hw2 = select_drive io d hw1"
  define hw3 where "hw3 = write_regs io (ad_io_base d) (task_file_writes lba count) hw2"
  have 2: "fst (regs hw2 ATA_DRIVE) = (if ad_slave d then 0xF0 else 0xE0)"
    using dev by (simp add: hw2_def select_drive_def wait400ns_regs ATA_DRIVE_def task_file_def)
  have 3: "regs hw3 = fold (\<lambda>(r, v) f. f(r := (v, fst (f r)))) (task_file_writes lba count) (regs hw2)"
    using dev by (simp add: hw3_def write_regs_def task_file_writes_def task_file_def ATA_SECCOUNT_def ATA_LBA_LO_def
      ATA_LBA_MID_def ATA_LBA_HI_def)
  have "lba48 (regs hw3) = take_bit 48 lba" "unat (count16 (regs hw3)) = unat count" "regs hw3 ATA_DRIVE = regs hw2 ATA_DRIVE"
    using count bytes_of_count [of count]
    by (simp_all add: 3 task_file_writes_def lba48_def count16_def ATA_SECCOUNT_def ATA_LBA_LO_def
      ATA_LBA_MID_def ATA_LBA_HI_def ATA_DRIVE_def bytes_of_lba)
  moreover have "issue_lba48 io d lba count cmd hw = (0, outb io (ad_io_base d + ATA_COMMAND) cmd hw3)"
    using count w by (auto simp: issue_lba48_def Let_def hw2_def hw3_def)
  ultimately show ?thesis using 2 by auto
qed

text \<open>A controller with nothing but the two-byte registers.\<close>

definition register_box :: "(u16 \<Rightarrow> u8 \<times> u8) ports" where
  "register_box = \<lparr>inb = \<lambda>p hw. (if p = 0x1F7 then 0x50 else 0, hw), outb = \<lambda>p v hw. hw(p - 0x1F0 := (v, fst (hw (p - 0x1F0)))),
     inw = \<lambda>p hw. (0, hw), outw = \<lambda>p v hw. hw, inl = \<lambda>p hw. (0, hw), outl = \<lambda>p v hw. hw\<rparr>"

theorem issue_lba48_addresses_witness:
  "\<exists>hw'. issue_lba48 register_box \<lparr>ad_io_base = 0x1F0, ad_ctl_base = 0x3F6, ad_slave = True, ad_present = True, ad_sectors = 0, ad_model = []\<rparr>
       0x123456789ABC 7 0x24 (\<lambda>_. (0, 0)) = (0, outb register_box (0x1F0 + ATA_COMMAND) 0x24 hw') \<and>
     lba48 hw' = take_bit 48 0x123456789ABC \<and> unat (count16 hw') = unat (7 :: u32) \<and> fst (hw' ATA_DRIVE) = 0xF0"
proof -
  let ?d = "\<lparr>ad_io_base = 0x1F0, ad_ctl_base = 0x3F6, ad_slave = True, ad_present = True, ad_sectors = 0, ad_model = []\<rparr>"
  have "task_file register_box ?d (\<lambda>hw. hw)"
    by (simp add: task_file_def register_box_def ATA_STATUS_def AST_BSY_def)
  then show ?thesis using issue_lba48_addresses [where io = register_box and d = ?d and regs = "\<lambda>hw. hw" and count = 7 and lba = "0x123456789ABC" and cmd = "0x24" and hw = "\<lambda>_. (0, 0)"] by simp
qed

end
