(* ===== verification/Virtio.thy ===== *)
theory Virtio
  imports Blkdev Mmio Printk
begin

text \<open>
  \<open>drivers/block/virtio_blk.c\<close>, the virtio block driver of the arm64 port. Ring, bounce buffer, request
  header and status byte are memory that the device reads and writes too, so they live in the shared
  memory of \<open>Mmio\<close>, at the addresses of the record \<open>virtio_hw\<close>. Waiting for the device has no bound:
  a request the device never completes is \<open>None\<close>. The barrier and \<open>cpu_relax\<close> have no effect here.
  The 64-bit capacity in the configuration space is read as its two halves.
\<close>

section \<open>The driver\<close>

definition VREG_MAGIC :: u32 where "VREG_MAGIC = 0x000"
definition VREG_VERSION :: u32 where "VREG_VERSION = 0x004"
definition VREG_DEVID :: u32 where "VREG_DEVID = 0x008"
definition VREG_HFEATURES :: u32 where "VREG_HFEATURES = 0x010"
definition VREG_HFSEL :: u32 where "VREG_HFSEL = 0x014"
definition VREG_GFEATURES :: u32 where "VREG_GFEATURES = 0x020"
definition VREG_GFSEL :: u32 where "VREG_GFSEL = 0x024"
definition VREG_QSEL :: u32 where "VREG_QSEL = 0x028"
definition VREG_QNUMMAX :: u32 where "VREG_QNUMMAX = 0x034"
definition VREG_QNUM :: u32 where "VREG_QNUM = 0x030"
definition VREG_QALIGN :: u32 where "VREG_QALIGN = 0x03C"
definition VREG_QPFN :: u32 where "VREG_QPFN = 0x040"
definition VREG_QNOTIFY :: u32 where "VREG_QNOTIFY = 0x050"
definition VREG_STATUS :: u32 where "VREG_STATUS = 0x070"
definition VREG_QREADY :: u32 where "VREG_QREADY = 0x044"
definition VREG_QDESC_LO :: u32 where "VREG_QDESC_LO = 0x080"
definition VREG_QDESC_HI :: u32 where "VREG_QDESC_HI = 0x084"
definition VREG_QAVAIL_LO :: u32 where "VREG_QAVAIL_LO = 0x090"
definition VREG_QAVAIL_HI :: u32 where "VREG_QAVAIL_HI = 0x094"
definition VREG_QUSED_LO :: u32 where "VREG_QUSED_LO = 0x0A0"
definition VREG_QUSED_HI :: u32 where "VREG_QUSED_HI = 0x0A4"
definition VREG_CONFIG :: u64 where "VREG_CONFIG = 0x100"
definition VM_MAGIC :: u32 where "VM_MAGIC = 0x74726976"
definition VM_DEVBLK :: u32 where "VM_DEVBLK = 2"
definition VRING_DESC_F_NEXT :: u16 where "VRING_DESC_F_NEXT = 1"
definition VRING_DESC_F_WRITE :: u16 where "VRING_DESC_F_WRITE = 2"
definition QUEUE_ENTS :: u32 where "QUEUE_ENTS = 64"
definition RING_BYTES :: nat where "RING_BYTES = 8192"
definition BOUNCE_SECS :: u32 where "BOUNCE_SECS = 32"
definition SECTOR_SIZE :: u32 where "SECTOR_SIZE = 512"

record 'd virtio_hw = "'d mmio" +
  ring_mem :: u64
  bounce :: u64
  req_hdr :: u64
  dev_status :: u64

record 'd vblk =
  v_mmio :: u64
  v_modern :: bool
  desc_tab :: u64
  v_avail :: u64
  v_used :: u64
  v_free_head :: u16
  v_free_count :: u16
  v_last_used :: u16
  v_hw :: 'd

definition v_rd :: "'d virtio_hw \<Rightarrow> u32 \<Rightarrow> 'd vblk \<Rightarrow> u32 \<times> 'd vblk" where
  "v_rd io off s = (let (v, hw) = reg_in io (v_mmio s + ucast (off div 4 * 4)) (v_hw s) in (v, s\<lparr>v_hw := hw\<rparr>))"

definition v_wr :: "'d virtio_hw \<Rightarrow> u32 \<Rightarrow> u32 \<Rightarrow> 'd vblk \<Rightarrow> 'd vblk" where
  "v_wr io off v s = s\<lparr>v_hw := reg_out io (v_mmio s + ucast (off div 4 * 4)) v (v_hw s)\<rparr>"

definition v_store :: "'d virtio_hw \<Rightarrow> u64 \<Rightarrow> bytes \<Rightarrow> 'd vblk \<Rightarrow> 'd vblk" where
  "v_store io a bs s = s\<lparr>v_hw := shared_write io a bs (v_hw s)\<rparr>"

definition v_load :: "'d virtio_hw \<Rightarrow> u64 \<Rightarrow> nat \<Rightarrow> 'd vblk \<Rightarrow> bytes \<times> 'd vblk" where
  "v_load io a n s = (let (bs, hw) = shared_read io a n (v_hw s) in (bs, s\<lparr>v_hw := hw\<rparr>))"

definition legacy_vring_size :: "u32 \<Rightarrow> u32 \<Rightarrow> u64" where
  "legacy_vring_size num align =
     (let a = ucast num * 16 + 2 * (3 + ucast num);
          a = (a + ucast align - 1) AND NOT (ucast align - 1)
      in a + 6 + ucast (8 * num))"

definition negotiate_features :: "'d virtio_hw \<Rightarrow> 'd vblk \<Rightarrow> int \<times> 'd vblk" where
  "negotiate_features io s =
     (let (lo, s) = v_rd io VREG_HFEATURES (v_wr io VREG_HFSEL 0 s) in
      if \<not> v_modern s then (0, v_wr io VREG_GFEATURES 0 (v_wr io VREG_GFSEL 0 s))
      else
        let (hi, s) = v_rd io VREG_HFEATURES (v_wr io VREG_HFSEL 1 s) in
        if hi AND 1 = 0 then (-1, s)
        else
          let s = v_wr io VREG_GFEATURES 1 (v_wr io VREG_GFSEL 1 s)
          in (0, v_wr io VREG_GFEATURES 0 (v_wr io VREG_GFSEL 0 s)))"

definition v_desc :: "'d vblk \<Rightarrow> u64 \<Rightarrow> u64" where
  "v_desc s i = desc_tab s + 16 * i"

text \<open>The mask \<open>~4095u\<close> has 32 bits.\<close>

definition place_rings :: "'d virtio_hw \<Rightarrow> u32 \<Rightarrow> 'd vblk \<Rightarrow> 'd vblk" where
  "place_rings io qn s =
     (let av = ring_mem io + ucast (qn * 16) in
      s\<lparr>desc_tab := ring_mem io, v_avail := av, v_used := (av + 2 * (3 + ucast qn) + 4095) AND 0xFFFFF000\<rparr>)"

definition announce_rings :: "'d virtio_hw \<Rightarrow> 'd vblk \<Rightarrow> 'd vblk" where
  "announce_rings io s =
     (if v_modern s then
        let s = v_wr io VREG_QDESC_LO (ucast (desc_tab s)) s;
            s = v_wr io VREG_QDESC_HI (ucast (drop_bit 32 (desc_tab s))) s;
            s = v_wr io VREG_QAVAIL_LO (ucast (v_avail s)) s;
            s = v_wr io VREG_QAVAIL_HI (ucast (drop_bit 32 (v_avail s))) s;
            s = v_wr io VREG_QUSED_LO (ucast (v_used s)) s;
            s = v_wr io VREG_QUSED_HI (ucast (drop_bit 32 (v_used s))) s
        in v_wr io VREG_QREADY 1 s
      else v_wr io VREG_QPFN (ucast (drop_bit 12 (ring_mem io))) (v_wr io VREG_QALIGN 4096 s))"

definition chain_free :: "'d virtio_hw \<Rightarrow> u32 \<Rightarrow> 'd vblk \<Rightarrow> 'd vblk" where
  "chain_free io qn s =
     (let s = fold (\<lambda>i s. v_store io (v_desc s (of_nat i) + 12) (bytes16 VRING_DESC_F_NEXT)
                 (v_store io (v_desc s (of_nat i) + 14) (bytes16 (of_nat (i + 1))) s)) [0..<unat qn] s
      in v_store io (v_desc s (ucast (qn - 1)) + 12) (bytes16 0) s)"

definition setup_queue :: "'d virtio_hw \<Rightarrow> 'd vblk \<Rightarrow> int \<times> 'd vblk" where
  "setup_queue io s =
     (let s = (if v_modern s then v_wr io VREG_QSEL 0 s else s);
          (qmax, s) = v_rd io VREG_QNUMMAX s
      in if qmax AND 0xFFFF = 0 \<or> qmax = 0xFFFFFFFF then (-1, s)
      else
        let qn = (if qmax < QUEUE_ENTS then qmax else QUEUE_ENTS);
            s = place_rings io qn (v_wr io VREG_QNUM qn s);
            s = v_store io (ring_mem io) (replicate RING_BYTES 0) s;
            s = announce_rings io s;
            s = s\<lparr>v_free_head := 0, v_free_count := ucast qn, v_last_used := 0\<rparr>
        in (0, chain_free io qn s))"

partial_function (option) wait_used :: "'d virtio_hw \<Rightarrow> 'd vblk \<Rightarrow> 'd vblk option" where
  "wait_used io s =
     (let (b, s) = v_load io (v_used s + 2) 2 s in
      if le16 b - v_last_used s = 0 then wait_used io s else Some s)"

definition fill_descs :: "'d virtio_hw \<Rightarrow> bool \<Rightarrow> u32 \<Rightarrow> u64 \<Rightarrow> 'd vblk \<Rightarrow> 'd vblk" where
  "fill_descs io is_write nsect data s =
     (let h = v_free_head s;
          d_data = (h + 1) mod ucast QUEUE_ENTS;
          d_stat = (h + 2) mod ucast QUEUE_ENTS;
          s = v_store io (v_desc s (ucast h)) (bytes64 (req_hdr io) @ bytes32 16 @ bytes16 VRING_DESC_F_NEXT) s;
          s = v_store io (v_desc s (ucast d_data)) (bytes64 data @ bytes32 (nsect * SECTOR_SIZE) @
                bytes16 (VRING_DESC_F_NEXT OR (if is_write then 0 else VRING_DESC_F_WRITE))) s
      in v_store io (v_desc s (ucast d_stat)) (bytes64 (dev_status io) @ bytes32 1 @ bytes16 VRING_DESC_F_WRITE) s)"

definition offer :: "'d virtio_hw \<Rightarrow> 'd vblk \<Rightarrow> 'd vblk" where
  "offer io s =
     (let (b, s) = v_load io (v_avail s + 2) 2 s;
          s = v_store io (v_avail s + 4 + 2 * ucast (le16 b mod ucast QUEUE_ENTS)) (bytes16 (v_free_head s)) s;
          (b, s) = v_load io (v_avail s + 2) 2 s;
          s = v_store io (v_avail s + 2) (bytes16 (le16 b + 1)) s
      in v_wr io VREG_QNOTIFY 0 s)"

definition submit :: "'d virtio_hw \<Rightarrow> bool \<Rightarrow> u64 \<Rightarrow> u32 \<Rightarrow> u64 \<Rightarrow> 'd vblk \<Rightarrow> (int \<times> 'd vblk) option" where
  "submit io is_write sector nsect data s = do {
     let s = v_store io (req_hdr io) (bytes32 (if is_write then 1 else 0) @ bytes32 0 @ bytes64 sector) s;
     let s = v_store io (dev_status io) [0xEE] s;
     let s = offer io (fill_descs io is_write nsect data s);
     s \<leftarrow> wait_used io s;
     let d_stat = (v_free_head s + 2) mod ucast QUEUE_ENTS;
     let s = s\<lparr>v_last_used := v_last_used s + 1, v_free_head := (d_stat + 1) mod ucast QUEUE_ENTS\<rparr>;
     let (b, s) = v_load io (dev_status io) 1 s;
     Some (if b = [0] then 0 else -1, s) }"

text \<open>The transfers in pieces of at most 32 sectors.\<close>

definition chunk_of :: "u32 \<Rightarrow> u32" where
  "chunk_of count = (if count < BOUNCE_SECS then count else BOUNCE_SECS)"

lemma chunk_of_decreases: "count \<noteq> 0 \<Longrightarrow> unat (count - chunk_of count) < unat count"
proof -
  assume "count \<noteq> 0"
  then have "chunk_of count \<le> count" "chunk_of count \<noteq> 0" by (auto simp: chunk_of_def BOUNCE_SECS_def)
  then have "chunk_of count \<le> count" "unat (chunk_of count) \<le> unat count" "0 < unat (chunk_of count)"
    by (simp_all add: word_le_nat_alt unat_gt_0)
  then show ?thesis by (simp add: unat_sub)
qed

function vblk_read_loop :: "'d virtio_hw \<Rightarrow> u64 \<Rightarrow> u32 \<Rightarrow> bytes \<Rightarrow> 'd vblk \<Rightarrow> (int \<times> bytes \<times> 'd vblk) option" where
  "vblk_read_loop io lba count out s =
     (if count = 0 then Some (0, out, s)
      else do {
        let chunk = chunk_of count;
        (rc, s) \<leftarrow> submit io False lba chunk (bounce io) s;
        if rc \<noteq> 0 then Some (-1, out, s)
        else do {
          let (bs, s) = v_load io (bounce io) (unat (chunk * SECTOR_SIZE)) s;
          vblk_read_loop io (lba + ucast chunk) (count - chunk) (out @ bs) s } })"
  by pat_completeness auto
termination
  by (relation "measure (\<lambda>(io, lba, count, _). unat count)") (auto simp: chunk_of_decreases)

function vblk_write_loop :: "'d virtio_hw \<Rightarrow> u64 \<Rightarrow> u32 \<Rightarrow> bytes \<Rightarrow> 'd vblk \<Rightarrow> (int \<times> 'd vblk) option" where
  "vblk_write_loop io lba count b s =
     (if count = 0 then Some (0, s)
      else do {
        let chunk = chunk_of count;
        let n = unat (chunk * SECTOR_SIZE);
        (rc, s) \<leftarrow> submit io True lba chunk (bounce io) (v_store io (bounce io) (take n b) s);
        if rc \<noteq> 0 then Some (-1, s)
        else vblk_write_loop io (lba + ucast chunk) (count - chunk) (drop n b) s })"
  by pat_completeness auto
termination
  by (relation "measure (\<lambda>(io, lba, count, _). unat count)") (auto simp: chunk_of_decreases)

declare vblk_read_loop.simps [simp del] vblk_write_loop.simps [simp del]

definition vblk_read :: "'d virtio_hw \<Rightarrow> u64 \<Rightarrow> u32 \<Rightarrow> 'd vblk \<Rightarrow> (int \<times> bytes \<times> 'd vblk) option" where
  "vblk_read io lba count s = vblk_read_loop io lba count [] s"

definition vblk_write :: "'d virtio_hw \<Rightarrow> u64 \<Rightarrow> u32 \<Rightarrow> bytes \<Rightarrow> 'd vblk \<Rightarrow> (int \<times> 'd vblk) option" where
  "vblk_write io lba count b s = vblk_write_loop io lba count b s"

section \<open>Probing\<close>

text \<open>The block layer has total functions for the entry points; where the driver does not return their
  result is unspecified.\<close>

definition virtio_device :: "'d virtio_hw \<Rightarrow> string \<Rightarrow> u64 \<Rightarrow> bool \<Rightarrow> 'd vblk blk_device" where
  "virtio_device io nm sectors ro = zero_device
     \<lparr>bd_name := upd (bd_name (zero_device :: 'd vblk blk_device)) 0 (cstring nm), bd_present := True, bd_sector_size := SECTOR_SIZE,
      bd_sectors := sectors, bd_writable := \<not> ro,
      bd_read_sectors := Some (\<lambda>lba count s. the (vblk_read io lba count s)),
      bd_write_sectors := Some (\<lambda>lba count b s. the (vblk_write io lba count b s))\<rparr>"

type_synonym 'd vdisks = "'d vblk \<times> 'd vblk blkdev \<times> messages"

definition start_device :: "'d virtio_hw \<Rightarrow> 'd vdisks \<Rightarrow> 'd vdisks option" where
  "start_device io st =
     (let (s, r, lg) = st;
          s = v_wr io VREG_STATUS 3 (v_wr io VREG_STATUS 0 s);
          (rc, s) = negotiate_features io s
      in if rc \<noteq> 0 then Some (s\<lparr>v_mmio := 0\<rparr>, r, lg @ [(''blk virtio unsupported feature set'', [])])
      else
        let (rc, s) = setup_queue io (v_wr io VREG_STATUS 11 s) in
        if rc \<noteq> 0 then Some (s\<lparr>v_mmio := 0\<rparr>, r, lg)
      else
        let (lo, hw) = reg_in io (v_mmio s + VREG_CONFIG) (v_hw s);
            (hi, hw) = reg_in io (v_mmio s + VREG_CONFIG + 4) hw;
            sectors = ucast lo OR push_bit 32 (ucast hi);
            s = s\<lparr>v_hw := hw\<rparr>
        in if sectors = 0 then Some (s\<lparr>v_mmio := 0\<rparr>, r, lg)
      else
        let (v, s) = v_rd io VREG_HFEATURES s;
            ro = (v AND push_bit 5 1 \<noteq> 0);
            s = v_wr io VREG_STATUS 15 s;
            nm = ''virtio'' @ [char_of (48 + nat (blk_count r))]
        in do {
          (added, r) \<leftarrow> blk_register (Some (virtio_device io nm sectors ro)) r;
          if \<not> added then Some (s\<lparr>v_mmio := 0\<rparr>, r, lg)
          else Some (s, r, lg @ [(''blk %s virtio %llu MB%s'', [str_arg (cstring nm), SNum (drop_bit 11 sectors),
                 str_arg (cstring (if ro then '' (ro)'' else ''''))])]) })"

fun probe_slots :: "'d virtio_hw \<Rightarrow> u64 list \<Rightarrow> 'd vdisks \<Rightarrow> 'd vdisks option" where
  "probe_slots io [] st = Some st"
| "probe_slots io (slot # slots) (s, r, lg) =
     (let base = 0x0A000000 + slot * 0x200;
          (m, hw) = reg_in io (base + ucast VREG_MAGIC) (v_hw s);
          s = s\<lparr>v_hw := hw\<rparr>
      in if m \<noteq> VM_MAGIC then probe_slots io slots (s, r, lg)
      else
        let (ver, hw) = reg_in io (base + ucast VREG_VERSION) (v_hw s);
            (devid, hw) = reg_in io (base + ucast VREG_DEVID) hw;
            s = s\<lparr>v_hw := hw\<rparr>
        in if devid \<noteq> VM_DEVBLK \<or> (ver \<noteq> 1 \<and> ver \<noteq> 2) then probe_slots io slots (s, r, lg)
      else start_device io (s\<lparr>v_mmio := base, v_modern := ver \<ge> 2\<rparr>, r, lg))"

definition virtio_blk_probe :: "'d virtio_hw \<Rightarrow> 'd vdisks \<Rightarrow> 'd vdisks option" where
  "virtio_blk_probe io st = probe_slots io (map of_nat [0..<32]) st"

section \<open>The chain of descriptors\<close>

text \<open>What the device does to the descriptor table: nothing, as it only reads it. \<open>tab\<close> gives the bytes of
  the table, and every access but a store of the driver into it leaves them alone.\<close>

definition table_kept :: "'d virtio_hw \<Rightarrow> ('d \<Rightarrow> nat \<Rightarrow> u8) \<Rightarrow> bool" where
  "table_kept io tab \<longleftrightarrow>
     (\<forall>a hw. tab (snd (reg_in io a hw)) = tab hw) \<and> (\<forall>a v hw. tab (reg_out io a v hw) = tab hw) \<and>
     (\<forall>a hw. tab (snd (mem_in io a hw)) = tab hw) \<and>
     (\<forall>a v hw. tab (mem_out io a v hw) =
        (if unat (a - ring_mem io) < 1024 then (tab hw)(unat (a - ring_mem io) := v) else tab hw))"

text \<open>The other memory of the driver lies outside the ring.\<close>

definition off_ring :: "'d virtio_hw \<Rightarrow> u64 \<Rightarrow> nat \<Rightarrow> bool" where
  "off_ring io a n \<longleftrightarrow> 1024 \<le> unat (a - ring_mem io) \<and> unat (a - ring_mem io) + n \<le> 2 ^ 64"

definition desc_flags :: "(nat \<Rightarrow> u8) \<Rightarrow> nat \<Rightarrow> u16" where
  "desc_flags t i = le16 [t (16 * i + 12), t (16 * i + 13)]"

definition desc_next :: "(nat \<Rightarrow> u8) \<Rightarrow> nat \<Rightarrow> u16" where
  "desc_next t i = le16 [t (16 * i + 14), t (16 * i + 15)]"

lemma tab_shared_read: "table_kept io tab \<Longrightarrow> tab (snd (shared_read io a n hw)) = tab hw"
  by (induction n arbitrary: a hw) (simp_all add: table_kept_def case_prod_beta Let_def)

lemma tab_shared_write:
  assumes "table_kept io tab" and "unat (a - ring_mem io) + length bs \<le> 2 ^ 64"
  shows "tab (shared_write io a bs hw) =
    (\<lambda>i. if i < 1024 \<and> unat (a - ring_mem io) \<le> i \<and> i < unat (a - ring_mem io) + length bs
         then bs ! (i - unat (a - ring_mem io)) else tab hw i)"
  using assms(2)
proof (induction bs arbitrary: a hw)
  case (Cons b bs)
  have "unat (a + 1 - ring_mem io) = (if bs = [] then unat (a + 1 - ring_mem io) else unat (a - ring_mem io) + 1)"
  proof (cases bs)
    case (Cons c cs)
    have "unat ((a - ring_mem io) + 1) = unat (a - ring_mem io) + 1"
      using Cons.prems Cons by (simp add: unat_word_ariths)
    then show ?thesis using Cons by (simp add: algebra_simps)
  qed simp
  then show ?case using Cons assms(1)
    by (cases "bs = []") (auto simp: table_kept_def fun_eq_iff nth_Cons' split: if_splits)
qed (auto simp: fun_eq_iff)

lemma v_store_fields [simp]:
  "desc_tab (v_store io a bs s) = desc_tab s" "v_avail (v_store io a bs s) = v_avail s"
  "v_used (v_store io a bs s) = v_used s" "v_free_head (v_store io a bs s) = v_free_head s"
  "v_last_used (v_store io a bs s) = v_last_used s" "v_mmio (v_store io a bs s) = v_mmio s"
  by (simp_all add: v_store_def)

lemma v_wr_fields [simp]:
  "desc_tab (v_wr io a v s) = desc_tab s" "v_avail (v_wr io a v s) = v_avail s"
  "v_used (v_wr io a v s) = v_used s" "v_free_head (v_wr io a v s) = v_free_head s"
  "v_last_used (v_wr io a v s) = v_last_used s" "v_modern (v_wr io a v s) = v_modern s" "v_mmio (v_wr io a v s) = v_mmio s"
  by (simp_all add: v_wr_def)

lemma v_load_fields [simp]:
  "desc_tab (snd (v_load io a n s)) = desc_tab s" "v_avail (snd (v_load io a n s)) = v_avail s"
  "v_used (snd (v_load io a n s)) = v_used s" "v_free_head (snd (v_load io a n s)) = v_free_head s"
  "v_last_used (snd (v_load io a n s)) = v_last_used s" "v_mmio (snd (v_load io a n s)) = v_mmio s"
  by (simp_all add: v_load_def case_prod_beta Let_def)

lemma tab_v_access:
  "table_kept io tab \<Longrightarrow> tab (v_hw (snd (v_load io a n s))) = tab (v_hw s)"
  "table_kept io tab \<Longrightarrow> tab (v_hw (v_wr io off v s)) = tab (v_hw s)"
  "table_kept io tab \<Longrightarrow> off_ring io a (length bs) \<Longrightarrow> tab (v_hw (v_store io a bs s)) = tab (v_hw s)"
  using tab_shared_read [of io tab a n "v_hw s"] tab_shared_write [of io tab a bs "v_hw s"]
  by (auto simp: v_load_def v_wr_def v_store_def case_prod_beta Let_def table_kept_def off_ring_def fun_eq_iff)

lemma tab_v_store_desc:
  assumes "table_kept io tab" and i: "unat i < 64" and o: "unat k + length bs \<le> 16"
  shows "tab (v_hw (v_store io (ring_mem io + 16 * i + k) bs s)) =
    (\<lambda>j. if 16 * unat i + unat k \<le> j \<and> j < 16 * unat i + unat k + length bs then bs ! (j - (16 * unat i + unat k)) else tab (v_hw s) j)"
proof -
  have "unat (ring_mem io + 16 * i + k - ring_mem io) = 16 * unat i + unat k"
    using i o by (simp add: unat_word_ariths)
  then show ?thesis using tab_shared_write [OF assms(1), of "ring_mem io + 16 * i + k" bs "v_hw s"] i o
    by (auto simp: v_store_def fun_eq_iff)
qed

lemma next_v_store_low:
  assumes "table_kept io tab" and "unat i < 64" and "unat k + length bs \<le> 14"
  shows "desc_next (tab (v_hw (v_store io (ring_mem io + 16 * i + k) bs s))) j = desc_next (tab (v_hw s)) j"
proof -
  have "\<not> (16 * unat i + unat k \<le> 16 * j + e \<and> 16 * j + e < 16 * unat i + unat k + length bs)" if "e = 14 \<or> e = 15" for e
    using assms(3) that by (cases j "unat i" rule: linorder_cases) linarith+
  from this [of 14] this [of 15] show ?thesis
    using tab_v_store_desc [OF assms(1, 2), of k bs] assms(3) by (auto simp: desc_next_def)
qed

lemma next_v_store_link:
  assumes "table_kept io tab" and "unat i < 64"
  shows "desc_next (tab (v_hw (v_store io (ring_mem io + 16 * i + 14) (bytes16 v) s))) j =
    (if j = unat i then v else desc_next (tab (v_hw s)) j)"
proof -
  have "le16 [ucast v, ucast (drop_bit 8 v)] = v" using le16_bytes16 [of v] by (simp add: bytes16_def)
  moreover have "16 * unat i + 14 \<le> 16 * j + e \<and> 16 * j + e < 16 * unat i + 16 \<longleftrightarrow> j = unat i" if "e = 14 \<or> e = 15" for e
    using that by presburger
  from this [of 14] this [of 15] calculation show ?thesis
    using tab_v_store_desc [OF assms, of 14 "bytes16 v"] by (auto simp: desc_next_def bytes16_def)
qed

text \<open>After set-up each link points to the following descriptor, and no request changes a link.\<close>

definition linked :: "'d virtio_hw \<Rightarrow> ('d \<Rightarrow> nat \<Rightarrow> u8) \<Rightarrow> nat \<Rightarrow> 'd vblk \<Rightarrow> bool" where
  "linked io tab k s \<longleftrightarrow> desc_tab s = ring_mem io \<and> v_avail s = ring_mem io + 1024 \<and> unat (v_free_head s) = 3 * k mod 64 \<and>
     (\<forall>i < 64. desc_next (tab (v_hw s)) i = of_nat (i + 1))"

lemma links_chained:
  assumes "table_kept io tab" and "desc_tab s = ring_mem io" and "n \<le> 64"
  shows "let s' = fold (\<lambda>i s. v_store io (v_desc s (of_nat i) + 12) (bytes16 VRING_DESC_F_NEXT)
                 (v_store io (v_desc s (of_nat i) + 14) (bytes16 (of_nat (i + 1))) s)) [0..<n] s
    in desc_tab s' = ring_mem io \<and> v_avail s' = v_avail s \<and> v_free_head s' = v_free_head s \<and>
      (\<forall>i < n. desc_next (tab (v_hw s')) i = of_nat (i + 1))"
  using assms(3)
proof (induction n)
  case (Suc n)
  then have n: "unat (of_nat n :: u64) = n" "n < 64" by (simp_all add: unat_of_nat)
  with Suc show ?case
    by (simp add: Let_def next_v_store_low [OF assms(1)] next_v_store_link [OF assms(1)] v_desc_def less_Suc_eq del: of_nat_Suc)
qed (use assms(2) in simp)

lemma setup_queue_links:
  assumes "table_kept io tab" and "setup_queue io s = (0, s')"
    and big: "\<And>s. 64 \<le> fst (v_rd io VREG_QNUMMAX s)"
  shows "linked io tab 0 s'"
proof -
  define s1 where "s1 = (if v_modern s then v_wr io VREG_QSEL 0 s else s)"
  obtain q s2 where q: "v_rd io VREG_QNUMMAX s1 = (q, s2)" by fastforce
  then have qn: "(if q < QUEUE_ENTS then q else QUEUE_ENTS) = 64"
    using big [of s1] by (auto simp: QUEUE_ENTS_def)
  define s3 where "s3 = (announce_rings io (v_store io (ring_mem io) (replicate RING_BYTES 0)
    (place_rings io 64 (v_wr io VREG_QNUM 64 s2))))\<lparr>v_free_head := 0, v_free_count := 64, v_last_used := 0\<rparr>"
  have s': "s' = chain_free io 64 s3"
    using assms(2) q qn by (simp add: setup_queue_def s1_def [symmetric] s3_def Let_def split: if_splits)
  have s3: "desc_tab s3 = ring_mem io" "v_avail s3 = ring_mem io + 1024" "v_free_head s3 = 0"
    by (simp_all add: s3_def announce_rings_def place_rings_def Let_def)
  have last: "desc_next (tab (v_hw (v_store io (1020 + ring_mem io) (bytes16 0) s))) i = desc_next (tab (v_hw s)) i" for s i
  proof -
    have "unat (63 :: u64) < 64" "unat (12 :: u64) + length (bytes16 0) \<le> 14" by simp_all
    from next_v_store_low [OF assms(1) this, of s i] show ?thesis by (simp add: add.commute)
  qed
  show ?thesis using links_chained [OF assms(1) s3(1), of 64] s3
    by (simp add: s' chain_free_def linked_def Let_def v_desc_def last)
qed

lemma avail_off_ring: "v_avail s = ring_mem io + 1024 \<Longrightarrow> unat k + n \<le> 1024 \<Longrightarrow> off_ring io (v_avail s + k) n"
  by (simp add: off_ring_def unat_word_ariths)

lemma flags_v_store:
  assumes "table_kept io tab" and "unat i < 64" and "length bs = 12"
  shows "desc_flags (tab (v_hw (v_store io (ring_mem io + 16 * i) (bs @ bytes16 f) s))) j =
    (if j = unat i then f else desc_flags (tab (v_hw s)) j)"
proof -
  have f: "le16 [ucast f, ucast (drop_bit 8 f)] = f" using le16_bytes16 [of f] by (simp add: bytes16_def)
  have "16 * unat i \<le> 16 * j + e \<and> 16 * j + e < 16 * unat i + 14 \<longleftrightarrow> j = unat i" if "e = 12 \<or> e = 13" for e
    using that by presburger
  from this [of 12] this [of 13] show ?thesis
    using tab_v_store_desc [OF assms(1, 2), of 0 "bs @ bytes16 f"] assms(3) f
    by (auto simp: desc_flags_def nth_append bytes16_def)
qed

lemma fill_descs_linked:
  assumes t: "table_kept io tab" and l: "linked io tab k s"
  shows "linked io tab k (fill_descs io w n data s) \<and>
    desc_flags (tab (v_hw (fill_descs io w n data s))) (unat (v_free_head s)) = VRING_DESC_F_NEXT"
proof -
  define h d e where "h = v_free_head s" and "d = (h + 1) mod 64" and "e = (h + 2) mod 64"
  have h: "unat h < 64" using l by (simp add: linked_def h_def)
  have d: "unat d = (unat h + 1) mod 64" "unat e = (unat h + 2) mod 64"
    using h by (simp_all add: d_def e_def unat_mod unat_word_ariths)
  have ne: "unat d < 64" "unat e < 64" "unat h \<noteq> unat d" "unat h \<noteq> unat e"
    unfolding d using h by (cases "unat h + 1 < 64"; cases "unat h + 2 < 64"; auto simp: mod_if)+
  have low: "desc_next (tab (v_hw (v_store io (ring_mem io + 16 * i) bs s))) j = desc_next (tab (v_hw s)) j"
    if "unat i < 64" "length bs = 14" for i bs s j
    using next_v_store_low [OF t that(1), of 0 bs s j] that(2) by simp
  have "fill_descs io w n data s = v_store io (ring_mem io + 16 * ucast e) ((bytes64 (dev_status io) @ bytes32 1) @ bytes16 VRING_DESC_F_WRITE)
     (v_store io (ring_mem io + 16 * ucast d) ((bytes64 data @ bytes32 (n * SECTOR_SIZE)) @ bytes16 (VRING_DESC_F_NEXT OR (if w then 0 else VRING_DESC_F_WRITE)))
       (v_store io (ring_mem io + 16 * ucast h) ((bytes64 (req_hdr io) @ bytes32 16) @ bytes16 VRING_DESC_F_NEXT) s))"
    using l by (simp add: fill_descs_def Let_def v_desc_def linked_def h_def d_def e_def QUEUE_ENTS_def)
  then show ?thesis using l h ne
    by (simp add: flags_v_store [OF t] low linked_def h_def [symmetric] del: append_assoc)
qed

lemma offer_linked:
  assumes t: "table_kept io tab" and l: "linked io tab k s"
  shows "linked io tab k (offer io s) \<and> tab (v_hw (offer io s)) = tab (v_hw s) \<and> v_free_head (offer io s) = v_free_head s"
proof -
  have m: "unat (2 * ucast (b mod 64) :: u64) \<le> 126" for b :: u16
  proof -
    have "unat b mod 64 < 64" by simp
    then show ?thesis by (simp add: unat_word_ariths unat_mod) 
  qed
  have o: "off_ring io (v_avail s + 2) 2" "off_ring io (v_avail s + 4 + 2 * ucast (b mod 64)) 2" for b :: u16
    using l m [of b] avail_off_ring [of s io 2 2] avail_off_ring [of s io "4 + 2 * ucast (b mod 64)" 2]
    by (simp_all add: linked_def add.assoc unat_word_ariths)
  then show ?thesis using l
    by (simp add: offer_def case_prod_beta Let_def linked_def tab_v_access [OF t] QUEUE_ENTS_def)
qed

lemma wait_used_keeps:
  assumes t: "table_kept io tab" and w: "wait_used io s = Some s'"
  shows "desc_tab s' = desc_tab s \<and> v_avail s' = v_avail s \<and> v_free_head s' = v_free_head s \<and> tab (v_hw s') = tab (v_hw s)"
proof -
  let ?same = "\<lambda>s s' :: 'a vblk. desc_tab s' = desc_tab s \<and> v_avail s' = v_avail s \<and> v_free_head s' = v_free_head s \<and> tab (v_hw s') = tab (v_hw s)"
  have "io = io \<longrightarrow> ?same s s'"
    by (rule wait_used.raw_induct [where P = "\<lambda>i s s'. i = io \<longrightarrow> ?same s s'", OF _ w])
      (auto simp: case_prod_beta Let_def tab_v_access [OF t] split: if_splits)
  then show ?thesis by simp
qed

lemma submit_linked:
  assumes t: "table_kept io tab" and l: "linked io tab k s"
    and off: "off_ring io (req_hdr io) 16" "off_ring io (dev_status io) 1"
    and sub: "submit io w sector n data s = Some (rc, s')"
  shows "linked io tab (Suc k) s' \<and> desc_flags (tab (v_hw s')) (3 * k mod 64) = VRING_DESC_F_NEXT"
proof -
  define s1 where "s1 = v_store io (dev_status io) [0xEE] (v_store io (req_hdr io) (bytes32 (if w then 1 else 0) @ bytes32 0 @ bytes64 sector) s)"
  have 1: "linked io tab k s1" using l off by (simp add: s1_def linked_def tab_v_access [OF t])
  define s2 where "s2 = offer io (fill_descs io w n data s1)"
  have 2: "linked io tab k s2" "desc_flags (tab (v_hw s2)) (3 * k mod 64) = VRING_DESC_F_NEXT"
    using offer_linked [OF t, of k "fill_descs io w n data s1"] fill_descs_linked [OF t 1, of w n data] 1 by (auto simp: s2_def linked_def)
  obtain s3 where 3: "wait_used io s2 = Some s3" and s': "s' = snd (v_load io (dev_status io) 1
      (s3\<lparr>v_last_used := v_last_used s3 + 1, v_free_head := ((v_free_head s3 + 2) mod 64 + 1) mod 64\<rparr>))"
    using sub by (auto simp: submit_def Let_def s1_def [symmetric] s2_def [symmetric] bind_simps case_prod_beta QUEUE_ENTS_def)
  have h: "unat (((f + 2) mod 64 + 1) mod 64) = (3 + unat f) mod 64" if "unat f < 64" for f :: u16
    using that by (simp add: unat_mod unat_word_ariths mod_simps)
  show ?thesis using 2 wait_used_keeps [OF t 3] h [of "v_free_head s3"]
    by (simp add: s' linked_def tab_v_access [OF t] mod_simps)
qed

text \<open>C38: \<open>setup_queue\<close> links every descriptor to the next one and \<open>submit\<close> takes three consecutive ones
  modulo 64 without setting the links. With a queue of 64 entries the head moves by three from one request
  to the next, so the 22nd request starts at descriptor 63, whose link is 64: the device is told to go on
  to a descriptor outside the table, while the data descriptor is number 0.\<close>

theorem virtio_chain_leaves_table:
  assumes t: "table_kept io tab" and off: "off_ring io (req_hdr io) 16" "off_ring io (dev_status io) 1"
    and big: "\<And>s. 64 \<le> fst (v_rd io VREG_QNUMMAX s)"
    and start: "setup_queue io s = (0, s0)"
    and run: "ofold (\<lambda>(w, sector, n) s. map_option snd (submit io w sector n (bounce io) s)) reqs s0 = Some s1" "length reqs = 21"
    and last: "submit io w sector n (bounce io) s1 = Some (rc, s2)"
  shows "unat (v_free_head s1) = 63 \<and> desc_flags (tab (v_hw s2)) 63 = VRING_DESC_F_NEXT \<and> desc_next (tab (v_hw s2)) 63 = 64"
proof -
  have "linked io tab (k + length reqs) s1"
    if "linked io tab k s0" "ofold (\<lambda>(w, sector, n) s. map_option snd (submit io w sector n (bounce io) s)) reqs s0 = Some s1" for k reqs s0
    using that
  proof (induction reqs arbitrary: k s0)
    case (Cons r reqs)
    then show ?case using submit_linked [OF t _ off] by (cases r) (fastforce simp: bind_simps)
  qed simp
  from this [OF setup_queue_links [OF t start big] run(1)] have l: "linked io tab 21 s1" using run(2) by simp
  show ?thesis using submit_linked [OF t l off last] l by (simp add: linked_def)
qed

text \<open>A device that completes every request as soon as it is notified: its state is the memory and the
  number of notifications, which is the index of the used ring.\<close>

definition notify_box :: "((u64 \<Rightarrow> u8) \<times> u16) virtio_hw" where
  "notify_box = \<lparr>reg_in = \<lambda>a hw. (64, hw),
     reg_out = \<lambda>a v (m, n). (m, if a = 0x50 then n + 1 else n),
     mem_in = \<lambda>a (m, n). (if a = 0x2002 then ucast n else if a = 0x2003 then ucast (drop_bit 8 n) else m a, (m, n)),
     mem_out = \<lambda>a v (m, n). (m(a := v), n),
     ring_mem = 0x1000, bounce = 0x10000, req_hdr = 0x20000, dev_status = 0x20100\<rparr>"

definition box_table :: "(u64 \<Rightarrow> u8) \<times> u16 \<Rightarrow> nat \<Rightarrow> u8" where
  "box_table hw i = (if i < 1024 then fst hw (0x1000 + of_nat i) else 0)"

definition box_start :: "((u64 \<Rightarrow> u8) \<times> u16) vblk" where
  "box_start = \<lparr>v_mmio = 0, v_modern = True, desc_tab = 0, v_avail = 0, v_used = 0, v_free_head = 0,
     v_free_count = 0, v_last_used = 0, v_hw = (\<lambda>_. 0, 0)\<rparr>"

definition box_idle :: "((u64 \<Rightarrow> u8) \<times> u16) vblk \<Rightarrow> bool" where
  "box_idle s \<longleftrightarrow> v_mmio s = 0 \<and> v_used s = 0x2000 \<and> snd (v_hw s) = v_last_used s"

lemma box_ops:
  "reg_in notify_box a hw = (64, hw)" "snd (mem_in notify_box a hw) = hw"
  "reg_out notify_box a v hw = (fst hw, if a = 0x50 then snd hw + 1 else snd hw)"
  "mem_out notify_box a b hw = ((fst hw)(a := b), snd hw)" "ring_mem notify_box = 0x1000"
  by (simp_all add: notify_box_def case_prod_beta)

lemma box_table_store: "box_table (m(a := v), n) = (if unat (a - 0x1000) < 1024 then (box_table (m, n))(unat (a - 0x1000) := v) else box_table (m, n))"
proof (rule ext)
  fix i
  have "0x1000 + of_nat i = a \<longleftrightarrow> i = unat (a - 0x1000)" if "i < 1024"
  proof
    show "i = unat (a - 0x1000)" if "0x1000 + of_nat i = a" using that \<open>i < 1024\<close> by (auto simp: unat_of_nat)
    show "0x1000 + of_nat i = a" if "i = unat (a - 0x1000)" using that by simp
  qed
  then show "box_table (m(a := v), n) i = (if unat (a - 0x1000) < 1024 then (box_table (m, n))(unat (a - 0x1000) := v) else box_table (m, n)) i"
    by (cases "i < 1024") (auto simp: box_table_def)
qed

lemma box_table_kept: "table_kept notify_box box_table"
proof -
  have "box_table (m, n) = box_table (m, k)" for m n k by (simp add: box_table_def fun_eq_iff)
  then show ?thesis
    by (simp add: table_kept_def box_ops box_table_store [where n = "snd hw" for hw])
qed

lemma box_hw: "snd (shared_write notify_box a bs hw) = snd hw" "snd (shared_read notify_box a n hw) = hw"
proof -
  show "snd (shared_write notify_box a bs hw) = snd hw"
    by (induction bs arbitrary: a hw) (simp_all add: box_ops)
  show "snd (shared_read notify_box a n hw) = hw"
    by (induction n arbitrary: a hw) (simp_all add: box_ops case_prod_beta Let_def)
qed

lemma box_submit:
  assumes "box_idle s"
  shows "\<exists>rc s'. submit notify_box w sector n data s = Some (rc, s') \<and> box_idle s'"
proof -
  define s2 where "s2 = offer notify_box (fill_descs notify_box w n data (v_store notify_box (dev_status notify_box) [0xEE]
    (v_store notify_box (req_hdr notify_box) (bytes32 (if w then 1 else 0) @ bytes32 0 @ bytes64 sector) s)))"
  have 2: "v_mmio s2 = 0" "v_used s2 = 0x2000" "snd (v_hw s2) = v_last_used s2 + 1"
    using assms by (simp_all add: s2_def offer_def fill_descs_def box_idle_def Let_def case_prod_beta v_wr_def v_store_def v_load_def
      VREG_QNOTIFY_def box_hw box_ops)
  have u: "v_load notify_box (v_used s2 + 2) 2 s2 = ([ucast (snd (v_hw s2)), ucast (drop_bit 8 (snd (v_hw s2)))], s2)"
    using 2 by (cases s2) (simp add: v_load_def numeral_2_eq_2 notify_box_def case_prod_beta prod_eq_iff)
  have "wait_used notify_box s2 = Some s2"
    using 2(3) u le16_bytes16 [of "snd (v_hw s2)"] by (subst wait_used.simps) (simp add: bytes16_def)
  then show ?thesis using 2
    by (simp add: submit_def Let_def s2_def [symmetric] case_prod_beta box_idle_def v_load_def box_hw box_ops)
qed

lemma box_idle_store: "box_idle (v_store notify_box a bs s) \<longleftrightarrow> box_idle s"
  by (simp add: box_idle_def v_store_def box_hw)

lemma box_idle_chain: "box_idle s \<Longrightarrow> box_idle (chain_free notify_box qn s)"
  by (simp add: chain_free_def Let_def box_idle_store) (rule fold_invariant [where Q = "\<lambda>_. True" and P = box_idle], auto simp: box_idle_store)

lemma box_setup: "\<exists>s0. setup_queue notify_box box_start = (0, s0) \<and> box_idle s0"
proof -
  define s where "s = (announce_rings notify_box (v_store notify_box 0x1000 (replicate RING_BYTES 0)
    (place_rings notify_box 64 (v_wr notify_box VREG_QNUM 64 (v_wr notify_box VREG_QSEL 0 box_start)))))\<lparr>v_free_head := 0, v_free_count := 64, v_last_used := 0\<rparr>"
  have "box_idle s"
    by (simp add: s_def box_idle_def announce_rings_def place_rings_def v_wr_def v_store_def box_start_def box_ops box_hw Let_def
      VREG_QNUM_def VREG_QSEL_def VREG_QDESC_LO_def VREG_QDESC_HI_def VREG_QAVAIL_LO_def VREG_QAVAIL_HI_def VREG_QUSED_LO_def
      VREG_QUSED_HI_def VREG_QREADY_def VREG_QPFN_def VREG_QALIGN_def)
  moreover have "setup_queue notify_box box_start = (0, chain_free notify_box 64 s)"
    by (simp add: setup_queue_def v_rd_def box_ops QUEUE_ENTS_def s_def box_start_def Let_def) 
  ultimately show ?thesis using box_idle_chain by blast
qed

theorem virtio_chain_leaves_table_witness:
  "\<exists>s0 s1 s2 rc. setup_queue notify_box box_start = (0, s0) \<and>
     ofold (\<lambda>(w, sector, n) s. map_option snd (submit notify_box w sector n (bounce notify_box) s)) (replicate 21 (False, 0, 1)) s0 = Some s1 \<and>
     submit notify_box False 0 1 (bounce notify_box) s1 = Some (rc, s2) \<and>
     unat (v_free_head s1) = 63 \<and> desc_next (box_table (v_hw s2)) 63 = 64"
proof -
  obtain s0 where s0: "setup_queue notify_box box_start = (0, s0)" "box_idle s0" using box_setup by blast
  have "\<exists>s1. ofold (\<lambda>(w, sector, n) s. map_option snd (submit notify_box w sector n (bounce notify_box) s)) (replicate 21 (False, 0, 1)) s0 = Some s1 \<and> box_idle s1"
    using s0(2) by (rule ofold_total) (use box_submit in \<open>fastforce\<close>)
  then obtain s1 where s1: "ofold (\<lambda>(w, sector, n) s. map_option snd (submit notify_box w sector n (bounce notify_box) s)) (replicate 21 (False, 0, 1)) s0 = Some s1" "box_idle s1"
    by blast
  obtain rc s2 where s2: "submit notify_box False 0 1 (bounce notify_box) s1 = Some (rc, s2)" using box_submit [OF s1(2)] by blast
  have "off_ring notify_box (req_hdr notify_box) 16" "off_ring notify_box (dev_status notify_box) 1" "\<And>s. 64 \<le> fst (v_rd notify_box VREG_QNUMMAX s)"
    by (simp_all add: off_ring_def notify_box_def v_rd_def)
  from virtio_chain_leaves_table [OF box_table_kept this s0(1) s1(1) _ s2] s0(1) s1(1) s2 show ?thesis by auto
qed

end
