(* ===== verification/Firmware.thy ===== *)
theory Firmware
  imports Kstring Ports Mmio Printk
begin

text \<open>
  What the firmware left behind: the SMBIOS reader \<open>drivers/firmware/smbios.c\<close>, the CMOS registers
  \<open>drivers/firmware/cmos.c\<close> and the ACPI tables \<open>drivers/acpi/rsdp.c\<close>, \<open>drivers/acpi/fadt.c\<close>. Physical
  memory is a \<open>memory\<close> that every address reads; pointers are 64-bit words. The searches for a
  terminator have no bound in the code and are \<open>partial_function\<close>s. A read past \<open>found_rsdp\<close>, which
  is an object of its own, is \<open>None\<close>.
\<close>

section \<open>SMBIOS\<close>

abbreviation mem8 :: "memory \<Rightarrow> u64 \<Rightarrow> u8" where
  "mem8 m p \<equiv> m (unat p)"

abbreviation mem16 :: "memory \<Rightarrow> u64 \<Rightarrow> u16" where
  "mem16 m p \<equiv> le16 (load_bytes m (unat p) 2)"

abbreviation mem32 :: "memory \<Rightarrow> u64 \<Rightarrow> u32" where
  "mem32 m p \<equiv> le32 (load_bytes m (unat p) 4)"

abbreviation mem64 :: "memory \<Rightarrow> u64 \<Rightarrow> u64" where
  "mem64 m p \<equiv> le64 (load_bytes m (unat p) 8)"

record dmi =
  dmi_vendor :: bytes
  dmi_product :: bytes

definition dmi_boot :: dmi where
  "dmi_boot = \<lparr>dmi_vendor = replicate 64 0, dmi_product = replicate 96 0\<rparr>"

definition smbios_vendor :: "dmi \<Rightarrow> bytes" where
  "smbios_vendor s = dmi_vendor s"

definition smbios_product :: "dmi \<Rightarrow> bytes" where
  "smbios_product s = dmi_product s"

partial_function (option) string_end :: "memory \<Rightarrow> u64 \<Rightarrow> u64 option" where
  "string_end m p = (if mem8 m p = 0 then Some p else string_end m (p + 1))"

fun copy_chars :: "memory \<Rightarrow> u64 \<Rightarrow> nat \<Rightarrow> bytes" where
  "copy_chars m p 0 = []"
| "copy_chars m p (Suc room) = (if mem8 m p = 0 then [] else mem8 m p # copy_chars m (p + 1) room)"

text \<open>\<open>k\<close> strings are still to be skipped.\<close>

fun find_string :: "memory \<Rightarrow> nat \<Rightarrow> u64 \<Rightarrow> bytes \<Rightarrow> bytes option" where
  "find_string m k p dst =
     (if mem8 m p = 0 then Some dst
      else case k of
        0 \<Rightarrow> Some (upd dst 0 (copy_chars m p (length dst - 1) @ [0]))
      | Suc k \<Rightarrow> do { q \<leftarrow> string_end m p; find_string m k (q + 1) dst })"

definition copy_string :: "memory \<Rightarrow> u64 \<Rightarrow> u8 \<Rightarrow> bytes \<Rightarrow> bytes option" where
  "copy_string m p n dst =
     (let dst = upd dst 0 [0] in if n = 0 then Some dst else find_string m (unat n - 1) p dst)"

definition parse_type1 :: "memory \<Rightarrow> u64 \<Rightarrow> u8 \<Rightarrow> dmi \<Rightarrow> (bool \<times> dmi) option" where
  "parse_type1 m base len s =
     (if len < 27 \<or> mem8 m (base + 4) \<noteq> 1 then Some (False, s)
      else do {
        let strings = base + ucast (mem8 m (base + 2));
        v \<leftarrow> copy_string m strings (mem8 m (base + 8)) (dmi_vendor s);
        p \<leftarrow> copy_string m strings (mem8 m (base + 9)) (dmi_product s);
        Some (True, s\<lparr>dmi_vendor := v, dmi_product := p\<rparr>) })"

partial_function (option) double_nul :: "memory \<Rightarrow> u64 \<Rightarrow> u64 option" where
  "double_nul m p = (if mem8 m p = 0 \<and> mem8 m (p + 1) = 0 then Some p else double_nul m (p + 1))"

fun walk_smbios2 :: "memory \<Rightarrow> nat \<Rightarrow> u64 \<Rightarrow> dmi \<Rightarrow> (bool \<times> dmi) option" where
  "walk_smbios2 m 0 p s = Some (False, s)"
| "walk_smbios2 m (Suc n) p s =
     (if mem8 m (p + 1) = 5 \<or> mem8 m (p + 1) = 127 then Some (False, s)
      else do {
        let len = mem8 m (p + 1);
        (ok, s) \<leftarrow> (if mem8 m p = 1 then parse_type1 m p len s else Some (False, s));
        if ok then Some (True, s)
        else do { q \<leftarrow> double_nul m (p + ucast len); walk_smbios2 m n (q + 2) s } })"

definition parse_smbios2 :: "memory \<Rightarrow> u64 \<Rightarrow> dmi \<Rightarrow> (bool \<times> dmi) option" where
  "parse_smbios2 m anchor s =
     (let table = mem32 m (anchor + 0x18); nstructs = mem16 m (anchor + 0x16) in
      if table = 0 \<or> nstructs = 0 then Some (False, s) else walk_smbios2 m (unat nstructs) (ucast table) s)"

text \<open>The remaining length is a \<open>u32\<close> that may wrap past 0, so the walk need not end.\<close>

partial_function (option) walk_smbios3 :: "memory \<Rightarrow> u64 \<Rightarrow> u32 \<Rightarrow> dmi \<Rightarrow> (bool \<times> dmi) option" where
  "walk_smbios3 m p left s =
     (if left > 4 \<and> mem8 m (p + 1) \<noteq> 127 then do {
        let len = mem8 m (p + 1);
        (ok, s) \<leftarrow> (if mem8 m p = 1 then parse_type1 m p len s else Some (False, s));
        if ok then Some (True, s)
        else do { q \<leftarrow> double_nul m (p + ucast len); walk_smbios3 m (q + 2) (left - ucast len - 2) s } }
      else Some (False, s))"

definition parse_smbios3 :: "memory \<Rightarrow> u64 \<Rightarrow> dmi \<Rightarrow> (bool \<times> dmi) option" where
  "parse_smbios3 m anchor s =
     (let addr = mem64 m (anchor + 0x30); maxlen = mem32 m (anchor + 0x28) in
      if addr = 0 \<or> addr \<ge> 0x100000000 \<or> maxlen = 0 then Some (False, s) else walk_smbios3 m addr maxlen s)"

text \<open>A candidate address; the first result tells whether the search is over.\<close>

definition try_anchor :: "memory \<Rightarrow> u64 \<Rightarrow> dmi \<Rightarrow> (bool \<times> dmi) option" where
  "try_anchor m p s =
     (if mem8 m p \<noteq> 0x5F \<or> mem8 m (p + 1) \<noteq> 0x53 \<or> mem8 m (p + 2) \<noteq> 0x4D then Some (False, s)
      else do {
        r2 \<leftarrow> k_strncmp (load_bytes m (unat p) 4) (cstring ''_SM_'') 4;
        (ok, s) \<leftarrow> (if r2 = 0 then parse_smbios2 m p s else Some (False, s));
        if ok then Some (True, s)
        else do {
          r3 \<leftarrow> k_strncmp (load_bytes m (unat p) 5) (cstring ''_SM3_'') 5;
          if r3 = 0 then parse_smbios3 m p s else Some (False, s) } })"

fun scan_anchors :: "memory \<Rightarrow> u64 list \<Rightarrow> dmi \<Rightarrow> (bool \<times> dmi) option" where
  "scan_anchors m [] s = Some (False, s)"
| "scan_anchors m (p # ps) s = do {
     (ok, s) \<leftarrow> try_anchor m p s;
     if ok then Some (True, s) else scan_anchors m ps s }"

definition smbios_init :: "memory \<Rightarrow> dmi \<Rightarrow> (bool \<times> dmi) option" where
  "smbios_init m s = scan_anchors m (map (\<lambda>i. 0xF0000 + 16 * of_nat i) [0..<4096])
     (s\<lparr>dmi_vendor := upd (dmi_vendor s) 0 [0], dmi_product := upd (dmi_product s) 0 [0]\<rparr>)"

section \<open>CMOS\<close>

definition cmos_read :: "'d ports \<Rightarrow> u8 \<Rightarrow> 'd \<Rightarrow> u8 \<times> 'd" where
  "cmos_read io reg hw = inb io 0x71 (io_wait io (outb io 0x70 (reg OR 0x80) hw))"

definition cmos_write :: "'d ports \<Rightarrow> u8 \<Rightarrow> u8 \<Rightarrow> 'd \<Rightarrow> 'd" where
  "cmos_write io reg v hw =
     io_wait io (outb io 0x71 v (io_wait io (outb io 0x70 ((reg AND 0x7F) OR 0x80) hw)))"

text \<open>The flag, the code when it is set, and the hardware; both callers pass a pointer for the code.\<close>

definition cmos_last_boot_panicked :: "'d ports \<Rightarrow> 'd \<Rightarrow> u8 option \<times> 'd" where
  "cmos_last_boot_panicked io hw =
     (let (m, hw) = cmos_read io 0x3A hw in
      if m \<noteq> 0x4F then (None, hw)
      else let (code, hw) = cmos_read io 0x3B hw in (Some code, hw))"

definition cmos_clear_panic_flag :: "'d ports \<Rightarrow> 'd \<Rightarrow> 'd" where
  "cmos_clear_panic_flag io hw = cmos_write io 0x3B 0 (cmos_write io 0x3A 0 hw)"

text \<open>A CMOS chip: the address port holds an index, with the NMI mask in its top bit, and the data port
  reads and writes the byte there; port 0x80 is none of its business.\<close>

definition cmos_chip :: "'d ports \<Rightarrow> ('d \<Rightarrow> u8) \<Rightarrow> ('d \<Rightarrow> u8 \<Rightarrow> u8) \<Rightarrow> bool" where
  "cmos_chip io index nv \<longleftrightarrow> (\<forall>hw v.
     index (outb io 0x70 v hw) = v AND 0x7F \<and> nv (outb io 0x70 v hw) = nv hw \<and>
     nv (outb io 0x71 v hw) = (nv hw)(index hw := v) \<and>
     nv (outb io 0x80 v hw) = nv hw \<and> index (outb io 0x80 v hw) = index hw \<and>
     fst (inb io 0x71 hw) = nv hw (index hw) \<and> nv (snd (inb io 0x71 hw)) = nv hw)"

lemma cmos_chip_read:
  assumes "cmos_chip io index nv" and "(reg OR 0x80) AND 0x7F = reg"
  shows "fst (cmos_read io reg hw) = nv hw reg \<and> nv (snd (cmos_read io reg hw)) = nv hw"
  using assms by (simp add: cmos_chip_def cmos_read_def io_wait_def)

lemma cmos_chip_write:
  assumes "cmos_chip io index nv" and "((reg AND 0x7F) OR 0x80) AND 0x7F = reg"
  shows "nv (cmos_write io reg v hw) = (nv hw)(reg := v)"
  using assms by (simp add: cmos_chip_def cmos_write_def io_wait_def)

lemma cmos_last_boot_chip:
  assumes "cmos_chip io index nv"
  shows "fst (cmos_last_boot_panicked io hw) = (if nv hw 0x3A = 0x4F then Some (nv hw 0x3B) else None)"
  using cmos_chip_read [OF assms, of "0x3A" hw] cmos_chip_read [OF assms, of "0x3B" "snd (cmos_read io 0x3A hw)"]
  by (auto simp: cmos_last_boot_panicked_def case_prod_beta Let_def)

section \<open>ACPI\<close>

text \<open>\<open>struct acpi_rsdp\<close> as the 33 bytes of the structure.\<close>

record acpi_fadt =
  fa_valid :: bool
  sci_int :: u16
  smi_cmd_port :: u32
  acpi_enable_val :: u8
  acpi_disable_val :: u8
  pm1a_cnt_port :: u32
  dsdt_addr :: u32
  dsdt_oem_table :: bytes

record acpi =
  found_rsdp :: bytes
  have_rsdp :: bool
  fadt :: acpi_fadt
  acpi_ready :: bool
  acpi_log :: messages

definition checksum_ok :: "bytes \<Rightarrow> u32 \<Rightarrow> bool option" where
  "checksum_ok p len = do { xs \<leftarrow> slice p 0 (unat len); Some (sum_list xs = 0) }"

definition validate_rsdp :: "bytes \<Rightarrow> bool option" where
  "validate_rsdp r = do {
     c \<leftarrow> k_strncmp r (cstring ''RSD PTR '') 8;
     if c \<noteq> 0 then Some False
     else do {
       ok \<leftarrow> checksum_ok r 20;
       if \<not> ok then Some False
       else if rd8 r 15 \<ge> 2 then checksum_ok r (rd32 r 20)
       else Some True } }"

fun try_rsdp :: "memory \<Rightarrow> u64 list \<Rightarrow> acpi \<Rightarrow> (bool \<times> acpi) option" where
  "try_rsdp m [] s = Some (False, s)"
| "try_rsdp m (p # ps) s = do {
     let r = load_bytes m (unat p) 33;
     ok \<leftarrow> validate_rsdp r;
     let s = s\<lparr>found_rsdp := r, have_rsdp := ok\<rparr>;
     if ok then Some (True, s) else try_rsdp m ps s }"

text \<open>The candidates: 62 in the first kilobyte of the extended BIOS data area, then every 16 bytes from
  0xE0000 on.\<close>

definition rsdp_candidates :: "memory \<Rightarrow> u64 list" where
  "rsdp_candidates m =
     map (\<lambda>i. push_bit 4 (ucast (mem16 m 0x40E)) + 16 * of_nat i) [0..<62] @ map (\<lambda>i. 0xE0000 + 16 * of_nat i) [0..<8190]"

definition acpi_find_rsdp :: "memory \<Rightarrow> acpi \<Rightarrow> (bool \<times> acpi) option" where
  "acpi_find_rsdp m s = try_rsdp m (rsdp_candidates m) s"

definition acpi_rsdp_get :: "acpi \<Rightarrow> bytes option" where
  "acpi_rsdp_get s = (if have_rsdp s then Some (found_rsdp s) else None)"

text \<open>The checksum of a table, which no caller uses, and the unused \<open>acpi_init\<close>, which reads a pointer from
  address 0.\<close>

definition header_ok :: "memory \<Rightarrow> u64 \<Rightarrow> bool" where
  "header_ok m h \<longleftrightarrow> sum_list (load_bytes m (unat h) (unat (mem32 m (h + 4)))) = 0"

definition acpi_init :: "acpi \<Rightarrow> acpi option" where
  "acpi_init s = None"

definition handle_table :: "memory \<Rightarrow> u64 \<Rightarrow> acpi \<Rightarrow> acpi" where
  "handle_table m h s =
     (if load_bytes m (unat h) 4 = map of_char ''FACP'' then
        let dsdt = mem32 m (h + 40) in
        s\<lparr>fadt := \<lparr>fa_valid = True, sci_int = mem16 m (h + 46), smi_cmd_port = mem32 m (h + 48),
            acpi_enable_val = mem8 m (h + 52), acpi_disable_val = mem8 m (h + 53), pm1a_cnt_port = mem32 m (h + 64),
            dsdt_addr = dsdt, dsdt_oem_table = load_bytes m (unat dsdt + 16) 8 @ [0]\<rparr>\<rparr>
      else s)"

text \<open>The number of entries of a table: the 36 bytes of the header are subtracted as \<open>size_t\<close>, the quotient
  is stored in a \<open>u32\<close>.\<close>

definition table_entries :: "memory \<Rightarrow> u64 \<Rightarrow> u64 \<Rightarrow> nat" where
  "table_entries m h w = unat (ucast ((ucast (mem32 m (h + 4)) - 36) div w) :: u32)"

definition acpi_walk_tables :: "memory \<Rightarrow> bytes option \<Rightarrow> acpi \<Rightarrow> acpi" where
  "acpi_walk_tables m rsdp s =
     (let s = s\<lparr>acpi_ready := False\<rparr> in
      case rsdp of
        None \<Rightarrow> s
      | Some r \<Rightarrow>
          let s = s\<lparr>acpi_log := acpi_log s @ [(''acpi RSDP rev %u oem '' @ [char_of (39 :: nat)] @ ''%s'' @ [char_of (39 :: nat)],
                [SNum (ucast (rd8 r 15)), str_arg (sub r 9 6 @ [0])])]\<rparr>;
              xsdt = le64 (sub r 24 8);
              s = (if rd8 r 15 \<ge> 2 \<and> xsdt \<noteq> 0 \<and> xsdt < 0x100000000 then
                     fold (\<lambda>i s. let e = mem64 m (xsdt + 36 + 8 * of_nat i) in
                             if e \<ge> 0x100000000 then s else handle_table m e s)
                       [0..<min (table_entries m xsdt 8) 32] s
                   else
                     let rsdt = ucast (rd32 r 16) in
                     fold (\<lambda>i s. let e = mem32 m (rsdt + 36 + 4 * of_nat i) in
                             if e = 0 then s else handle_table m (ucast e) s)
                       [0..<min (table_entries m rsdt 4) 32] s)
          in s\<lparr>acpi_ready := fa_valid (fadt s)\<rparr>)"

definition acpi_available :: "acpi \<Rightarrow> bool" where
  "acpi_available s = acpi_ready s"

section \<open>Finding the RSDP\<close>

lemma k_strncmp_prefix:
  "0 \<notin> set nd \<Longrightarrow> length nd \<le> length a \<Longrightarrow> \<exists>x. k_strncmp a (nd @ q) (length nd) = Some x \<and> (x = 0 \<longleftrightarrow> take (length nd) a = nd)"
proof (induction nd arbitrary: a)
  case (Cons c nd)
  then show ?case by (cases a) auto
qed simp

abbreviation rsdp_signature :: bytes where
  "rsdp_signature \<equiv> map of_char ''RSD PTR ''"

lemma signature_compared:
  assumes "length r = 33"
  shows "\<exists>x. k_strncmp r (cstring ''RSD PTR '') 8 = Some x \<and> (x = 0 \<longleftrightarrow> take 8 r = rsdp_signature)"
proof -
  have 8: "length rsdp_signature = 8" by simp
  show ?thesis using k_strncmp_prefix [of rsdp_signature r "[0]"] assms unfolding 8 cstring_def by simp
qed

lemma validate_rsdp_unsigned: "length r = 33 \<Longrightarrow> take 8 r \<noteq> rsdp_signature \<Longrightarrow> validate_rsdp r = Some False"
  using signature_compared [of r] by (auto simp: validate_rsdp_def)

lemma validate_rsdp_signed:
  "length r = 33 \<Longrightarrow> take 8 r = rsdp_signature \<Longrightarrow> sum_list (take 20 r) = 0 \<Longrightarrow>
    validate_rsdp r = (if rd8 r 15 \<ge> 2 then checksum_ok r (rd32 r 20) else Some True)"
  using signature_compared [of r] by (auto simp: validate_rsdp_def checksum_ok_def slice_def sub_def)

lemma try_rsdp_skip:
  "\<forall>q \<in> set ps. take 8 (load_bytes m (unat q) 33) \<noteq> rsdp_signature \<Longrightarrow> \<exists>s'. try_rsdp m (ps @ qs) s = try_rsdp m qs s'"
proof (induction ps arbitrary: s)
  case (Cons p ps)
  then have "validate_rsdp (load_bytes m (unat p) 33) = Some False" by (simp add: validate_rsdp_unsigned)
  with Cons show ?case by simp
qed auto


text \<open>An ACPI 2.0 pointer at 0xE0000 of an otherwise empty memory.\<close>

definition rsdp_sample :: bytes where
  "rsdp_sample = rsdp_signature @ [32] @ map of_char ''OBSIDN'' @ [2] @ bytes32 0 @ bytes32 36 @ replicate 12 0"

definition rsdp_memory :: memory where
  "rsdp_memory = store_bytes (\<lambda>_. 0) 0xE0000 rsdp_sample"

definition acpi_boot :: acpi where
  "acpi_boot = \<lparr>found_rsdp = replicate 33 0, have_rsdp = False, fadt = \<lparr>fa_valid = False, sci_int = 0, smi_cmd_port = 0,
     acpi_enable_val = 0, acpi_disable_val = 0, pm1a_cnt_port = 0, dsdt_addr = 0, dsdt_oem_table = replicate 9 0\<rparr>,
     acpi_ready = False, acpi_log = []\<rparr>"


end
