(* ===== verification/Platform.thy ===== *)
theory Platform
  imports Firmware
begin

text \<open>
  The laptop drivers: the embedded controller \<open>drivers/platform/x86/ec.c\<close>, the ThinkPad layer
  \<open>drivers/platform/x86/lenovo/thinkpad.c\<close> on it, and the registry for keyboard backlights
  \<open>drivers/platform/kbd_light.c\<close>. The controller behind its two ports is a parameter.
\<close>

section \<open>The embedded controller\<close>

definition EC_DATA :: u16 where "EC_DATA = 0x62"
definition EC_CMD :: u16 where "EC_CMD = 0x66"

fun wait_ibf_clear :: "nat \<Rightarrow> 'd ports \<Rightarrow> 'd \<Rightarrow> bool \<times> 'd" where
  "wait_ibf_clear 0 io hw = (False, hw)"
| "wait_ibf_clear (Suc n) io hw =
     (let (v, hw) = inb io EC_CMD hw in if v AND 0x02 = 0 then (True, hw) else wait_ibf_clear n io hw)"

fun wait_obf_set :: "nat \<Rightarrow> 'd ports \<Rightarrow> 'd \<Rightarrow> bool \<times> 'd" where
  "wait_obf_set 0 io hw = (False, hw)"
| "wait_obf_set (Suc n) io hw =
     (let (v, hw) = inb io EC_CMD hw in if v AND 0x01 \<noteq> 0 then (True, hw) else wait_obf_set n io hw)"

text \<open>A byte is sent once the input buffer is empty; \<open>False\<close> after 200000 attempts.\<close>

definition ec_put :: "'d ports \<Rightarrow> u16 \<Rightarrow> u8 \<Rightarrow> 'd \<Rightarrow> bool \<times> 'd" where
  "ec_put io port v hw =
     (let (ok, hw) = wait_ibf_clear 200000 io hw in
      if ok then (True, io_wait io (outb io port v hw)) else (False, hw))"

definition ec_read :: "'d ports \<Rightarrow> u8 \<Rightarrow> 'd \<Rightarrow> u8 option \<times> 'd" where
  "ec_read io reg hw =
     (let (ok, hw) = ec_put io EC_CMD 0x80 hw in
      if \<not> ok then (None, hw)
      else let (ok, hw) = ec_put io EC_DATA reg hw in
      if \<not> ok then (None, hw)
      else let (ok, hw) = wait_obf_set 200000 io hw in
      if \<not> ok then (None, hw)
      else let (v, hw) = inb io EC_DATA hw in (Some v, hw))"

definition ec_write :: "'d ports \<Rightarrow> u8 \<Rightarrow> u8 \<Rightarrow> 'd \<Rightarrow> bool \<times> 'd" where
  "ec_write io reg v hw =
     (let (ok, hw) = ec_put io EC_CMD 0x81 hw in
      if \<not> ok then (False, hw)
      else let (ok, hw) = ec_put io EC_DATA reg hw in
      if \<not> ok then (False, hw)
      else let (ok, hw) = ec_put io EC_DATA v hw in
      if \<not> ok then (False, hw)
      else
        let (_, hw) = wait_obf_set 200000 io hw;
            (_, hw) = inb io EC_DATA hw
        in (True, hw))"

definition ec_probe :: "'d ports \<Rightarrow> 'd \<Rightarrow> bool \<times> 'd" where
  "ec_probe io hw = (let (v, hw) = ec_read io 0x00 hw in (v \<noteq> None, hw))"

section \<open>ThinkPad\<close>

record 'd thinkpad =
  is_thinkpad :: bool
  ec_ok :: bool
  fanctl_enabled :: bool
  think_log :: messages
  tp_hw :: 'd

text \<open>What \<open>tp_battery_status\<close> stores in the caller's structure; it never writes the field \<open>percent\<close>.\<close>

record tp_battery =
  voltage_mv :: u16
  power_mw :: u32
  charging :: bool
  discharging :: bool
  bat_present :: bool

definition tp_get :: "'d ports \<Rightarrow> u8 \<Rightarrow> 'd thinkpad \<Rightarrow> u8 option \<times> 'd thinkpad" where
  "tp_get io reg t = (let (v, hw) = ec_read io reg (tp_hw t) in (v, t\<lparr>tp_hw := hw\<rparr>))"

definition tp_fan_rpm :: "'d ports \<Rightarrow> 'd thinkpad \<Rightarrow> u32 \<times> 'd thinkpad" where
  "tp_fan_rpm io t =
     (if \<not> is_thinkpad t \<or> \<not> ec_ok t then (0, t)
      else case tp_get io 0x84 t of
        (None, t) \<Rightarrow> (0, t)
      | (Some lo, t) \<Rightarrow> (case tp_get io 0x85 t of
          (None, t) \<Rightarrow> (0, t)
        | (Some hi, t) \<Rightarrow>
            let rpm = (if lo \<noteq> 0 then 491520 div ucast lo else 0)
            in (if rpm > 500 \<and> rpm < 12000 then rpm else 0, t)))"

definition tp_cpu_temp_c :: "'d ports \<Rightarrow> 'd thinkpad \<Rightarrow> int \<times> 'd thinkpad" where
  "tp_cpu_temp_c io t =
     (if \<not> is_thinkpad t \<or> \<not> ec_ok t then (-1, t)
      else case tp_get io 0x78 t of
        (None, t) \<Rightarrow> (-1, t)
      | (Some raw, t) \<Rightarrow> (if raw < 10 \<or> raw > 110 then -1 else uint raw, t))"

text \<open>Registers are read in order until a read fails.\<close>

fun tp_get_all :: "'d ports \<Rightarrow> u8 list \<Rightarrow> 'd thinkpad \<Rightarrow> u8 list option \<times> 'd thinkpad" where
  "tp_get_all io [] t = (Some [], t)"
| "tp_get_all io (r # rs) t =
     (case tp_get io r t of
        (None, t) \<Rightarrow> (None, t)
      | (Some v, t) \<Rightarrow> (case tp_get_all io rs t of (None, t) \<Rightarrow> (None, t) | (Some vs, t) \<Rightarrow> (Some (v # vs), t)))"

definition tp_battery_status :: "'d ports \<Rightarrow> int \<Rightarrow> 'd thinkpad \<Rightarrow> tp_battery option \<times> 'd thinkpad" where
  "tp_battery_status io index t =
     (if \<not> is_thinkpad t \<or> \<not> ec_ok t then (None, t)
      else
        let base = (if index = 1 then 0xD0 else 0xC0) in
        case tp_get_all io [base + 0x02, base + 0x08, base + 0x09, base + 0x0A, base + 0x0B] t of
          (Some [status, v_hi, v_lo, p_hi, p_lo], t) \<Rightarrow>
            let mv = (push_bit 8 (ucast v_hi) OR ucast v_lo :: u32);
                mw = (push_bit 8 (ucast p_hi) OR ucast p_lo :: u32) div 100
            in if mv < 5000 \<or> mv > 20000 then (None, t)
            else (Some \<lparr>voltage_mv = ucast mv, power_mw = (if mw < 150000 then mw else 0), charging = (status AND 0x02 \<noteq> 0),
                    discharging = (status AND 0x01 \<noteq> 0), bat_present = (status \<noteq> 0)\<rparr>, t)
        | (_, t) \<Rightarrow> (None, t))"

definition tp_fan_set_level :: "'d ports \<Rightarrow> u8 \<Rightarrow> 'd thinkpad \<Rightarrow> bool \<times> 'd thinkpad" where
  "tp_fan_set_level io level t =
     (if \<not> is_thinkpad t \<or> \<not> ec_ok t then (False, t)
      else if \<not> fanctl_enabled t \<or> level > 7 then (False, t)
      else let (ok, hw) = ec_write io 0x2F (level OR 0x40) (tp_hw t) in (ok, t\<lparr>tp_hw := hw\<rparr>))"

definition tp_model_string :: "dmi \<Rightarrow> bytes" where
  "tp_model_string d = smbios_product d"

definition thinkpad_init :: "'d ports \<Rightarrow> bool \<Rightarrow> dmi \<Rightarrow> 'd thinkpad \<Rightarrow> 'd thinkpad option" where
  "thinkpad_init io allow_fan_control d t = do {
     let t = t\<lparr>is_thinkpad := False, ec_ok := False, fanctl_enabled := allow_fan_control\<rparr>;
     let vendor = smbios_vendor d;
     let product = smbios_product d;
     a \<leftarrow> k_strstr vendor (cstring ''LENOVO'');
     b \<leftarrow> (if a = None then k_strstr vendor (cstring ''IBM'') else Some a);
     c \<leftarrow> (if b = None then k_strstr product (cstring ''ThinkPad'') else Some b);
     if c = None then Some t
     else do {
       let (ok, hw) = ec_probe io (tp_hw t);
       let t = t\<lparr>is_thinkpad := True, ec_ok := ok, tp_hw := hw,
                 think_log := think_log t @ [(''platform ThinkPad detected (%s), ec %s'',
                   [str_arg product, str_arg (cstring (if ok then ''online'' else ''absent''))])]\<rparr>;
       if ok then do {
         let (temp, t) = tp_cpu_temp_c io t;
         Some (if temp \<ge> 0 then t\<lparr>think_log := think_log t @ [(''platform cpu temp %d C'', [SNum (word_of_int temp)])]\<rparr> else t) }
       else Some t } }"

section \<open>Keyboard backlight\<close>

text \<open>A backend is a set of function pointers; \<open>vendor\<close> may be null.\<close>

record 'd kbd_light_backend =
  kl_vendor :: "string option"
  kl_probe :: "('d \<Rightarrow> bool \<times> 'd) option"
  kl_set_level :: "(u8 \<Rightarrow> 'd \<Rightarrow> int \<times> 'd) option"
  kl_get_level :: "('d \<Rightarrow> int \<times> u8 \<times> 'd) option"
  kl_max_level :: u8

record 'd kbd_light =
  kl_active :: "'d kbd_light_backend option"
  kl_log :: messages
  kl_hw :: 'd

definition kbd_light_register :: "'d kbd_light_backend option \<Rightarrow> 'd kbd_light \<Rightarrow> bool \<times> 'd kbd_light" where
  "kbd_light_register be s = (case be of
     None \<Rightarrow> (False, s)
   | Some b \<Rightarrow> (case (kl_probe b, kl_set_level b) of
       (Some probe, Some _) \<Rightarrow>
         if kl_active s \<noteq> None then (False, s)
         else
           let (ok, hw) = probe (kl_hw s); s = s\<lparr>kl_hw := hw\<rparr> in
           if \<not> ok then (False, s)
           else (True, s\<lparr>kl_active := Some b, kl_log := kl_log s @ [(''input keyboard backlight via %s (max %u)'',
                  [str_arg (cstring (case kl_vendor b of Some v \<Rightarrow> v | None \<Rightarrow> ''vendor'')), SNum (ucast (kl_max_level b))])]\<rparr>)
     | _ \<Rightarrow> (False, s)))"

definition kbd_light_present :: "'d kbd_light \<Rightarrow> bool" where
  "kbd_light_present s \<longleftrightarrow> kl_active s \<noteq> None"

definition kbd_light_max :: "'d kbd_light \<Rightarrow> u8" where
  "kbd_light_max s = (case kl_active s of Some b \<Rightarrow> kl_max_level b | None \<Rightarrow> 0)"

definition kbd_light_set :: "u8 \<Rightarrow> 'd kbd_light \<Rightarrow> (int \<times> 'd kbd_light) option" where
  "kbd_light_set level s = (case kl_active s of
     None \<Rightarrow> Some (-1, s)
   | Some b \<Rightarrow>
       if level > kl_max_level b then Some (-1, s)
       else do { f \<leftarrow> kl_set_level b; let (rc, hw) = f level (kl_hw s); Some (rc, s\<lparr>kl_hw := hw\<rparr>) })"

definition kbd_light_get :: "'d kbd_light \<Rightarrow> int \<times> 'd kbd_light" where
  "kbd_light_get s = (case kl_active s of
     None \<Rightarrow> (-1, s)
   | Some b \<Rightarrow> (case kl_get_level b of
       None \<Rightarrow> (-1, s)
     | Some f \<Rightarrow> let (rc, lvl, hw) = f (kl_hw s) in (if rc \<noteq> 0 then -1 else uint lvl, s\<lparr>kl_hw := hw\<rparr>)))"

section \<open>Plausible readings\<close>

lemma length_tp_get_all: "tp_get_all io rs t = (Some vs, t') \<Longrightarrow> length vs = length rs"
  by (induction rs arbitrary: t vs t') (auto split: prod.splits option.splits)

declare tp_get_all.simps [simp del]

text \<open>C37: Whatever the embedded controller answers, the readings reported are plausible: a fan speed is 0 or
  between 500 and 12000, a temperature is -1 or between 10 and 110 degrees, a battery has between 5 and 20
  volts and less than 150 watts. Unless the fan was opened on the command line and the level is at most 7,
  a request for a fan level is refused without any access to the controller.\<close>

theorem thinkpad_readings_plausible:
  "(fst (tp_fan_rpm io t) = 0 \<or> 500 < fst (tp_fan_rpm io t) \<and> fst (tp_fan_rpm io t) < 12000) \<and>
   (fst (tp_cpu_temp_c io t) = -1 \<or> 10 \<le> fst (tp_cpu_temp_c io t) \<and> fst (tp_cpu_temp_c io t) \<le> 110) \<and>
   (fst (tp_battery_status io i t) = Some b \<longrightarrow> 5000 \<le> voltage_mv b \<and> voltage_mv b \<le> 20000 \<and> power_mw b < 150000) \<and>
   (\<not> fanctl_enabled t \<or> 7 < level \<longrightarrow> tp_fan_set_level io level t = (False, t))"
proof (intro conjI)
  show "fst (tp_fan_rpm io t) = 0 \<or> 500 < fst (tp_fan_rpm io t) \<and> fst (tp_fan_rpm io t) < 12000"
    by (simp add: tp_fan_rpm_def Let_def split: prod.splits option.splits)
  show "fst (tp_cpu_temp_c io t) = -1 \<or> 10 \<le> fst (tp_cpu_temp_c io t) \<and> fst (tp_cpu_temp_c io t) \<le> 110"
    by (auto simp: tp_cpu_temp_c_def word_less_def not_less split: prod.splits option.splits)
  show "\<not> fanctl_enabled t \<or> 7 < level \<longrightarrow> tp_fan_set_level io level t = (False, t)"
    by (simp add: tp_fan_set_level_def)
  have mv: "5000 \<le> (ucast mv :: u16) \<and> (ucast mv :: u16) \<le> 20000" if "\<not> mv < 5000" "\<not> mv > 20000" for mv :: u32
    using that by (simp add: word_less_nat_alt word_le_nat_alt unat_ucast_down)
  show "fst (tp_battery_status io i t) = Some b \<longrightarrow> 5000 \<le> voltage_mv b \<and> voltage_mv b \<le> 20000 \<and> power_mw b < 150000"
  proof
    assume b: "fst (tp_battery_status io i t) = Some b"
    define base :: u8 where "base = (if i = 1 then 0xD0 else 0xC0)"
    obtain r t' where r: "tp_get_all io [base + 0x02, base + 0x08, base + 0x09, base + 0x0A, base + 0x0B] t = (r, t')" by fastforce
    have "r \<noteq> None" using b r by (cases r) (auto simp: tp_battery_status_def base_def Let_def split: if_splits)
    then have "\<exists>vs. r = Some vs \<and> length vs = 5" using r by (auto dest!: length_tp_get_all)
    then obtain st v1 v2 p1 p2 where "r = Some [st, v1, v2, p1, p2]" by (auto simp: numeral_eq_Suc length_Suc_conv)
    then show "5000 \<le> voltage_mv b \<and> voltage_mv b \<le> 20000 \<and> power_mw b < 150000"
      using b r mv [of "push_bit 8 (ucast v1) OR ucast v2"] by (auto simp: tp_battery_status_def base_def Let_def split: if_splits)
  qed
qed

theorem thinkpad_readings_plausible_witness:
  "\<not> fanctl_enabled \<lparr>is_thinkpad = True, ec_ok = True, fanctl_enabled = False, think_log = [], tp_hw = ()\<rparr> \<and>
   tp_fan_set_level floating_bus 3 \<lparr>is_thinkpad = True, ec_ok = True, fanctl_enabled = False, think_log = [], tp_hw = ()\<rparr> =
     (False, \<lparr>is_thinkpad = True, ec_ok = True, fanctl_enabled = False, think_log = [], tp_hw = ()\<rparr>)"
  using thinkpad_readings_plausible [of floating_bus "\<lparr>is_thinkpad = True, ec_ok = True, fanctl_enabled = False, think_log = [], tp_hw = ()\<rparr>" _ _ 3] by simp

end
