(* ===== verification/Console.thy ===== *)
theory Console
  imports Ports Kstring
begin

text \<open>
  The console \<open>drivers/gpu/console.c\<close> and its first display, VGA text (\<open>drivers/gpu/vga_text.c\<close>). A display is a record of operations on a state of type \<open>'d\<close>;
  the console keeps the cursor and the attribute. What the console needs of a display is a locale, in
  which the text on the screen is characterised once; VGA text is an instance.
\<close>

section \<open>The console\<close>

definition CON_NORMAL :: u8 where "CON_NORMAL = 0x0F"

record 'd console_ops =
  co_cols :: int
  co_rows :: int
  co_clear :: "('d \<Rightarrow> 'd option) option"
  co_putc_at :: "int \<Rightarrow> int \<Rightarrow> u8 \<Rightarrow> u8 \<Rightarrow> 'd \<Rightarrow> 'd option"
  co_scroll :: "(int \<Rightarrow> 'd \<Rightarrow> 'd option) option"

text \<open>\<open>fallback\<close> is what the architecture does with a character while no display is installed: the weak
  default drops it, the ARM port sends it to its serial line.\<close>

record 'd console =
  con :: "'d console_ops option"
  con_col :: int
  con_row :: int
  con_attr :: u8
  fallback :: "u8 \<Rightarrow> 'd \<Rightarrow> 'd option"
  display :: 'd

definition console_boot :: "'d \<Rightarrow> 'd console" where
  "console_boot d = \<lparr>con = None, con_col = 0, con_row = 0, con_attr = CON_NORMAL, fallback = \<lambda>c d. Some d, display = d\<rparr>"

definition try_clear :: "'d console_ops \<Rightarrow> 'd \<Rightarrow> 'd option" where
  "try_clear ops d = (case co_clear ops of None \<Rightarrow> Some d | Some f \<Rightarrow> f d)"

definition console_clear :: "'d console \<Rightarrow> 'd console option" where
  "console_clear s = do {
     let s = s\<lparr>con_col := 0, con_row := 0\<rparr>;
     case con s of None \<Rightarrow> Some s | Some ops \<Rightarrow> do { d \<leftarrow> try_clear ops (display s); Some (s\<lparr>display := d\<rparr>) } }"

definition console_install :: "'d console_ops option \<Rightarrow> 'd console \<Rightarrow> 'd console option" where
  "console_install ops s = do {
     let s = s\<lparr>con := ops, con_col := 0, con_row := 0\<rparr>;
     case ops of None \<Rightarrow> Some s | Some o' \<Rightarrow> do { d \<leftarrow> try_clear o' (display s); Some (s\<lparr>display := d\<rparr>) } }"

definition console_set_attr :: "u8 \<Rightarrow> 'd console \<Rightarrow> 'd console" where
  "console_set_attr a s = s\<lparr>con_attr := a\<rparr>"

definition console_get_attr :: "'d console \<Rightarrow> u8" where
  "console_get_attr s = con_attr s"

definition put_here :: "'d console_ops \<Rightarrow> u8 \<Rightarrow> 'd console \<Rightarrow> 'd console option" where
  "put_here ops c s = do {
     d \<leftarrow> co_putc_at ops (con_col s) (con_row s) c (con_attr s) (display s);
     Some (s\<lparr>display := d\<rparr>) }"

text \<open>The scroll at the end of \<open>console_putc\<close>.\<close>

definition keep_on_screen :: "'d console_ops \<Rightarrow> 'd console \<Rightarrow> 'd console option" where
  "keep_on_screen ops s =
     (if con_row s \<ge> co_rows ops then do {
        d \<leftarrow> (case co_scroll ops of
                Some f \<Rightarrow> f (con_row s - co_rows ops + 1) (display s)
              | None \<Rightarrow> try_clear ops (display s));
        Some (s\<lparr>display := d, con_row := co_rows ops - 1\<rparr>) }
      else Some s)"

definition console_putc :: "u8 \<Rightarrow> 'd console \<Rightarrow> 'd console option" where
  "console_putc c s = (case con s of
     None \<Rightarrow> do { d \<leftarrow> fallback s c (display s); Some (s\<lparr>display := d\<rparr>) }
   | Some ops \<Rightarrow> do {
       s \<leftarrow> (if c = 10 then do { chk (int_ok (con_row s + 1)); Some (s\<lparr>con_col := 0, con_row := con_row s + 1\<rparr>) }
             else if c = 13 then Some (s\<lparr>con_col := 0\<rparr>)
             else if c = 8 then
               if con_col s > 0 then put_here ops 0x20 (s\<lparr>con_col := con_col s - 1\<rparr>) else Some s
             else do {
               s \<leftarrow> put_here ops c s;
               chk (int_ok (con_col s + 1));
               Some (s\<lparr>con_col := con_col s + 1\<rparr>) });
       keep_on_screen ops s })"

fun console_print :: "bytes \<Rightarrow> 'd console \<Rightarrow> 'd console option" where
  "console_print [] s = None"
| "console_print (c # cs) s = (if c = 0 then Some s else do { s \<leftarrow> console_putc c s; console_print cs s })"

definition console_print_c :: "bytes \<Rightarrow> u8 \<Rightarrow> 'd console \<Rightarrow> 'd console option" where
  "console_print_c str a s = do {
     let old = con_attr s;
     s \<leftarrow> console_print str (s\<lparr>con_attr := a\<rparr>);
     Some (s\<lparr>con_attr := old\<rparr>) }"

section \<open>VGA text\<close>

definition VGA_COLS :: int where "VGA_COLS = 80"
definition VGA_ROWS :: int where "VGA_ROWS = 25"

record 'd vga =
  vt :: "u16 list"
  vga_hw :: 'd

definition vt_cell :: "u8 \<Rightarrow> u8 \<Rightarrow> u16" where
  "vt_cell c a = ucast c OR push_bit 8 (ucast a)"

definition vt_blank :: u16 where
  "vt_blank = vt_cell 0x20 CON_NORMAL"

definition vt_clear :: "'d vga \<Rightarrow> 'd vga option" where
  "vt_clear v = do { cells \<leftarrow> splice (vt v) 0 (replicate (nat (VGA_COLS * VGA_ROWS)) vt_blank); Some (v\<lparr>vt := cells\<rparr>) }"

definition copy_row :: "int \<Rightarrow> int \<Rightarrow> u16 list \<Rightarrow> u16 list option" where
  "copy_row lines r cells = do {
     chk (0 \<le> (r - lines) * VGA_COLS);
     row \<leftarrow> slice cells (nat (r * VGA_COLS)) (nat VGA_COLS);
     splice cells (nat ((r - lines) * VGA_COLS)) row }"

definition blank_row :: "int \<Rightarrow> u16 list \<Rightarrow> u16 list option" where
  "blank_row r cells = do {
     chk (0 \<le> r * VGA_COLS);
     splice cells (nat (r * VGA_COLS)) (replicate (nat VGA_COLS) vt_blank) }"

definition vt_scroll :: "int \<Rightarrow> 'd vga \<Rightarrow> 'd vga option" where
  "vt_scroll lines v = do {
     cells \<leftarrow> ofold (copy_row lines) [lines..VGA_ROWS - 1] (vt v);
     cells \<leftarrow> ofold blank_row [VGA_ROWS - lines..VGA_ROWS - 1] cells;
     Some (v\<lparr>vt := cells\<rparr>) }"

definition vt_putc_at :: "'d ports \<Rightarrow> int \<Rightarrow> int \<Rightarrow> u8 \<Rightarrow> u8 \<Rightarrow> 'd vga \<Rightarrow> 'd vga option" where
  "vt_putc_at io col row c attr v =
     (if col < 0 \<or> col \<ge> VGA_COLS \<or> row < 0 \<or> row \<ge> VGA_ROWS then Some v
      else do {
        let i = row * VGA_COLS + col;
        cells \<leftarrow> splice (vt v) (nat i) [vt_cell c attr];
        let pos = (of_int i :: u16);
        let hw = outb io 0x3D5 (ucast (pos AND 0xFF)) (outb io 0x3D4 0x0F (vga_hw v));
        let hw = outb io 0x3D5 (ucast (drop_bit 8 pos AND 0xFF)) (outb io 0x3D4 0x0E hw);
        Some (v\<lparr>vt := cells, vga_hw := hw\<rparr>) })"

definition vga_text_ops :: "'d ports \<Rightarrow> 'd vga console_ops" where
  "vga_text_ops io = \<lparr>co_cols = VGA_COLS, co_rows = VGA_ROWS, co_clear = Some vt_clear, co_putc_at = vt_putc_at io,
     co_scroll = Some vt_scroll\<rparr>"

definition console_init :: "'d ports \<Rightarrow> 'd vga console \<Rightarrow> 'd vga console option" where
  "console_init io s = console_install (Some (vga_text_ops io)) s"

section \<open>What the console needs of a display\<close>

text \<open>A display has a grid of cells; a character outside the grid has no effect, a scroll moves every
  line up by one and blanks the last.\<close>

locale text_display =
  fixes ops :: "'d console_ops" and ok :: "'d \<Rightarrow> bool" and cell :: "'d \<Rightarrow> int \<Rightarrow> int \<Rightarrow> 'c"
    and glyph :: "u8 \<Rightarrow> u8 \<Rightarrow> 'c" and blank :: 'c
  assumes rows_pos: "1 < co_rows ops" "co_rows ops < 2 ^ 31"
    and clear_law: "ok d \<Longrightarrow> \<exists>d'. try_clear ops d = Some d' \<and> ok d' \<and>
      (\<forall>c r. 0 \<le> c \<longrightarrow> c < co_cols ops \<longrightarrow> 0 \<le> r \<longrightarrow> r < co_rows ops \<longrightarrow> cell d' c r = blank)"
    and put_law: "ok d \<Longrightarrow> 0 \<le> col \<Longrightarrow> 0 \<le> row \<Longrightarrow> row < co_rows ops \<Longrightarrow>
      \<exists>d'. co_putc_at ops col row ch a d = Some d' \<and> ok d' \<and>
        (\<forall>c r. 0 \<le> c \<longrightarrow> c < co_cols ops \<longrightarrow> 0 \<le> r \<longrightarrow> r < co_rows ops \<longrightarrow>
          cell d' c r = (if c = col \<and> r = row then glyph ch a else cell d c r))"
    and scroll_law: "ok d \<Longrightarrow> \<exists>f d'. co_scroll ops = Some f \<and> f 1 d = Some d' \<and> ok d' \<and>
      (\<forall>c r. 0 \<le> c \<longrightarrow> c < co_cols ops \<longrightarrow> 0 \<le> r \<longrightarrow> r < co_rows ops \<longrightarrow>
        cell d' c r = (if r = co_rows ops - 1 then blank else cell d c (r + 1)))"
begin

definition con_ok :: "'d console \<Rightarrow> bool" where
  "con_ok s \<longleftrightarrow> con s = Some ops \<and> ok (display s) \<and> 0 \<le> con_col s \<and> 0 \<le> con_row s \<and> con_row s < co_rows ops"

abbreviation shows_on :: "'d console \<Rightarrow> (int \<Rightarrow> int \<Rightarrow> 'c) \<Rightarrow> bool" where
  "shows_on s f \<equiv> \<forall>c r. 0 \<le> c \<longrightarrow> c < co_cols ops \<longrightarrow> 0 \<le> r \<longrightarrow> r < co_rows ops \<longrightarrow> cell (display s) c r = f c r"

lemma putc_text:
  assumes s: "con_ok s" and c: "c \<noteq> 8" "c \<noteq> 10" "c \<noteq> 13" and col: "con_col s < 2 ^ 31 - 1"
  shows "\<exists>s'. console_putc c s = Some s' \<and> con_ok s' \<and> con_col s' = con_col s + 1 \<and> con_row s' = con_row s \<and>
    con_attr s' = con_attr s \<and>
    shows_on s' (\<lambda>x y. if x = con_col s \<and> y = con_row s then glyph c (con_attr s) else cell (display s) x y)"
proof -
  obtain d where d: "co_putc_at ops (con_col s) (con_row s) c (con_attr s) (display s) = Some d" "ok d"
    "\<forall>x y. 0 \<le> x \<longrightarrow> x < co_cols ops \<longrightarrow> 0 \<le> y \<longrightarrow> y < co_rows ops \<longrightarrow>
      cell d x y = (if x = con_col s \<and> y = con_row s then glyph c (con_attr s) else cell (display s) x y)"
    using put_law [of "display s" "con_col s" "con_row s" c "con_attr s"] s by (auto simp: con_ok_def)
  have "int_ok (con_col s + 1)" using col s by (simp add: int_ok_def con_ok_def)
  then have "console_putc c s = Some (s\<lparr>display := d, con_col := con_col s + 1\<rparr>)"
    using s c d(1) by (simp add: console_putc_def put_here_def keep_on_screen_def con_ok_def)
  then show ?thesis using s d(2,3) by (simp add: con_ok_def)
qed

lemma putc_newline:
  assumes s: "con_ok s"
  shows "\<exists>s'. console_putc 10 s = Some s' \<and> con_ok s' \<and> con_col s' = 0 \<and> con_attr s' = con_attr s \<and>
    (if con_row s + 1 < co_rows ops
     then con_row s' = con_row s + 1 \<and> shows_on s' (cell (display s))
     else con_row s' = co_rows ops - 1 \<and>
       shows_on s' (\<lambda>x y. if y = co_rows ops - 1 then blank else cell (display s) x (y + 1)))"
proof -
  have i: "int_ok (con_row s + 1)" using rows_pos s by (simp add: int_ok_def con_ok_def)
  show ?thesis
  proof (cases "con_row s + 1 < co_rows ops")
    case True
    then have "console_putc 10 s = Some (s\<lparr>con_col := 0, con_row := con_row s + 1\<rparr>)"
      using s i by (simp add: console_putc_def keep_on_screen_def con_ok_def)
    then show ?thesis using s True by (simp add: con_ok_def)
  next
    case False
    then have r: "con_row s = co_rows ops - 1" using s by (simp add: con_ok_def)
    obtain f d where d: "co_scroll ops = Some f" "f 1 (display s) = Some d" "ok d"
      "\<forall>x y. 0 \<le> x \<longrightarrow> x < co_cols ops \<longrightarrow> 0 \<le> y \<longrightarrow> y < co_rows ops \<longrightarrow>
        cell d x y = (if y = co_rows ops - 1 then blank else cell (display s) x (y + 1))"
      using scroll_law [of "display s"] s by (auto simp: con_ok_def)
    have "console_putc 10 s = Some (s\<lparr>con_col := 0, con_row := co_rows ops - 1, display := d\<rparr>)"
      using s i r d(1,2) by (simp add: console_putc_def keep_on_screen_def con_ok_def)
    then show ?thesis using s d(3,4) False rows_pos by (simp add: con_ok_def)
  qed
qed

lemma print_text:
  assumes "con_ok s" and "\<forall>c \<in> set l. c \<notin> {8, 10, 13}" and "con_col s + int (length l) < 2 ^ 31"
  shows "\<exists>s'. ofold console_putc l s = Some s' \<and> con_ok s' \<and> con_col s' = con_col s + int (length l) \<and>
    con_row s' = con_row s \<and> con_attr s' = con_attr s \<and>
    shows_on s' (\<lambda>x y. if y = con_row s \<and> con_col s \<le> x \<and> x < con_col s + int (length l)
      then glyph (l ! nat (x - con_col s)) (con_attr s) else cell (display s) x y)"
  using assms
proof (induction l arbitrary: s)
  case (Cons c l)
  have c: "c \<noteq> 8" "c \<noteq> 10" "c \<noteq> 13" "con_col s < 2 ^ 31 - 1" using Cons.prems by auto
  obtain s1 where s1: "console_putc c s = Some s1" "con_ok s1" "con_col s1 = con_col s + 1" "con_row s1 = con_row s"
    "con_attr s1 = con_attr s"
    "shows_on s1 (\<lambda>x y. if x = con_col s \<and> y = con_row s then glyph c (con_attr s) else cell (display s) x y)"
    using putc_text [OF Cons.prems(1) c] by blast
  have "\<forall>c \<in> set l. c \<notin> {8, 10, 13}" "con_col s1 + int (length l) < 2 ^ 31" using Cons.prems s1(3) by auto
  from Cons.IH [OF s1(2) this] obtain s2 where s2: "ofold console_putc l s1 = Some s2" "con_ok s2"
    "con_col s2 = con_col s1 + int (length l)" "con_row s2 = con_row s1" "con_attr s2 = con_attr s1"
    "shows_on s2 (\<lambda>x y. if y = con_row s1 \<and> con_col s1 \<le> x \<and> x < con_col s1 + int (length l)
      then glyph (l ! nat (x - con_col s1)) (con_attr s1) else cell (display s1) x y)"
    by blast
  have i: "nat (x - (1 + con_col s)) = nat (x - con_col s) - Suc 0" for x by simp
  have "shows_on s2 (\<lambda>x y. if y = con_row s \<and> con_col s \<le> x \<and> x < con_col s + int (length (c # l))
      then glyph ((c # l) ! nat (x - con_col s)) (con_attr s) else cell (display s) x y)"
    using s2(6) s1(3-6) i by (auto simp: nth_Cons' algebra_simps)
  then show ?case using s1 s2 by auto
qed auto

definition line_cell :: "u8 \<Rightarrow> bytes list \<Rightarrow> nat \<Rightarrow> int \<Rightarrow> int \<Rightarrow> 'c" where
  "line_cell a ls k x y =
     (if nat y < k \<and> nat x < length (ls ! (length ls - k + nat y))
      then glyph (ls ! (length ls - k + nat y) ! nat x) a else blank)"

text \<open>The screen shows the last lines that fit above the cursor's line, which is empty.\<close>

definition shows_lines :: "'d console \<Rightarrow> bytes list \<Rightarrow> bool" where
  "shows_lines s ls \<longleftrightarrow> con_ok s \<and> con_col s = 0 \<and>
     (let k = min (length ls) (nat (co_rows ops - 1)) in
      con_row s = int k \<and> shows_on s (line_cell (con_attr s) ls k))"

lemma print_line:
  assumes s: "shows_lines s ls" and l: "\<forall>c \<in> set l. c \<notin> {8, 10, 13}" "int (length l) < 2 ^ 31"
  shows "\<exists>s'. ofold console_putc (l @ [10]) s = Some s' \<and> con_attr s' = con_attr s \<and> shows_lines s' (ls @ [l])"
proof -
  let ?n = "length ls" and ?a = "con_attr s"
  define k where "k = min ?n (nat (co_rows ops - 1))"
  have ok: "con_ok s" "con_col s = 0" "con_row s = int k" "shows_on s (line_cell ?a ls k)"
    using s by (simp_all add: shows_lines_def k_def Let_def)
  obtain s1 where s1: "ofold console_putc l s = Some s1" "con_ok s1" "con_row s1 = int k" "con_attr s1 = ?a"
    "shows_on s1 (\<lambda>x y. if y = int k \<and> x < int (length l) then glyph (l ! nat x) ?a else line_cell ?a ls k x y)"
    using print_text [OF ok(1) l(1)] ok l(2) by auto
  obtain s2 where s2: "console_putc 10 s1 = Some s2" "con_ok s2" "con_col s2 = 0" "con_attr s2 = ?a"
    "if int k + 1 < co_rows ops
     then con_row s2 = int k + 1 \<and> shows_on s2 (cell (display s1))
     else con_row s2 = co_rows ops - 1 \<and>
       shows_on s2 (\<lambda>x y. if y = co_rows ops - 1 then blank else cell (display s1) x (y + 1))"
    using putc_newline [OF s1(2)] s1(3,4) by auto
  have print: "ofold console_putc (l @ [10]) s = Some s2"
    using s1(1) s2(1) by (induction l arbitrary: s) (auto simp: bind_simps)
  have "shows_lines s2 (ls @ [l])"
  proof (cases "int k + 1 < co_rows ops")
    case True
    then have k: "k = ?n" "min (length (ls @ [l])) (nat (co_rows ops - 1)) = Suc k" by (auto simp: k_def)
    have "cell (display s2) x y = line_cell ?a (ls @ [l]) (Suc k) x y"
      if "0 \<le> x" "x < co_cols ops" "0 \<le> y" "y < co_rows ops" for x y
      using s2(5) s1(5) that True k(1) by (auto simp: line_cell_def nth_append)
    then show ?thesis using s2 True k by (simp add: shows_lines_def)
  next
    case False
    then have k: "int k = co_rows ops - 1" "k \<le> ?n" "min (length (ls @ [l])) (nat (co_rows ops - 1)) = k"
      using rows_pos by (auto simp: k_def)
    have "cell (display s2) x y = line_cell ?a (ls @ [l]) k x y"
      if r: "0 \<le> x" "x < co_cols ops" "0 \<le> y" "y < co_rows ops" for x y
    proof (cases "y = co_rows ops - 1")
      case True
      then have "nat y = k" using k(1) by simp
      then show ?thesis using s2(5) r False True by (simp add: line_cell_def)
    next
      case y: False
      then have "cell (display s2) x y =
          (if y + 1 = int k \<and> x < int (length l) then glyph (l ! nat x) ?a else line_cell ?a ls k x (y + 1))"
        using s2(5) s1(5) r False k(1) by simp
      moreover have "nat (y + 1) = Suc (nat y)" "nat y < k" using r y k(1) by auto
      ultimately show ?thesis
        using k(1,2) r by (auto simp: line_cell_def nth_append Suc_diff_le)
    qed
    then show ?thesis using s2 False k by (simp add: shows_lines_def)
  qed
  then show ?thesis using print s2(4) by blast
qed

lemma print_lines:
  assumes "shows_lines s []" and "\<forall>l \<in> set ls. (\<forall>c \<in> set l. c \<notin> {8, 10, 13}) \<and> int (length l) < 2 ^ 31"
  shows "\<exists>s'. ofold console_putc (concat (map (\<lambda>l. l @ [10]) ls)) s = Some s' \<and> con_attr s' = con_attr s \<and> shows_lines s' ls"
  using assms(2)
proof (induction ls rule: rev_induct)
  case Nil
  then show ?case using assms(1) by simp
next
  case (snoc l ls)
  then obtain s1 where s1: "ofold console_putc (concat (map (\<lambda>l. l @ [10]) ls)) s = Some s1"
    "con_attr s1 = con_attr s" "shows_lines s1 ls" by auto
  obtain s2 where "ofold console_putc (l @ [10]) s1 = Some s2" "con_attr s2 = con_attr s1" "shows_lines s2 (ls @ [l])"
    using print_line [OF s1(3), of l] snoc.prems by auto
  then show ?case using s1 by (simp add: ofold_append)
qed

lemma install_blank:
  assumes "ok (display s)"
  shows "\<exists>s'. console_install (Some ops) s = Some s' \<and> con_attr s' = con_attr s \<and> shows_lines s' []"
  using clear_law [OF assms] rows_pos
  by (auto simp: console_install_def shows_lines_def con_ok_def line_cell_def)

end

lemma console_print_ofold: "0 \<notin> set cs \<Longrightarrow> console_print (cs @ 0 # r) s = ofold console_putc cs s"
proof (induction cs arbitrary: s)
  case (Cons c cs)
  then show ?case by (cases "console_putc c s") auto
qed simp

section \<open>VGA text as a display\<close>

definition vt_at :: "'d vga \<Rightarrow> int \<Rightarrow> int \<Rightarrow> u16" where
  "vt_at v c r = vt v ! nat (r * VGA_COLS + c)"

lemma copy_rows:
  assumes "length cells = 2000"
  shows "\<exists>cells'. ofold (copy_row 1) [1..24] cells = Some cells' \<and> length cells' = 2000 \<and>
    (\<forall>i < 2000. cells' ! i = (if i < 1920 then cells ! (i + 80) else cells ! i))"
proof -
  have "\<exists>cells'. ofold (copy_row 1) [1..int n] cells = Some cells' \<and> length cells' = 2000 \<and>
    (\<forall>i < 2000. cells' ! i = (if i < n * 80 then cells ! (i + 80) else cells ! i))" if "n \<le> 24" for n
    using that
  proof (induction n)
    case (Suc n)
    then obtain c1 where c1: "ofold (copy_row 1) [1..int n] cells = Some c1" "length c1 = 2000"
      "\<forall>i < 2000. c1 ! i = (if i < n * 80 then cells ! (i + 80) else cells ! i)" by auto
    have up: "[1..int (Suc n)] = [1..int n] @ [int (Suc n)]" by (simp add: upto_rec2)
    have i: "nat (int (Suc n) * VGA_COLS) = Suc n * 80" "nat ((int (Suc n) - 1) * VGA_COLS) = n * 80"
      "0 \<le> (int (Suc n) - 1) * VGA_COLS" by (simp_all add: VGA_COLS_def nat_mult_distrib)
    have c2: "copy_row 1 (int (Suc n)) c1 = Some (upd c1 (n * 80) (sub c1 (Suc n * 80) 80))"
      unfolding copy_row_def i using Suc.prems c1(2) i(3) by (simp add: VGA_COLS_def)
    have "\<forall>i < 2000. upd c1 (n * 80) (sub c1 (Suc n * 80) 80) ! i = (if i < Suc n * 80 then cells ! (i + 80) else cells ! i)"
      using Suc.prems c1(2,3) by (auto simp: nth_upd nth_sub add.commute)
    then show ?case using c1 c2 Suc.prems unfolding up by (simp add: ofold_append)
  qed (use assms in simp)
  from this [of 24] show ?thesis by simp
qed

lemma vt_scroll_1:
  assumes "length (vt v) = 2000"
  shows "\<exists>v'. vt_scroll 1 v = Some v' \<and> length (vt v') = 2000 \<and>
    (\<forall>i < 2000. vt v' ! i = (if i < 1920 then vt v ! (i + 80) else vt_blank))"
proof -
  obtain c where c: "ofold (copy_row 1) [1..24] (vt v) = Some c" "length c = 2000"
    "\<forall>i < 2000. c ! i = (if i < 1920 then vt v ! (i + 80) else vt v ! i)"
    using copy_rows [OF assms] by blast
  have "vt_scroll 1 v = Some (v\<lparr>vt := upd c 1920 (replicate 80 vt_blank)\<rparr>)"
    using c by (simp add: vt_scroll_def VGA_ROWS_def VGA_COLS_def blank_row_def)
  then show ?thesis using c by (auto simp: nth_upd)
qed

lemma vt_index:
  "0 \<le> c \<Longrightarrow> c < 80 \<Longrightarrow> 0 \<le> r \<Longrightarrow> r < 25 \<Longrightarrow> nat (r * 80 + c) < 2000" for c r :: int
  by simp

interpretation vga: text_display "vga_text_ops io" "\<lambda>v. length (vt v) = 2000" vt_at vt_cell vt_blank
proof
  show "1 < co_rows (vga_text_ops io)" "co_rows (vga_text_ops io) < 2 ^ 31"
    by (simp_all add: vga_text_ops_def VGA_ROWS_def)
next
  fix d :: "'a vga"
  assume l: "length (vt d) = 2000"
  then have "vt_clear d = Some (d\<lparr>vt := replicate 2000 vt_blank\<rparr>)"
    by (simp add: vt_clear_def VGA_COLS_def VGA_ROWS_def upd_def)
  then show "\<exists>d'. try_clear (vga_text_ops io) d = Some d' \<and> length (vt d') = 2000 \<and>
      (\<forall>c r. 0 \<le> c \<longrightarrow> c < co_cols (vga_text_ops io) \<longrightarrow> 0 \<le> r \<longrightarrow> r < co_rows (vga_text_ops io) \<longrightarrow> vt_at d' c r = vt_blank)"
    using vt_index by (auto simp: try_clear_def vga_text_ops_def vt_at_def VGA_COLS_def VGA_ROWS_def)
next
  fix d :: "'a vga" and col row :: int and ch a :: u8
  assume l: "length (vt d) = 2000" and p: "0 \<le> col" "0 \<le> row" "row < co_rows (vga_text_ops io)"
  have eq: "nat (row * 80 + col) = nat (r * 80 + c) \<longleftrightarrow> c = col \<and> r = row"
    if "0 \<le> c" "c < 80" "0 \<le> r" "r < 25" "col < 80" for c r proof -
    have "r = row \<and> c = col" if h: "row * 80 + col = r * 80 + c"
    proof -
      have "r = row" using h \<open>0 \<le> c\<close> \<open>c < 80\<close> \<open>col < 80\<close> p(1) by linarith
      then show ?thesis using h by simp
    qed
    then show ?thesis using that p by (auto simp: nat_eq_iff)
  qed
  show "\<exists>d'. co_putc_at (vga_text_ops io) col row ch a d = Some d' \<and> length (vt d') = 2000 \<and>
      (\<forall>c r. 0 \<le> c \<longrightarrow> c < co_cols (vga_text_ops io) \<longrightarrow> 0 \<le> r \<longrightarrow> r < co_rows (vga_text_ops io) \<longrightarrow>
        vt_at d' c r = (if c = col \<and> r = row then vt_cell ch a else vt_at d c r))"
  proof (cases "col < 80")
    case False
    then show ?thesis using l p by (auto simp: vga_text_ops_def vt_putc_at_def VGA_COLS_def)
  next
    case True
    have i: "nat (row * 80 + col) < 2000" using vt_index p True by (simp add: vga_text_ops_def VGA_ROWS_def)
    obtain hw where put: "vt_putc_at io col row ch a d =
        Some (d\<lparr>vt := upd (vt d) (nat (row * 80 + col)) [vt_cell ch a], vga_hw := hw\<rparr>)"
      using i l True p by (simp add: vt_putc_at_def VGA_COLS_def VGA_ROWS_def vga_text_ops_def Let_def)
    have "vt_at (d\<lparr>vt := upd (vt d) (nat (row * 80 + col)) [vt_cell ch a], vga_hw := hw\<rparr>) c r =
        (if c = col \<and> r = row then vt_cell ch a else vt_at d c r)"
      if "0 \<le> c" "c < 80" "0 \<le> r" "r < 25" for c r
      using eq [OF that True] vt_index [OF that] i l by (auto simp: vt_at_def VGA_COLS_def upd_single nth_list_update)
    then show ?thesis using put i l by (simp add: vga_text_ops_def VGA_COLS_def VGA_ROWS_def)
  qed
next
  fix d :: "'a vga"
  assume l: "length (vt d) = 2000"
  obtain v where v: "vt_scroll 1 d = Some v" "length (vt v) = 2000"
    "\<forall>i < 2000. vt v ! i = (if i < 1920 then vt d ! (i + 80) else vt_blank)" using vt_scroll_1 [OF l] by blast
  show "\<exists>f d'. co_scroll (vga_text_ops io) = Some f \<and> f 1 d = Some d' \<and> length (vt d') = 2000 \<and>
      (\<forall>c r. 0 \<le> c \<longrightarrow> c < co_cols (vga_text_ops io) \<longrightarrow> 0 \<le> r \<longrightarrow> r < co_rows (vga_text_ops io) \<longrightarrow>
        vt_at d' c r = (if r = co_rows (vga_text_ops io) - 1 then vt_blank else vt_at d c (r + 1)))"
  proof -
    have "vt_at v c r = (if r = 24 then vt_blank else vt_at d c (r + 1))"
      if cr: "0 \<le> c" "c < 80" "0 \<le> r" "r < 25" for c r
    proof -
      have "nat (r * 80 + c) < 1920 \<longleftrightarrow> r \<noteq> 24" "nat ((r + 1) * 80 + c) = nat (r * 80 + c) + 80" using cr by auto
      then show ?thesis using v(3) vt_index [OF cr] by (simp add: vt_at_def VGA_COLS_def)
    qed
    then show ?thesis using v(1,2) by (simp add: vga_text_ops_def VGA_COLS_def VGA_ROWS_def)
  qed
qed

section \<open>Properties\<close>

text \<open>C32: what the VGA console shows. After \<open>console_init\<close>, printing lines of text returns and leaves
  the last 24 lines on the screen, in order, from the top row on, each cut at 80 columns (a longer line is
  not continued on the next row), the rest of the screen blank, and the cursor at the start of the row
  below them; every cell written is inside the screen.\<close>

theorem console_shows_last_lines:
  assumes "length (vt (display s)) = 2000" and "con_attr s = CON_NORMAL"
    and "\<forall>l \<in> set ls. (\<forall>c \<in> set l. c \<notin> {0, 8, 10, 13}) \<and> length l < 2 ^ 31"
  shows "\<exists>s1 s2. console_init io s = Some s1 \<and> console_print (concat (map (\<lambda>l. l @ [10]) ls) @ [0]) s1 = Some s2 \<and>
    con_col s2 = 0 \<and> con_row s2 = int (min (length ls) 24) \<and> length (vt (display s2)) = 2000 \<and>
    (\<forall>c r. 0 \<le> c \<longrightarrow> c < 80 \<longrightarrow> 0 \<le> r \<longrightarrow> r < 25 \<longrightarrow>
      vt (display s2) ! nat (r * 80 + c) =
        (let vis = drop (length ls - 24) ls in
         if nat r < length vis \<and> nat c < length (vis ! nat r) then vt_cell (vis ! nat r ! nat c) CON_NORMAL
         else vt_blank))"
proof -
  obtain s1 where s1: "console_init io s = Some s1" "con_attr s1 = CON_NORMAL" "vga.shows_lines io s1 []"
    using vga.install_blank [of s io] assms(1,2) by (auto simp: console_init_def)
  have "\<forall>l \<in> set ls. (\<forall>c \<in> set l. c \<notin> {8, 10, 13}) \<and> int (length l) < 2 ^ 31" using assms(3) by auto
  from vga.print_lines [OF s1(3) this] obtain s2 where
    s2: "ofold console_putc (concat (map (\<lambda>l. l @ [10]) ls)) s1 = Some s2" "con_attr s2 = CON_NORMAL"
      "vga.shows_lines io s2 ls" using s1(2) by auto
  have "0 \<notin> set (concat (map (\<lambda>l. l @ [10]) ls))" using assms(3) by auto
  then have "console_print (concat (map (\<lambda>l. l @ [10]) ls) @ [0]) s1 = Some s2"
    using s2(1) by (simp add: console_print_ofold)
  moreover have dim: "co_rows (vga_text_ops io) = 25" "co_cols (vga_text_ops io) = 80"
    by (simp_all add: vga_text_ops_def VGA_ROWS_def VGA_COLS_def)
  moreover have "length ls - min (length ls) 24 = length ls - 24" by simp
  ultimately show ?thesis
    using s1(1) s2(2,3) unfolding vga.shows_lines_def vga.con_ok_def vga.line_cell_def Let_def dim
    by (auto simp: VGA_COLS_def vt_at_def nth_drop)
qed

theorem console_shows_last_lines_witness:
  "\<exists>s1 s2. console_init floating_bus (console_boot \<lparr>vt = replicate 2000 0, vga_hw = ()\<rparr>) = Some s1 \<and>
    console_print ([0x68, 0x69, 10] @ [0]) s1 = Some s2 \<and> con_row s2 = 1 \<and>
    vt (display s2) ! 0 = vt_cell 0x68 CON_NORMAL \<and> vt (display s2) ! 2 = vt_blank"
proof -
  let ?s = "console_boot \<lparr>vt = replicate 2000 0, vga_hw = ()\<rparr>"
  obtain s1 s2 where s: "console_init floating_bus ?s = Some s1" "console_print ([0x68, 0x69, 10] @ [0]) s1 = Some s2"
    "con_row s2 = 1"
    "\<forall>c r. 0 \<le> c \<longrightarrow> c < 80 \<longrightarrow> 0 \<le> r \<longrightarrow> r < 25 \<longrightarrow> vt (display s2) ! nat (r * 80 + c) =
      (if nat r < 1 \<and> nat c < length ([[0x68 :: u8, 0x69]] ! nat r) then vt_cell ([[0x68, 0x69]] ! nat r ! nat c) CON_NORMAL
       else vt_blank)"
    using console_shows_last_lines [of ?s "[[0x68, 0x69]]" floating_bus] by (auto simp: console_boot_def Let_def)
  show ?thesis
    using s(1-3) s(4) [rule_format, of 0 0] s(4) [rule_format, of 2 0] by auto
qed

end
