(* ===== verification/Gpu.thy ===== *)
theory Gpu
  imports Console Pci Mmio
begin

text \<open>
  The graphics drivers: the framebuffer console \<open>drivers/gpu/fb_console.c\<close>, the mode setting of
  \<open>drivers/gpu/bochs.c\<close>, the selection in \<open>drivers/gpu/gpu.c\<close> and the panel brightness in
  \<open>drivers/gpu/backlight.c\<close>. The ports and the memory of the card are the parameters \<open>io\<close> and \<open>mm\<close>,
  which act on the same hardware. The state of the display has the VGA text screen and what the
  framebuffer console keeps; pixel indices are computed in 32 bits, and added to a 64-bit pointer.
  Messages go to a log, without the line feed that ends them in the source.
\<close>

section \<open>The framebuffer console\<close>

definition CELL :: u32 where "CELL = 16"
definition FB_BG :: u32 where "FB_BG = 0xFF101418"

record 'd screen =
  scr_vga :: "'d vga"
  font :: bytes
  fb :: u64
  fb_w :: u32
  fb_h :: u32
  fb_pitch_px :: u32
  fb_cols :: int
  fb_rows :: int

abbreviation scr_hw :: "'d screen \<Rightarrow> 'd" where
  "scr_hw s \<equiv> vga_hw (scr_vga s)"

definition with_hw :: "'d \<Rightarrow> 'd screen \<Rightarrow> 'd screen" where
  "with_hw hw s = s\<lparr>scr_vga := (scr_vga s)\<lparr>vga_hw := hw\<rparr>\<rparr>"

definition attr_fg_rgb :: "u8 \<Rightarrow> u32" where
  "attr_fg_rgb attr =
     [0x00000000, 0x0000AAAA, 0x00AA0000, 0x00AAAA55, 0x00550000, 0x005500AA, 0x0055AA00, 0x00AAAAAA,
      0x00555555, 0x005555FF, 0x0055FF55, 0x0055FFFF, 0x00FF5555, 0x00FF55FF, 0x00FFFF55, 0x00FFFFFF] ! unat (attr AND 0x0F)"

fun rom_varies :: "'d mmio \<Rightarrow> u8 \<Rightarrow> u64 \<Rightarrow> nat \<Rightarrow> 'd \<Rightarrow> bool \<times> 'd" where
  "rom_varies mm x a 0 hw = (False, hw)"
| "rom_varies mm x a (Suc n) hw =
     (let (v, hw) = mem_in mm a hw in if v \<noteq> x then (True, hw) else rom_varies mm x (a + 1) n hw)"

definition copy_bios_font :: "'d mmio \<Rightarrow> 'd screen \<Rightarrow> bool \<times> 'd screen" where
  "copy_bios_font mm s =
     (let (x, hw) = mem_in mm 0xFFA6E (scr_hw s);
          (real, hw) = rom_varies mm x 0xFFA6F 1023 hw
      in if \<not> real then (False, with_hw hw s)
      else
        let (glyphs, hw) = shared_read mm 0xFFA6E 1024 hw;
            s = with_hw hw (s\<lparr>font := glyphs\<rparr>)
        in (\<not> (glyphs ! (0x41 * 8 + 1) = 0 \<and> glyphs ! (0x41 * 8 + 3) = 0) \<and> glyphs ! (0x20 * 8 + 3) = 0, s))"

text \<open>The stores of one glyph, in order: address and colour.\<close>

definition glyph_row :: "'d screen \<Rightarrow> u32 \<Rightarrow> u32 \<Rightarrow> u32 \<Rightarrow> u8 \<Rightarrow> nat \<Rightarrow> (u64 \<times> u32) list" where
  "glyph_row s fg px py idx gy =
     (let bs = font s ! (unat idx * 8 + gy);
          line_a = fb s + 4 * ucast ((py + of_nat gy * 2) * fb_pitch_px s + px);
          line_b = line_a + 4 * ucast (fb_pitch_px s)
      in concat (map (\<lambda>gx. let color = (if bs AND drop_bit gx 0x80 \<noteq> 0 then fg else FB_BG) in
           [(line_a + 8 * of_nat gx, color), (line_a + 8 * of_nat gx + 4, color),
            (line_b + 8 * of_nat gx, color), (line_b + 8 * of_nat gx + 4, color)]) [0..<8]))"

definition cell_stores :: "'d screen \<Rightarrow> int \<Rightarrow> int \<Rightarrow> u8 \<Rightarrow> u8 \<Rightarrow> (u64 \<times> u32) list" where
  "cell_stores s col row c attr =
     concat (map (glyph_row s (attr_fg_rgb attr) (word_of_int (col * 16)) (word_of_int (row * 16)) (c AND 0x7F)) [0..<8])"

definition draw_cell :: "'d mmio \<Rightarrow> int \<Rightarrow> int \<Rightarrow> u8 \<Rightarrow> u8 \<Rightarrow> 'd screen \<Rightarrow> 'd screen option" where
  "draw_cell mm col row c attr s = do {
     chk (int_ok (col * 16) \<and> int_ok (row * 16));
     Some (with_hw (fold (\<lambda>(a, v). reg_out mm a v) (cell_stores s col row c attr) (scr_hw s)) s) }"

definition fbc_clear :: "'d mmio \<Rightarrow> 'd screen \<Rightarrow> 'd screen option" where
  "fbc_clear mm s = Some (with_hw (fold (\<lambda>y hw. fold (\<lambda>x hw.
       reg_out mm (fb s + 4 * ucast (of_nat y * fb_pitch_px s) + 4 * of_nat x) FB_BG hw) [0..<unat (fb_w s)] hw)
     [0..<unat (fb_h s)] (scr_hw s)) s)"

text \<open>\<open>memcpy\<close> of one row of cells. The framebuffer is a memory window, whose base is a multiple of 16, so
  only the word loop of \<open>memcpy\<close> runs.\<close>

definition copy_pixels :: "'d mmio \<Rightarrow> u64 \<Rightarrow> u64 \<Rightarrow> nat \<Rightarrow> 'd \<Rightarrow> 'd" where
  "copy_pixels mm dst src n hw = fold (\<lambda>i hw.
       let (v, hw) = reg_in mm (src + 4 * of_nat i) hw in reg_out mm (dst + 4 * of_nat i) v hw) [0..<n] hw"

definition fbc_scroll :: "'d mmio \<Rightarrow> int \<Rightarrow> 'd screen \<Rightarrow> 'd screen option" where
  "fbc_scroll mm lines s = do {
     let row = (\<lambda>r. fb s + 4 * ucast (word_of_int r * CELL * fb_pitch_px s));
     let n = unat (CELL * fb_pitch_px s * 4) div 4;
     let s = with_hw (fold (\<lambda>r hw. copy_pixels mm (row (r - lines)) (row r) n hw) [lines..fb_rows s - 1] (scr_hw s)) s;
     ofold (\<lambda>r. ofold (\<lambda>c. draw_cell mm c r 0x20 CON_NORMAL) [0..fb_cols s - 1]) [fb_rows s - lines..fb_rows s - 1] s }"

definition fbc_ops :: "'d mmio \<Rightarrow> 'd screen \<Rightarrow> 'd screen console_ops" where
  "fbc_ops mm s = \<lparr>co_cols = fb_cols s, co_rows = fb_rows s, co_clear = Some (fbc_clear mm), co_putc_at = draw_cell mm,
     co_scroll = Some (fbc_scroll mm)\<rparr>"

record gpu_device =
  g_name :: "string option"
  g_vendor :: u16
  g_device :: u16
  fb_active :: bool
  lfb_phys :: u32
  g_width :: u32
  g_height :: u32
  g_bpp :: u32
  g_pitch :: u32

definition fb_console_install :: "'d mmio \<Rightarrow> gpu_device \<Rightarrow> 'd screen console \<Rightarrow> 'd screen console option" where
  "fb_console_install mm gpu c =
     (if \<not> fb_active gpu then Some c
      else
        let (ok, s) = copy_bios_font mm (display c); c = c\<lparr>display := s\<rparr> in
        if \<not> ok then Some c
        else
          let s = s\<lparr>fb := ucast (lfb_phys gpu), fb_w := g_width gpu, fb_h := g_height gpu, fb_pitch_px := g_pitch gpu div 4,
                    fb_cols := sint (g_width gpu div CELL), fb_rows := sint (g_height gpu div CELL)\<rparr>
          in console_install (Some (fbc_ops mm s)) (c\<lparr>display := s\<rparr>))"

section \<open>The Bochs interface\<close>

definition dispi_read :: "'d ports \<Rightarrow> u16 \<Rightarrow> 'd \<Rightarrow> u16 \<times> 'd" where
  "dispi_read io i hw = inw io 0x01CF (outw io 0x01CE i hw)"

definition dispi_write :: "'d ports \<Rightarrow> u16 \<times> u16 \<Rightarrow> 'd \<Rightarrow> 'd" where
  "dispi_write io iv hw = outw io 0x01CF (snd iv) (outw io 0x01CE (fst iv) hw)"

definition lfb_bar_of :: "pci_dev \<Rightarrow> u32 \<times> u32" where
  "lfb_bar_of d = fold (\<lambda>i (base, sz).
     if bar_is_io d ! i \<or> bar_base d ! i = 0 then (base, sz)
     else if bar_size d ! i > sz then (bar_base d ! i, bar_size d ! i) else (base, sz)) [0..<6] (0, 0)"

definition bochs_set_mode :: "'d ports \<Rightarrow> 'd mmio \<Rightarrow> pci_dev \<Rightarrow> gpu_device \<Rightarrow> 'd \<Rightarrow> bool \<times> gpu_device \<times> 'd" where
  "bochs_set_mode io mm d gpu hw =
     (let (v, hw) = dispi_read io 0 hw in
      if v AND 0xFFF0 \<noteq> 0xB0C0 then (False, gpu, hw)
      else
        let (base, sz) = lfb_bar_of d in
        if base = 0 \<or> sz < 1024 * 768 * 4 then (False, gpu, hw)
        else
          let hw = fold (dispi_write io) [(4, 0), (1, 1024), (2, 768), (3, 32), (6, 1024), (7, 768), (5, 0), (8, 0), (9, 0), (4, 0xC1)] hw;
              probe = ucast base + 4 * (384 * 1024 + 512);
              (old, hw) = reg_in mm probe hw;
              hw = reg_out mm probe 0xA55A1357 hw;
              (back, hw) = reg_in mm probe hw;
              hw = reg_out mm probe old hw
          in if back \<noteq> 0xA55A1357 then (False, gpu, hw)
          else (True, gpu\<lparr>fb_active := True, lfb_phys := base, g_width := 1024, g_height := 768, g_bpp := 32, g_pitch := 4096\<rparr>, hw))"

section \<open>Selection\<close>

record 'd gpus =
  g_gpu :: gpu_device
  gpu_con :: "'d screen console"
  gpu_log :: messages

definition no_gpu :: gpu_device where
  "no_gpu = \<lparr>g_name = None, g_vendor = 0, g_device = 0, fb_active = False, lfb_phys = 0, g_width = 0, g_height = 0,
     g_bpp = 0, g_pitch = 0\<rparr>"

definition gpu_info :: "'d gpus \<Rightarrow> gpu_device" where
  "gpu_info s = g_gpu s"

definition report_text_only :: "string \<Rightarrow> 'd gpus \<Rightarrow> 'd gpus" where
  "report_text_only reason s = s\<lparr>g_gpu := (g_gpu s)\<lparr>fb_active := False\<rparr>,
     gpu_log := gpu_log s @ [(''gpu %s -- staying on text console (%s)'',
       [str_arg (cstring (case g_name (g_gpu s) of Some n \<Rightarrow> n | None \<Rightarrow> ''none'')), str_arg (cstring reason)])]\<rparr>"

definition gpu_name :: "u16 \<Rightarrow> u16 \<Rightarrow> string" where
  "gpu_name vendor dev =
     (if vendor = 0x1234 \<and> dev = 0x1111 then ''QEMU/Bochs SVGA''
      else if vendor = 0x1b36 \<and> dev = 0x0100 then ''QXL''
      else if vendor = 0x8086 then ''Intel HD graphics''
      else if vendor = 0x1002 then ''AMD graphics''
      else if vendor = 0x10de then ''NVIDIA graphics''
      else if vendor = 0x15ad then ''VMware SVGA''
      else if vendor = 0x80ee then ''VirtualBox graphics''
      else ''unknown display'')"

text \<open>In the secure build (\<open>secure\<close>) no mode is set.\<close>

definition try_bochs_family :: "bool \<Rightarrow> 'd ports \<Rightarrow> 'd mmio \<Rightarrow> 'p pci \<Rightarrow> 'd gpus \<Rightarrow> 'd gpus" where
  "try_bochs_family secure io mm p s = (case pci_display_controller p of
     None \<Rightarrow> s
   | Some d \<Rightarrow>
       let s = s\<lparr>g_gpu := (g_gpu s)\<lparr>g_vendor := pd_vendor d, g_device := pd_device d, g_name := Some (gpu_name (pd_vendor d) (pd_device d))\<rparr>\<rparr>
       in if secure then s
       else if (pd_vendor d = 0x1234 \<and> pd_device d = 0x1111) \<or> (pd_vendor d = 0x1b36 \<and> pd_device d = 0x0100) then
         let (ok, gpu, hw) = bochs_set_mode io mm d (g_gpu s) (scr_hw (display (gpu_con s)));
             s = s\<lparr>g_gpu := gpu, gpu_con := (gpu_con s)\<lparr>display := with_hw hw (display (gpu_con s))\<rparr>\<rparr>
         in if ok then s else report_text_only ''mode set failed'' s
       else s)"

definition gpu_init :: "bool \<Rightarrow> 'd ports \<Rightarrow> 'd mmio \<Rightarrow> 'p pci \<Rightarrow> 'd gpus \<Rightarrow> 'd gpus option" where
  "gpu_init secure io mm p s = do {
     let s = try_bochs_family secure io mm p (s\<lparr>g_gpu := no_gpu\<rparr>);
     let g = g_gpu s;
     if fb_active g then do {
       c \<leftarrow> fb_console_install mm g (gpu_con s);
       Some (s\<lparr>gpu_con := c, gpu_log := gpu_log s @ [(''gpu %04x:%04x '%s' -> %ux%ux%u lfb @ %08x'',
         [SNum (ucast (g_vendor g)), SNum (ucast (g_device g)), str_arg (cstring (case g_name g of Some n \<Rightarrow> n | None \<Rightarrow> [])),
          SNum (ucast (g_width g)), SNum (ucast (g_height g)), SNum (ucast (g_bpp g)), SNum (ucast (lfb_phys g))])]\<rparr>) }
     else if g_name g = None \<and> pci_display_controller p \<noteq> None then Some (report_text_only ''unsupported'' s)
     else Some s }"

section \<open>Panel brightness\<close>

record 'd backlight =
  pwm_mmio :: u64
  cur_percent :: u8
  bl_hw :: 'd

definition mmio_base_of :: "pci_dev \<Rightarrow> u64" where
  "mmio_base_of d = (case find (\<lambda>i. \<not> bar_is_io d ! i \<and> bar_size d ! i \<ge> 0x80000) [0..<6] of
     Some i \<Rightarrow> ucast (bar_base d ! i) | None \<Rightarrow> 0)"

definition intel_vga :: "pci_dev \<Rightarrow> bool" where
  "intel_vga d \<longleftrightarrow> class_code d = 0x03 \<and> pd_vendor d = 0x8086"

fun probe_panels :: "'d mmio \<Rightarrow> pci_dev list \<Rightarrow> 'd backlight \<Rightarrow> bool \<times> 'd backlight" where
  "probe_panels mm [] s = (False, s)"
| "probe_panels mm (d # ds) s =
     (if \<not> intel_vga d \<or> mmio_base_of d = 0 then probe_panels mm ds s
      else
        let (ctl, hw) = reg_in mm (mmio_base_of d + 0x61254) (bl_hw s); s = s\<lparr>bl_hw := hw\<rparr> in
        if ctl AND 0xFFFF0000 = 0 then probe_panels mm ds s
        else (True, s\<lparr>pwm_mmio := mmio_base_of d + 0x61254, cur_percent := 100\<rparr>))"

definition backlight_probe :: "'d mmio \<Rightarrow> 'p pci \<Rightarrow> 'd backlight \<Rightarrow> bool \<times> 'd backlight" where
  "backlight_probe mm p s = probe_panels mm (take (ndevices p) (devices p)) s"

definition backlight_present :: "'d backlight \<Rightarrow> bool" where
  "backlight_present s \<longleftrightarrow> pwm_mmio s \<noteq> 0"

definition backlight_get :: "'d backlight \<Rightarrow> u8" where
  "backlight_get s = cur_percent s"

definition backlight_set :: "'d mmio \<Rightarrow> u8 \<Rightarrow> 'd backlight \<Rightarrow> 'd backlight" where
  "backlight_set mm percent s =
     (if pwm_mmio s = 0 then s
      else
        let percent = (if percent > 100 then 100 else percent);
            (ctl, hw) = reg_in mm (pwm_mmio s) (bl_hw s);
            freq = drop_bit 16 (ctl AND 0xFFFF0000);
            s = s\<lparr>bl_hw := hw\<rparr>
        in if freq = 0 then s
        else
          let duty = ucast percent * freq div 100
          in s\<lparr>bl_hw := reg_out mm (pwm_mmio s) (push_bit 31 1 OR push_bit 16 freq OR (if duty \<noteq> 0 then duty else 1)) (bl_hw s),
               cur_percent := percent\<rparr>)"

text \<open>The two halves of the control register after a request for full brightness.\<close>

lemma half_mask: "(0xFFFF :: u32) = mask 16"
  by (simp add: mask_eq_exp_minus_1)

lemma bit_tops: "bit (0x8000 :: int) n \<longleftrightarrow> n = 15" "bit (0x80000000 :: int) n \<longleftrightarrow> n = 31"
proof -
  have "(0x8000 :: int) = push_bit 15 1" "(0x80000000 :: int) = push_bit 31 1"
    by (simp_all add: push_bit_eq_mult)
  then show "bit (0x8000 :: int) n \<longleftrightarrow> n = 15" "bit (0x80000000 :: int) n \<longleftrightarrow> n = 31"
    by (simp_all only: bit_push_bit_iff bit_1_iff) auto
qed

lemma high_half: "drop_bit 16 (ctl :: u32) AND 0xFFFF = drop_bit 16 ctl"
  unfolding half_mask by (rule bit_word_eqI) (auto simp: bit_simps dest: bit_imp_le_length)

lemma high_half_less: "unat (drop_bit 16 (ctl :: u32)) < 65536"
  using unsigned_less [of ctl, where 'a = nat] by (simp add: unat_div drop_bit_eq_div)

lemma full_duty: "100 * drop_bit 16 (ctl :: u32) div 100 = drop_bit 16 ctl"
proof -
  have "unat (100 * drop_bit 16 ctl) = 100 * unat (drop_bit 16 ctl)"
    using high_half_less [of ctl] by (simp add: unat_word_ariths)
  then show ?thesis
    by (simp add: word_unat_eq_iff unat_div)
qed

lemma or_top_bit:
  assumes "f < (0x8000 :: u32)"
  shows "unat (f OR 0x8000) = unat f + 0x8000"
proof -
  have "f div 0x8000 = 0"
    using assms by (simp add: word_unat_eq_iff unat_div word_less_nat_alt)
  then have "\<not> bit f 15"
    by (simp add: bit_iff_odd)
  then have "f AND 0x8000 = 0"
    by (intro bit_word_eqI) (auto simp: bit_and_iff bit_tops)
  then have "f OR 0x8000 = f + 0x8000"
    by (simp add: disjunctive_add_eq_or)
  then show ?thesis
    using assms by (simp add: unat_word_ariths word_less_nat_alt)
qed

lemma pwm_fields:
  assumes "f = drop_bit 16 (ctl :: u32)"
  shows "drop_bit 16 (0x80000000 OR push_bit 16 f OR f) = f OR 0x8000"
    and "(0x80000000 OR push_bit 16 f OR f) AND 0xFFFF = f"
  unfolding assms half_mask by (rule bit_word_eqI; auto simp: bit_and_iff bit_or_iff bit_push_bit_iff bit_drop_bit_eq bit_mask_iff bit_tops dest: bit_imp_le_length)+

lemma masked_high: "push_bit 16 (drop_bit 16 (ctl :: u32)) AND 0xFFFF0000 = push_bit 16 (drop_bit 16 ctl)"
proof -
  have "push_bit 16 (drop_bit 16 ctl) AND push_bit 16 0xFFFF = push_bit 16 (drop_bit 16 ctl)"
    by (simp only: push_bit_and [symmetric] high_half)
  then show ?thesis
    by (simp add: push_bit_eq_mult)
qed

text \<open>C40: The frequency field that \<open>backlight_set\<close> reads back includes the enable bit that it sets. On a register
  that keeps what is stored in it, with a panel whose frequency \<open>f\<close> is positive and below \<open>0x8000\<close>, a request
  for 100 percent leaves the frequency field \<open>f OR 0x8000\<close>, that is \<open>f + 0x8000\<close>, and the duty cycle \<open>f\<close>: the
  fraction of the two, which is the brightness, is below one half.\<close>

theorem backlight_full_below_half:
  assumes present: "pwm_mmio s \<noteq> 0"
    and ctl: "reg_in mm (pwm_mmio s) (bl_hw s) = (ctl, hw)"
    and keeps: "\<And>v. fst (reg_in mm (pwm_mmio s) (reg_out mm (pwm_mmio s) v hw)) = v"
    and f: "f = drop_bit 16 ctl" "f \<noteq> 0" "f < 0x8000"
    and reg: "reg = fst (reg_in mm (pwm_mmio s) (bl_hw (backlight_set mm 100 s)))"
  shows "drop_bit 16 reg = f OR 0x8000 \<and> unat (drop_bit 16 reg) = unat f + 0x8000 \<and> reg AND 0xFFFF = f \<and>
    2 * unat (reg AND 0xFFFF) < unat (drop_bit 16 reg) \<and> backlight_get (backlight_set mm 100 s) = 100"
proof -
  have "reg = 0x80000000 OR push_bit 16 f OR f"
    using present ctl keeps f reg by (simp add: backlight_set_def high_half masked_high full_duty Let_def)
  then have "drop_bit 16 reg = f OR 0x8000" "reg AND 0xFFFF = f"
    using pwm_fields [OF f(1)] by simp_all
  moreover have "unat (f OR 0x8000) = unat f + 0x8000"
    using f(3) by (rule or_top_bit)
  moreover have "unat f < 0x8000"
    using f(3) by (simp add: word_less_nat_alt)
  moreover have "backlight_get (backlight_set mm 100 s) = 100"
    using present ctl f by (simp add: backlight_set_def backlight_get_def high_half Let_def)
  ultimately show ?thesis
    by simp
qed

definition reg_cell :: "u32 mmio" where
  "reg_cell = \<lparr>reg_in = \<lambda>a r. (r, r), reg_out = \<lambda>a v r. v, mem_in = \<lambda>a r. (0, r), mem_out = \<lambda>a v r. r\<rparr>"

theorem backlight_full_below_half_witness:
  "let s = \<lparr>pwm_mmio = 0xE0061254, cur_percent = 100, bl_hw = 0x12340000\<rparr>; reg = bl_hw (backlight_set reg_cell 100 s)
   in reg AND 0xFFFF = 0x1234 \<and> drop_bit 16 reg = 0x9234"
  using backlight_full_below_half [of "\<lparr>pwm_mmio = 0xE0061254, cur_percent = 100, bl_hw = 0x12340000\<rparr>" reg_cell
      "0x12340000" "0x12340000" "0x1234" "bl_hw (backlight_set reg_cell 100 \<lparr>pwm_mmio = 0xE0061254, cur_percent = 100, bl_hw = 0x12340000\<rparr>)"]
  by (simp add: reg_cell_def Let_def)

end
