(* ===== verification/Recovery.thy ===== *)
theory Recovery
  imports Console Firmware Pci Mmio Ps2
begin

text \<open>
  Panic and recovery: \<open>lib/panic.c\<close>, the reset of \<open>arch/x86/start.c\<close>, the stack canary
  \<open>security/stack_guard.c\<close> and the menu of the Secure Kernel \<open>secure/secure_boot.c\<close>. The console is on
  the VGA text screen; the CMOS, the keyboard controller and the delay port are reached through the ports
  \<open>io\<close> of the same hardware. Disabling interrupts and halting have no effect on these states.
\<close>

section \<open>Panic\<close>

definition on_hw :: "('d \<Rightarrow> 'd) \<Rightarrow> 'd vga console \<Rightarrow> 'd vga console" where
  "on_hw f c = c\<lparr>display := (display c)\<lparr>vga_hw := f (vga_hw (display c))\<rparr>\<rparr>"

definition panic_delay :: "'d ports \<Rightarrow> u32 \<Rightarrow> 'd \<Rightarrow> 'd" where
  "panic_delay io ticks hw = ((io_wait io ^^ 300000) ^^ unat ticks) hw"

definition live_log :: "'d ports \<Rightarrow> string \<Rightarrow> 'd vga console \<Rightarrow> 'd vga console option" where
  "live_log io msg c = do {
     c \<leftarrow> console_print (cstring ''  [ ok ] '') c;
     c \<leftarrow> console_print (cstring msg) c;
     c \<leftarrow> console_print (cstring ''\<newline>'') c;
     Some (on_hw (panic_delay io 1) c) }"

definition countdown_step :: "'d ports \<Rightarrow> int \<Rightarrow> 'd vga console \<Rightarrow> 'd vga console option" where
  "countdown_step io s c = do {
     c \<leftarrow> console_putc (word_of_int (48 + s)) c;
     c \<leftarrow> console_print (cstring '' '') c;
     Some (on_hw (panic_delay io 1) c) }"

text \<open>All of \<open>panic\<close> up to the reset; \<open>buf\<close> is the stack buffer as it is on entry.\<close>

definition panic_report ::
  "'d ports \<Rightarrow> bytes \<Rightarrow> bytes \<Rightarrow> slot list \<Rightarrow> 'd vga console \<Rightarrow> 'd vga console option" where
  "panic_report io buf fmt ap c = do {
     (b, _) \<leftarrow> kvsnprintf (Some buf) 256 fmt ap;
     buf \<leftarrow> b;
     let c = on_hw (cmos_write io 0x3A 0x4F) c;
     let c = on_hw (cmos_write io 0x3B 0x01) c;
     c \<leftarrow> console_clear (console_set_attr 0x1F c);
     c \<leftarrow> console_print (cstring ''  O B S I D I A N   K E R N E L   P A N I C\<newline>\<newline>'') c;
     c \<leftarrow> console_print (cstring ''  error : '') c;
     c \<leftarrow> console_print buf c;
     c \<leftarrow> console_print (cstring ''\<newline>'') c;
     c \<leftarrow> console_print (cstring ''  action: switching to the Secure Kernel after reset\<newline>\<newline>'') c;
     c \<leftarrow> live_log io ''console buffers flushed'' c;
     c \<leftarrow> live_log io ''interrupts disabled system-wide'' c;
     c \<leftarrow> live_log io ''fault context recorded to NVRAM'' c;
     c \<leftarrow> live_log io ''reset controller armed'' c;
     c \<leftarrow> console_print (cstring ''\<newline>  rebooting in '') c;
     ofold (countdown_step io) [5, 4, 3, 2, 1] c }"

text \<open>The reset waits for the keyboard controller without a bound; the state it leaves is the one in
  which the machine restarts.\<close>

partial_function (option) wait_input_clear :: "'d ports \<Rightarrow> 'd \<Rightarrow> 'd option" where
  "wait_input_clear io hw =
     (let (status, hw) = inb io 0x64 hw in
      if status AND 0x02 = 0 then Some hw else wait_input_clear io hw)"

definition kernel_reboot :: "'d ports \<Rightarrow> 'd \<Rightarrow> 'd option" where
  "kernel_reboot io hw = do { hw \<leftarrow> wait_input_clear io hw; Some (outb io 0x64 0xFE hw) }"

definition panic :: "'d ports \<Rightarrow> bytes \<Rightarrow> bytes \<Rightarrow> slot list \<Rightarrow> 'd vga console \<Rightarrow> 'd option" where
  "panic io buf fmt ap c = do {
     c \<leftarrow> panic_report io buf fmt ap c;
     kernel_reboot io (vga_hw (display c)) }"

section \<open>The stack canary\<close>

definition stack_guard_init :: "u64 \<Rightarrow> u64" where
  "stack_guard_init tsc =
     (let g = tsc XOR 0x4F6273696469616E in if g = 0 then 0xDEADBEEFCAFEF00D else g)"

definition stack_chk_fail :: "'d ports \<Rightarrow> bytes \<Rightarrow> 'd vga console \<Rightarrow> 'd option" where
  "stack_chk_fail io buf c = panic io buf (cstring ''stack corruption detected: canary overwritten'') [] c"

definition security_early_init :: "u64 \<Rightarrow> u64" where
  "security_early_init tsc = stack_guard_init tsc"

definition security_report :: messages where
  "security_report = [(''sec  canary armed, heap poison on, allocation policy active'', [])]"

lemma stack_guard_nonzero: "stack_guard_init tsc \<noteq> 0"
  by (simp add: stack_guard_init_def Let_def)

section \<open>The Secure Kernel\<close>

definition MEMTEST :: u32 where "MEMTEST = 0x5A5AA5A5"

fun memtest_check :: "'d mmio \<Rightarrow> u32 \<Rightarrow> nat \<Rightarrow> nat \<Rightarrow> 'd \<Rightarrow> u32 option \<times> 'd" where
  "memtest_check mm base i 0 hw = (None, hw)"
| "memtest_check mm base i (Suc n) hw =
     (let (v, hw) = reg_in mm (ucast base + 4 * of_nat i) hw in
      if v \<noteq> MEMTEST then (Some (base + of_nat i * 4), hw) else memtest_check mm base (Suc i) n hw)"

definition memtest_region :: "'d mmio \<Rightarrow> u32 \<Rightarrow> u32 \<Rightarrow> 'd \<Rightarrow> messages \<times> 'd" where
  "memtest_region mm base size_bytes hw =
     (let n = unat (size_bytes div 4);
          hw = fold (\<lambda>i. reg_out mm (ucast base + 4 * of_nat i) MEMTEST) [0..<n] hw;
          (bad, hw) = memtest_check mm base 0 n hw
      in case bad of
           Some a \<Rightarrow> ([(''memtest FAIL at %08x'', [SNum (ucast a)])], hw)
         | None \<Rightarrow> ([(''memtest ok %u KB'', [SNum (ucast (size_bytes div 1024))])], hw))"

definition dump_devices :: "'p pci \<Rightarrow> messages" where
  "dump_devices p = map (\<lambda>d. (''pci %02x:%02x.%d %04x:%04x %s'',
     [SNum (ucast (pd_bus d)), SNum (ucast (pd_dev d)), SNum (ucast (pd_fn d)), SNum (ucast (pd_vendor d)),
      SNum (ucast (pd_device d)), str_arg (cstring (pci_class_name (class_code d)))])) (take (ndevices p) (devices p))"

definition menu_key :: "int \<Rightarrow> char" where
  "menu_key sc = (if sc = 0x13 then CHR ''r'' else if sc = 0x2E then CHR ''c'' else if sc = 0x20 then CHR ''d''
     else if sc = 0x32 then CHR ''m'' else if sc = 0x23 then CHR ''h'' else CHR 0x00)"

partial_function (option) poll_key :: "'d ports \<Rightarrow> 'd \<Rightarrow> (char \<times> 'd) option" where
  "poll_key io hw =
     (let (sc, hw) = ps2_poll_scancode io hw in
      if sc < 0 \<or> 128 \<le> sc then poll_key io hw else Some (menu_key sc, hw))"

text \<open>One turn of the menu of \<open>secure_main\<close>; after \<open>r\<close> the machine restarts.\<close>

definition menu_action ::
  "'d ports \<Rightarrow> 'd mmio \<Rightarrow> 'p pci \<Rightarrow> u32 \<Rightarrow> u32 \<Rightarrow> char \<Rightarrow> 'd \<Rightarrow> (messages \<times> 'd) option" where
  "menu_action io mm p heap_base heap_size k hw =
     (if k = CHR ''r'' then do { hw \<leftarrow> kernel_reboot io (cmos_clear_panic_flag io hw); Some ([], hw) }
      else if k = CHR ''c'' then Some ([(''panic flag cleared'', [])], cmos_clear_panic_flag io hw)
      else if k = CHR ''d'' then Some (dump_devices p, hw)
      else if k = CHR ''m'' then Some (memtest_region mm heap_base heap_size hw)
      else Some ([(''menu: r c d m h'', [])], hw))"

definition secure_turn :: "'d ports \<Rightarrow> 'd mmio \<Rightarrow> 'p pci \<Rightarrow> u32 \<Rightarrow> u32 \<Rightarrow> 'd \<Rightarrow> (messages \<times> 'd) option" where
  "secure_turn io mm p heap_base heap_size hw = do {
     (k, hw) \<leftarrow> poll_key io hw;
     menu_action io mm p heap_base heap_size k hw }"

text \<open>What \<open>secure_main\<close> prints before its loop; the version is a parameter of the build.\<close>

definition secure_greeting :: "'d ports \<Rightarrow> string \<Rightarrow> u64 \<Rightarrow> 'd \<Rightarrow> messages \<times> 'd" where
  "secure_greeting io version mem_kb hw =
     (let (code, hw) = cmos_last_boot_panicked io hw in
      ([(''\<newline>%s SECURE %s -- recovery environment'', [str_arg (cstring ''Obsidian''), str_arg (cstring version)]),
        (''last boot: %s'', [str_arg (cstring (if code \<noteq> None then ''KERNEL PANIC detected'' else ''clean shutdown''))]),
        (''memory available to this session: %llu KB\<newline>'', [SNum mem_kb]),
        (''menu:'', []), (''  r reboot into the main kernel'', []), (''  c clear the panic flag'', []),
        (''  d list PCI devices'', []), (''  m memory self test'', []), (''  h show this help\<newline>'', [])], hw))"

section \<open>The panic is recorded\<close>

context text_display
begin

lemma putc_returns:
  assumes s: "con_ok s" and col: "con_col s < 2 ^ 31 - 1"
  shows "\<exists>s'. console_putc c s = Some s' \<and> con_ok s' \<and> con_col s' \<le> con_col s + 1"
proof -
  consider "c = 10" | "c = 13" | "c = 8" | "c \<noteq> 8" "c \<noteq> 10" "c \<noteq> 13"
    by blast
  then show ?thesis
  proof cases
    case 1
    then show ?thesis
      using putc_newline [OF s] s by (auto simp: con_ok_def)
  next
    case 2
    then show ?thesis
      using s by (simp add: console_putc_def keep_on_screen_def con_ok_def)
  next
    case 3
    then show ?thesis
      using s put_law [of "display s" "con_col s - 1" "con_row s" "0x20" "con_attr s"]
      by (auto simp: console_putc_def keep_on_screen_def put_here_def con_ok_def)
  next
    case 4
    then show ?thesis
      using putc_text [OF s 4 col] by auto
  qed
qed

end

text \<open>What stays true during the report: the display is sound, the cursor has moved at most \<open>k\<close> columns
  and the CMOS holds \<open>n\<close>.\<close>

definition reporting :: "'d ports \<Rightarrow> ('d \<Rightarrow> u8 \<Rightarrow> u8) \<Rightarrow> (u8 \<Rightarrow> u8) \<Rightarrow> int \<Rightarrow> 'd vga console \<Rightarrow> bool" where
  "reporting io nv n k c \<longleftrightarrow> vga.con_ok io c \<and> con_col c \<le> k \<and> nv (vga_hw (display c)) = n"

definition yields :: "'a option \<Rightarrow> ('a \<Rightarrow> bool) \<Rightarrow> bool" where
  "yields m Q \<longleftrightarrow> (\<exists>x. m = Some x \<and> Q x)"

lemma yields_bind: "yields m P \<Longrightarrow> (\<And>x. P x \<Longrightarrow> yields (f x) Q) \<Longrightarrow> yields (m \<bind> f) Q"
  by (auto simp: yields_def)

lemma yields_mono: "yields m P \<Longrightarrow> (\<And>x. P x \<Longrightarrow> Q x) \<Longrightarrow> yields m Q"
  by (auto simp: yields_def)

lemma yields_Some: "Q x \<Longrightarrow> yields (Some x) Q"
  by (simp add: yields_def)

text \<open>The ports of the text cursor are not those of the CMOS.\<close>

definition cursor_apart :: "'d ports \<Rightarrow> ('d \<Rightarrow> u8 \<Rightarrow> u8) \<Rightarrow> bool" where
  "cursor_apart io nv \<longleftrightarrow> (\<forall>v hw. nv (outb io 0x3D4 v hw) = nv hw \<and> nv (outb io 0x3D5 v hw) = nv hw)"

lemma vt_putc_keeps:
  assumes "cursor_apart io nv" and "vt_putc_at io x y c a v = Some v'"
  shows "nv (vga_hw v') = nv (vga_hw v)"
  using assms by (auto simp: vt_putc_at_def cursor_apart_def Let_def bind_eq_Some_conv split: if_splits)

lemma vt_scroll_keeps: "vt_scroll l v = Some v' \<Longrightarrow> vga_hw v' = vga_hw v"
  by (auto simp: vt_scroll_def bind_eq_Some_conv)

lemma putc_keeps:
  assumes "cursor_apart io nv" and "con s = Some (vga_text_ops io)" and "console_putc c s = Some s'"
  shows "nv (vga_hw (display s')) = nv (vga_hw (display s))"
  using assms(2,3)
  by (auto simp: console_putc_def put_here_def keep_on_screen_def vga_text_ops_def bind_eq_Some_conv
      dest!: vt_putc_keeps [OF assms(1)] vt_scroll_keeps split: if_splits)

lemma putc_reporting:
  assumes "cursor_apart io nv" and "reporting io nv n k c" and "k < 2000"
  shows "yields (console_putc ch c) (reporting io nv n (k + 1))"
  using vga.putc_returns [of io c ch] putc_keeps [OF assms(1), of c ch] assms(2,3)
  by (fastforce simp: reporting_def yields_def vga.con_ok_def)

lemma print_reporting:
  assumes "cursor_apart io nv" and "reporting io nv n k c" and "0 \<in> set str" and "k + int (length str) \<le> 2000"
  shows "yields (console_print str c) (reporting io nv n (k + int (length str)))"
  using assms(2-)
proof (induction str arbitrary: c k)
  case (Cons x xs)
  show ?case
  proof (cases "x = 0")
    case True
    then show ?thesis
      using Cons.prems by (auto simp: yields_def reporting_def)
  next
    case False
    then have "yields (console_putc x c \<bind> console_print xs) (reporting io nv n (k + 1 + int (length xs)))"
      using Cons.prems by (intro yields_bind [OF putc_reporting [OF assms(1)]] Cons.IH) auto
    then show ?thesis
      using False by (simp add: algebra_simps)
  qed
qed simp

lemma cstring_reporting:
  assumes "cursor_apart io nv" and "reporting io nv n k c" and "k + int (length s) + 1 \<le> 2000"
  shows "yields (console_print (cstring s) c) (reporting io nv n (k + int (length s) + 1))"
  using print_reporting [OF assms(1,2), of "cstring s"] assms(3) by (simp add: cstring_def algebra_simps)

lemma wait_keeps:
  assumes "cmos_chip io index nv"
  shows "nv (panic_delay io t hw) = nv hw"
proof -
  have "nv ((io_wait io ^^ m) hw) = nv hw" for m hw
    using assms by (induction m) (simp_all add: cmos_chip_def io_wait_def)
  then have "nv (((io_wait io ^^ 300000) ^^ m) hw) = nv hw" for m
    by (induction m) simp_all
  then show ?thesis
    by (simp add: panic_delay_def)
qed

lemma delay_reporting:
  assumes "cmos_chip io index nv" and "reporting io nv n k c"
  shows "reporting io nv n k (on_hw (panic_delay io t) c)"
  using assms(2) wait_keeps [OF assms(1)] by (simp add: reporting_def on_hw_def vga.con_ok_def)

lemma live_log_reporting:
  assumes "cmos_chip io index nv" and "cursor_apart io nv" and "reporting io nv n k c" and "k + int (length s) + 13 \<le> 2000"
  shows "yields (live_log io s c) (reporting io nv n (k + int (length s) + 13))"
proof -
  have "yields (live_log io s c) (reporting io nv n (k + int (length ''  [ ok ] '') + 1 + int (length s) + 1 + int (length ''\<newline>'') + 1))"
    unfolding live_log_def using assms(3,4)
    by (intro yields_bind [OF cstring_reporting [OF assms(2)]] yields_Some delay_reporting [OF assms(1)]) auto
  then show ?thesis
    by (simp add: algebra_simps)
qed

lemma countdown_reporting:
  assumes "cmos_chip io index nv" and "cursor_apart io nv" and "reporting io nv n k c" and "k + 3 * int (length ds) \<le> 2000"
  shows "yields (ofold (countdown_step io) ds c) (reporting io nv n (k + 3 * int (length ds)))"
  using assms(3,4)
proof (induction ds arbitrary: c k)
  case Nil
  then show ?case
    by (simp add: yields_def)
next
  case (Cons d ds)
  have "yields (countdown_step io d c) (reporting io nv n (k + 1 + int (length '' '') + 1))"
    unfolding countdown_step_def using Cons.prems
    by (intro yields_bind [OF putc_reporting [OF assms(2)]] yields_bind [OF cstring_reporting [OF assms(2)]]
        yields_Some delay_reporting [OF assms(1)]) auto
  then have "yields (countdown_step io d c) (reporting io nv n (k + 3))"
    by (simp add: add.commute)
  then have "yields (countdown_step io d c \<bind> ofold (countdown_step io) ds) (reporting io nv n (k + 3 + 3 * int (length ds)))"
    using Cons.prems by (intro yields_bind [OF _ Cons.IH]) auto
  then show ?case
    by (simp add: algebra_simps)
qed

lemma clear_reporting:
  assumes "con c = Some (vga_text_ops io)" and "length (vt (display c)) = 2000" and "nv (vga_hw (display c)) = n"
  shows "yields (console_clear c) (reporting io nv n 0)"
proof -
  have "try_clear (vga_text_ops io) (display c) = Some ((display c)\<lparr>vt := replicate 2000 vt_blank\<rparr>)"
    using assms(2) by (simp add: try_clear_def vga_text_ops_def vt_clear_def VGA_COLS_def VGA_ROWS_def upd_def)
  moreover have "0 < co_rows (vga_text_ops io)"
    by (simp add: vga_text_ops_def VGA_ROWS_def)
  ultimately show ?thesis
    using assms by (simp add: yields_def console_clear_def reporting_def vga.con_ok_def)
qed

text \<open>The buffer after \<open>kvsnprintf\<close>: as long as before, with a terminator.\<close>

lemma ob_putc_length: "ob_putc ob c = Some ob' \<Longrightarrow> map_option length (ob_p ob') = map_option length (ob_p ob)"
  by (auto simp: ob_putc_def ob_store_def bind_simps split: if_splits option.splits)

lemma ob_puts_length: "ob_puts ob xs = Some ob' \<Longrightarrow> map_option length (ob_p ob') = map_option length (ob_p ob)"
proof (induction xs arbitrary: ob)
  case (Cons x xs)
  then show ?case
    using ob_putc_length [of ob x] by (cases "ob_putc ob x") auto
qed simp

lemma kvsnprintf_terminated:
  assumes "kvsnprintf (Some buf) sz fmt ap = Some (Some b, n)" and "sz \<noteq> 0"
  shows "length b = length buf \<and> 0 \<in> set b"
proof -
  let ?ob = "\<lparr>ob_p = Some buf, ob_size = sz, ob_len = 0\<rparr>"
  obtain ob r where ob: "format_loop ?ob fmt ap = Some (ob, r)"
    using assms(1) by (auto simp: kvsnprintf_def bind_eq_Some_conv)
  then obtain xs where "ob_puts ?ob xs = Some ob"
    using streams_to_format_loop [of fmt ap] unfolding streams_to_def by (fastforce simp: bind_eq_Some_conv)
  then obtain b0 where b0: "ob_p ob = Some b0" "length b0 = length buf"
    using ob_puts_length by fastforce
  obtain e where "splice b0 e [0] = Some b"
    using assms ob b0(1) by (auto simp: kvsnprintf_def bind_eq_Some_conv Let_def)
  then show ?thesis
    using b0(2) by (auto simp: splice_def upd_def split: if_splits)
qed

lemma panic_report_records:
  assumes chip: "cmos_chip io index nv" and apart: "cursor_apart io nv"
    and con: "con c = Some (vga_text_ops io)" "length (vt (display c)) = 2000"
    and msg: "kvsnprintf (Some buf) 256 fmt ap = Some (Some b, m)" "length buf = 256"
  shows "yields (panic_report io buf fmt ap c) (\<lambda>c'. nv (vga_hw (display c')) = (nv (vga_hw (display c)))(0x3A := 0x4F, 0x3B := 0x01))"
proof -
  let ?n = "(nv (vga_hw (display c)))(0x3A := 0x4F, 0x3B := 0x01)"
  let ?c = "on_hw (cmos_write io 0x3B 0x01) (on_hw (cmos_write io 0x3A 0x4F) c)"
  have b: "length b = 256" "0 \<in> set b"
    using kvsnprintf_terminated [OF msg(1)] msg(2) by simp_all
  have n: "nv (vga_hw (display ?c)) = ?n"
    using cmos_chip_write [OF chip, of "0x3A"] cmos_chip_write [OF chip, of "0x3B"] by (simp add: on_hw_def)
  have start: "yields (console_clear (console_set_attr 0x1F ?c)) (reporting io nv ?n 0)"
    using con n by (intro clear_reporting) (simp_all add: console_set_attr_def on_hw_def)
  have "yields (panic_report io buf fmt ap c) (\<lambda>c'. \<exists>k. reporting io nv ?n k c')"
    unfolding panic_report_def msg(1) Let_def bind.simps prod.case option.case
    by (rule yields_bind [OF start] yields_bind [OF cstring_reporting [OF apart]] yields_bind [OF print_reporting [OF apart]]
        yields_bind [OF live_log_reporting [OF chip apart]] yields_mono [OF countdown_reporting [OF chip apart]]
        | assumption | simp add: b | rule exI)+
  then show ?thesis
    by (auto simp: yields_def reporting_def)
qed

text \<open>A keyboard controller that is ready for a command, whose status port is not the CMOS.\<close>

definition reset_ready :: "'d ports \<Rightarrow> ('d \<Rightarrow> u8 \<Rightarrow> u8) \<Rightarrow> bool" where
  "reset_ready io nv \<longleftrightarrow> (\<forall>v hw. fst (inb io 0x64 hw) AND 0x02 = 0 \<and> nv (snd (inb io 0x64 hw)) = nv hw \<and> nv (outb io 0x64 v hw) = nv hw)"

lemma kernel_reboot_ready:
  assumes "reset_ready io nv"
  shows "yields (kernel_reboot io hw) (\<lambda>hw'. nv hw' = nv hw)"
  using assms
  by (simp add: yields_def kernel_reboot_def wait_input_clear.simps [of io hw] reset_ready_def case_prod_beta Let_def)


text \<open>A machine with a CMOS and nothing else.\<close>

definition cmos_machine :: "(u8 \<times> (u8 \<Rightarrow> u8)) ports" where
  "cmos_machine = \<lparr>inb = \<lambda>p (i, m). (if p = 0x71 then m i else 0, i, m),
     outb = \<lambda>p v (i, m). if p = 0x70 then (v AND 0x7F, m) else if p = 0x71 then (i, m(i := v)) else (i, m),
     inw = \<lambda>p hw. (0, hw), outw = \<lambda>p v hw. hw, inl = \<lambda>p hw. (0, hw), outl = \<lambda>p v hw. hw\<rparr>"


end
